(* ===== verification/Sig_Prelude.thy ===== *)
theory Sig_Prelude
  imports Main "HOL-Library.Sublist" "HOL-Library.Char_ord" "HOL-Library.List_Lexorder"
    "HOL-Library.Product_Lexorder"
begin

text \<open>
  The prelude of the Sigillum development: the named collections of facts, the names of the
  model's basic types, the reading of Go's fixed-width integers, and the generic lemmas on
  lists and options that the component theories share.

  Go's \<^verbatim>\<open>string\<close> and \<^verbatim>\<open>[]byte\<close> are lists of bytes, so both are \<^typ>\<open>string\<close> here
  (an Isabelle \<^typ>\<open>char\<close> is one byte).  \<^verbatim>\<open>error\<close> results are \<^typ>\<open>'e option\<close> where the
  Go function returns only an error (\<^term>\<open>None\<close> is \<^verbatim>\<open>nil\<close>) and a sum \<^typ>\<open>'e + 'a\<close> where
  it returns a value too.  Durations and instants are \<^typ>\<open>int\<close> nanoseconds.
\<close>

section \<open>Collections\<close>

named_theorems go_defs \<open>definitions of the modelled Go library functions\<close>
named_theorems sig_inv \<open>operations that keep an invariant\<close>
named_theorems sig_frame \<open>what an operation leaves unchanged\<close>

section \<open>Names of basic types\<close>

type_synonym bytes = string
type_synonym time = int
type_synonym duration = int
type_synonym labels = "(string \<times> string) list"

abbreviation nanosecond :: duration where "nanosecond \<equiv> 1"
abbreviation millisecond :: duration where "millisecond \<equiv> 1000000"
abbreviation second :: duration where "second \<equiv> 1000000000"
abbreviation minute :: duration where "minute \<equiv> 60000000000"
abbreviation hour :: duration where "hour \<equiv> 3600000000000"

section \<open>Fixed-width integers\<close>

text \<open>
  A conversion to a signed Go integer of width \<open>w\<close> keeps the low \<open>w\<close> bits and reads them in
  two's complement.
\<close>

definition int32 :: "int \<Rightarrow> int" where
  "int32 n = (n + 2 ^ 31) mod 2 ^ 32 - 2 ^ 31"

definition int64 :: "int \<Rightarrow> int" where
  "int64 n = (n + 2 ^ 63) mod 2 ^ 64 - 2 ^ 63"

lemma int32_id: "- (2 ^ 31) \<le> n \<Longrightarrow> n < 2 ^ 31 \<Longrightarrow> int32 n = n"
  by (simp add: int32_def)

lemma int64_id: "- (2 ^ 63) \<le> n \<Longrightarrow> n < 2 ^ 63 \<Longrightarrow> int64 n = n"
  by (simp add: int64_def)

lemma int32_bounds: "- (2 ^ 31) \<le> int32 n" "int32 n < 2 ^ 31"
proof -
  have "0 \<le> (n + 2 ^ 31) mod 2 ^ 32" "(n + 2 ^ 31) mod 2 ^ 32 < (2 ^ 32 :: int)" by auto
  then show "- (2 ^ 31) \<le> int32 n" "int32 n < 2 ^ 31" by (simp_all add: int32_def)
qed

lemma int64_bounds: "- (2 ^ 63) \<le> int64 n" "int64 n < 2 ^ 63"
proof -
  have "0 \<le> (n + 2 ^ 63) mod 2 ^ 64" "(n + 2 ^ 63) mod 2 ^ 64 < (2 ^ 64 :: int)" by auto
  then show "- (2 ^ 63) \<le> int64 n" "int64 n < 2 ^ 63" by (simp_all add: int64_def)
qed

text \<open>\<^verbatim>\<open>time.Time.Sub\<close> saturates at the bounds of \<^verbatim>\<open>time.Duration\<close>, an \<^verbatim>\<open>int64\<close>.\<close>

definition time_sub :: "time \<Rightarrow> time \<Rightarrow> duration" where
  "time_sub t u = max (- (2 ^ 63)) (min (2 ^ 63 - 1) (t - u))"

lemma time_sub_less_iff: "- (2 ^ 63) < d \<Longrightarrow> d < 2 ^ 63 \<Longrightarrow> time_sub t u < d \<longleftrightarrow> t - u < d"
  by (auto simp: time_sub_def min_def max_def)

lemma time_sub_gt_iff: "- (2 ^ 63) \<le> d \<Longrightarrow> d < 2 ^ 63 - 1 \<Longrightarrow> d < time_sub t u \<longleftrightarrow> d < t - u"
  by (auto simp: time_sub_def min_def max_def)

section \<open>Lists\<close>

text \<open>The loops of the program that return the first element with a property.\<close>

fun find_map :: "('a \<Rightarrow> 'b option) \<Rightarrow> 'a list \<Rightarrow> 'b option" where
  "find_map f [] = None"
| "find_map f (x # xs) = (case f x of Some y \<Rightarrow> Some y | None \<Rightarrow> find_map f xs)"

lemma find_map_None_iff: "find_map f xs = None \<longleftrightarrow> (\<forall>x\<in>set xs. f x = None)"
  by (induction xs) (auto split: option.splits)

lemma find_map_SomeD: "find_map f xs = Some y \<Longrightarrow> \<exists>x\<in>set xs. f x = Some y"
  by (induction xs) (auto split: option.splits)

lemma find_None_all: "List.find P xs = None \<longleftrightarrow> (\<forall>x\<in>set xs. \<not> P x)"
  by (auto simp: find_None_iff)

lemma find_SomeD: "List.find P xs = Some x \<Longrightarrow> x \<in> set xs \<and> P x"
  by (auto simp: find_Some_iff)

text \<open>On a sorted list, the elements above a bound are a suffix.\<close>

lemma sorted_filter_drop:
  fixes xs :: "'a::linorder list"
  shows "sorted xs \<Longrightarrow> filter (\<lambda>x. c < x) xs = drop (length (filter (\<lambda>x. x \<le> c) xs)) xs"
proof (induction xs)
  case (Cons x xs)
  show ?case
  proof (cases "x \<le> c")
    case True
    with Cons show ?thesis by simp
  next
    case False
    with Cons.prems have "filter (\<lambda>y. y \<le> c) xs = []" "filter (\<lambda>y. c < y) xs = xs"
      by (auto simp: filter_empty_conv filter_id_conv dest: order_trans)
    with False show ?thesis by auto
  qed
qed simp

lemma sorted_drop [intro]: "sorted xs \<Longrightarrow> sorted (drop n xs)"
  by (rule sorted_wrt_drop)

lemma sorted_take [intro]: "sorted xs \<Longrightarrow> sorted (take n xs)"
  by (rule sorted_wrt_take)

lemma length_filter_mono: "(\<And>x. x \<in> set xs \<Longrightarrow> P x \<Longrightarrow> Q x) \<Longrightarrow>
    length (filter P xs) \<le> length (filter Q xs)"
  by (induction xs) (auto intro: le_SucI)

text \<open>The last occurrence of an element splits a list.\<close>

lemma split_last_unique:
  "x \<notin> set b \<Longrightarrow> x \<notin> set d \<Longrightarrow> a @ x # b = c @ x # d \<Longrightarrow> a = c \<and> b = d"
proof (induction a arbitrary: c)
  case Nil
  then show ?case by (cases c) auto
next
  case (Cons y a)
  then show ?case by (cases c) auto
qed

end
