(* ===== verification/Go_Strings.thy ===== *)
theory Go_Strings
  imports Sig_Prelude
begin

text \<open>
  The functions of Go's packages \<^verbatim>\<open>strings\<close>, \<^verbatim>\<open>bytes\<close> and \<^verbatim>\<open>unicode/utf8\<close> that Sigillum
  calls, on byte strings.  Indices that Go returns as \<^verbatim>\<open>int\<close> with \<^verbatim>\<open>-1\<close> for absent are
  \<^typ>\<open>nat option\<close> here.  The two tables of package \<^verbatim>\<open>unicode\<close> that the case-insensitive
  functions read for runes beyond ASCII (the Unicode character data is not part of the
  program) are the fields of a record that those functions take as their first argument.
\<close>

section \<open>Bytes\<close>

text \<open>Evaluation of byte literals by the simplifier.\<close>

lemma bit_one_zero [simp]: "bit (Suc 0) 0"
  by (simp add: bit_0)

lemma char_of_eval [simp]:
  "char_of (numeral n :: nat) = Char (odd (numeral n :: nat)) (bit (numeral n :: nat) 1)
     (bit (numeral n :: nat) 2) (bit (numeral n :: nat) 3) (bit (numeral n :: nat) 4)
     (bit (numeral n :: nat) 5) (bit (numeral n :: nat) 6) (bit (numeral n :: nat) 7)"
  by (simp add: char_of_def bit_0)

abbreviation byte :: "char \<Rightarrow> nat" where "byte \<equiv> of_char"

definition is_ascii :: "char \<Rightarrow> bool" where
  [go_defs]: "is_ascii c \<longleftrightarrow> byte c < 0x80"

definition byte_in :: "nat \<Rightarrow> nat \<Rightarrow> char \<Rightarrow> bool" where
  [go_defs]: "byte_in lo hi c \<longleftrightarrow> lo \<le> byte c \<and> byte c \<le> hi"

definition is_lower :: "char \<Rightarrow> bool" where
  [go_defs]: "is_lower = byte_in 97 122"

definition is_upper :: "char \<Rightarrow> bool" where
  [go_defs]: "is_upper = byte_in 65 90"

definition is_digit :: "char \<Rightarrow> bool" where
  [go_defs]: "is_digit = byte_in 48 57"

definition is_alnum :: "char \<Rightarrow> bool" where
  [go_defs]: "is_alnum c \<longleftrightarrow> is_lower c \<or> is_upper c \<or> is_digit c"

definition ascii_lower :: "char \<Rightarrow> char" where
  [go_defs]: "ascii_lower c = (if is_upper c then char_of (byte c + 32) else c)"

abbreviation CR :: char where "CR \<equiv> CHR 0x0D"
abbreviation LF :: char where "LF \<equiv> CHR 0x0A"
abbreviation NUL :: char where "NUL \<equiv> CHR 0x00"
abbreviation crlf :: string where "crlf \<equiv> [CR, LF]"

lemma byte_less_256 [simp]: "byte c < 256"
  by (metis char_of_char of_char_of mod_less_divisor zero_less_numeral)

lemma byte_ascii_lower: "byte (ascii_lower c) = (if is_upper c then byte c + 32 else byte c)"
  by (simp add: go_defs)

lemma ascii_lower_idem [simp]: "ascii_lower (ascii_lower c) = ascii_lower c"
  by (simp add: go_defs)

lemma ascii_lower_eq_iff_not_alpha:
  "\<not> is_lower d \<Longrightarrow> \<not> is_upper d \<Longrightarrow> ascii_lower c = d \<longleftrightarrow> c = d"
proof -
  assume d: "\<not> is_lower d" "\<not> is_upper d"
  have "byte (ascii_lower c) = byte d \<longleftrightarrow> byte c = byte d"
    using d by (auto simp: byte_ascii_lower) (auto simp: go_defs)
  then show ?thesis by (metis char_of_char)
qed

lemma is_ascii_lower [simp]: "is_ascii (ascii_lower c) \<longleftrightarrow> is_ascii c"
  by (auto simp: is_ascii_def byte_ascii_lower) (auto simp: go_defs)

section \<open>UTF-8 (package unicode/utf8)\<close>

definition rune_error :: nat where "rune_error = 0xFFFD"

definition is_cont :: "char \<Rightarrow> bool" where
  "is_cont = byte_in 0x80 0xBF"

text \<open>
  \<^verbatim>\<open>utf8.DecodeRuneInString\<close>: the first rune and its width in bytes.  An encoding that is
  not shortest, encodes a surrogate or exceeds U+10FFFF is an error of width one.
\<close>

fun decode_rune :: "string \<Rightarrow> nat \<times> nat" where
  "decode_rune [] = (rune_error, 0)"
| "decode_rune (b0 # s) =
    (if is_ascii b0 then (byte b0, 1)
     else if byte_in 0xC2 0xDF b0 then
       (case s of
          b1 # _ \<Rightarrow> if is_cont b1 then ((byte b0 - 0xC0) * 64 + (byte b1 - 0x80), 2)
                    else (rune_error, 1)
        | _ \<Rightarrow> (rune_error, 1))
     else if byte_in 0xE0 0xEF b0 then
       (case s of
          b1 # b2 # _ \<Rightarrow>
            if byte_in (if byte b0 = 0xE0 then 0xA0 else 0x80)
                       (if byte b0 = 0xED then 0x9F else 0xBF) b1 \<and> is_cont b2
            then ((byte b0 - 0xE0) * 4096 + (byte b1 - 0x80) * 64 + (byte b2 - 0x80), 3)
            else (rune_error, 1)
        | _ \<Rightarrow> (rune_error, 1))
     else if byte_in 0xF0 0xF4 b0 then
       (case s of
          b1 # b2 # b3 # _ \<Rightarrow>
            if byte_in (if byte b0 = 0xF0 then 0x90 else 0x80)
                       (if byte b0 = 0xF4 then 0x8F else 0xBF) b1 \<and> is_cont b2 \<and> is_cont b3
            then ((byte b0 - 0xF0) * 262144 + (byte b1 - 0x80) * 4096
                  + (byte b2 - 0x80) * 64 + (byte b3 - 0x80), 4)
            else (rune_error, 1)
        | _ \<Rightarrow> (rune_error, 1))
     else (rune_error, 1))"

lemma decode_rune_width_pos: "s \<noteq> [] \<Longrightarrow> 0 < snd (decode_rune s)"
  by (cases s) (auto split: list.splits)

lemma decode_rune_pos: "(r, n) = decode_rune s \<Longrightarrow> s \<noteq> [] \<Longrightarrow> 0 < n"
  using decode_rune_width_pos [of s] by (metis snd_conv)

lemma decode_rune_width_le: "snd (decode_rune s) \<le> length s"
  by (cases s) (auto split: list.splits)

lemma decode_rune_ascii [simp]: "is_ascii c \<Longrightarrow> decode_rune (c # s) = (byte c, 1)"
  by simp

text \<open>The runes a \<^verbatim>\<open>for range\<close> loop over a string sees.\<close>

function runes :: "string \<Rightarrow> nat list" where
  "runes s = (if s = [] then [] else
     (case decode_rune s of (r, n) \<Rightarrow> r # runes (drop n s)))"
  by pat_completeness auto
termination
  by (relation "measure length") (auto dest: decode_rune_pos)

declare runes.simps [simp del]

lemma runes_Nil [simp]: "runes [] = []"
  by (simp add: runes.simps)

lemma runes_ascii_Cons [simp]: "is_ascii c \<Longrightarrow> runes (c # s) = byte c # runes s"
  by (simp add: runes.simps [of "c # s"])

lemma runes_ascii: "list_all is_ascii s \<Longrightarrow> runes s = map byte s"
  by (induction s) auto

text \<open>An ASCII byte ends whatever encoding precedes it.\<close>

lemma decode_rune_append_ascii:
  assumes "p \<noteq> []" "is_ascii c"
  shows "decode_rune (p @ c # d) = decode_rune p"
proof -
  have c: "is_cont c = False" "byte_in (if Q then 0xA0 else 0x80) b c = False"
    "byte_in (if Q then 0x90 else 0x80) b c = False" for Q b
    using assms(2) by (auto simp: go_defs is_cont_def)
  obtain b0 p1 where p: "p = b0 # p1" using assms(1) by (cases p) auto
  consider "p1 = []" | b1 where "p1 = [b1]" | b1 b2 where "p1 = [b1, b2]"
    | b1 b2 b3 p4 where "p1 = b1 # b2 # b3 # p4"
    by (metis list.exhaust)
  then show ?thesis
  proof cases
    case 1
    then show ?thesis unfolding p by (cases d; cases "tl d") (simp_all add: c)
  next
    case 2
    then show ?thesis unfolding p by (cases d) (simp_all add: c)
  next
    case 3
    then show ?thesis unfolding p by (simp add: c)
  next
    case 4
    then show ?thesis unfolding p by simp
  qed
qed

lemma runes_append_ascii:
  "list_all is_ascii d \<Longrightarrow> runes (p @ d) = runes p @ map byte d"
proof (induction "length p" arbitrary: p rule: less_induct)
  case less
  show ?case
  proof (cases "p = [] \<or> d = []")
    case True
    then show ?thesis using less.prems by (auto simp: runes_ascii)
  next
    case False
    then obtain c d' where d: "d = c # d'" "is_ascii c" using less.prems by (cases d) auto
    obtain r n where rn: "decode_rune p = (r, n)" by force
    then have n: "0 < n" "n \<le> length p"
      using decode_rune_pos [of r n p] decode_rune_width_le [of p] False by auto
    have "decode_rune (p @ d) = (r, n)" using decode_rune_append_ascii d False rn by simp
    then have "runes (p @ d) = r # runes (drop n p @ d)"
      using False n by (subst runes.simps) simp
    also have "runes (drop n p @ d) = runes (drop n p) @ map byte d"
      using less False n by simp
    also have "r # (runes (drop n p) @ map byte d) = runes p @ map byte d"
      using False rn by (subst (2) runes.simps) simp
    finally show ?thesis .
  qed
qed

text \<open>\<^verbatim>\<open>utf8.AppendRune\<close> on one rune; surrogates and out-of-range values become U+FFFD.\<close>

definition encode_rune :: "nat \<Rightarrow> string" where
  "encode_rune r =
     (if r \<le> 0x7F then [char_of r]
      else if r \<le> 0x7FF then [char_of (0xC0 + r div 64), char_of (0x80 + r mod 64)]
      else if r > 0x10FFFF \<or> (0xD800 \<le> r \<and> r \<le> 0xDFFF) then [CHR 0xEF, CHR 0xBF, CHR 0xBD]
      else if r \<le> 0xFFFF then
        [char_of (0xE0 + r div 4096), char_of (0x80 + r div 64 mod 64), char_of (0x80 + r mod 64)]
      else [char_of (0xF0 + r div 262144), char_of (0x80 + r div 4096 mod 64),
            char_of (0x80 + r div 64 mod 64), char_of (0x80 + r mod 64)])"

section \<open>Case (packages strings and unicode)\<close>

text \<open>
  The Unicode tables used beyond ASCII: \<^verbatim>\<open>unicode.ToLower\<close>, and whether two runes are in one
  orbit of \<^verbatim>\<open>unicode.SimpleFold\<close>.
\<close>

record unicode_tables =
  lower_rune :: "nat \<Rightarrow> nat"
  same_fold :: "nat \<Rightarrow> nat \<Rightarrow> bool"

definition to_lower_rune :: "unicode_tables \<Rightarrow> nat \<Rightarrow> nat" where
  "to_lower_rune U r = (if r < 0x80 then (if 65 \<le> r \<and> r \<le> 90 then r + 32 else r)
     else lower_rune U r)"

definition ToLower :: "unicode_tables \<Rightarrow> string \<Rightarrow> string" where
  "ToLower U s = (if list_all is_ascii s then map ascii_lower s
     else concat (map (encode_rune \<circ> to_lower_rune U) (runes s)))"

lemma ToLower_ascii: "list_all is_ascii s \<Longrightarrow> ToLower U s = map ascii_lower s"
  by (simp add: ToLower_def)

lemma ToLower_ascii_idem: "list_all is_ascii s \<Longrightarrow> ToLower U (ToLower U s) = ToLower U s"
  by (simp add: ToLower_ascii list_all_iff)

lemma encode_lower_ascii: "is_ascii c \<Longrightarrow> encode_rune (to_lower_rune U (byte c)) = [ascii_lower c]"
  by (auto simp: encode_rune_def to_lower_rune_def ascii_lower_def is_upper_def byte_in_def is_ascii_def)

lemma ToLower_append_ascii:
  assumes "list_all is_ascii d"
  shows "ToLower U (p @ d) = ToLower U p @ map ascii_lower d"
proof -
  have "concat (map (encode_rune \<circ> to_lower_rune U) (map byte d)) = map ascii_lower d"
    using assms by (induction d) (auto simp: encode_lower_ascii)
  then show ?thesis using assms by (simp add: ToLower_def runes_append_ascii)
qed

definition fold_rune :: "unicode_tables \<Rightarrow> nat \<Rightarrow> nat \<Rightarrow> bool" where
  "fold_rune U a b \<longleftrightarrow> a = b \<or>
     (if a < 0x80 \<and> b < 0x80 then
        (65 \<le> a \<and> a \<le> 90 \<and> b = a + 32) \<or> (65 \<le> b \<and> b \<le> 90 \<and> a = b + 32)
      else same_fold U a b)"

definition EqualFold :: "unicode_tables \<Rightarrow> string \<Rightarrow> string \<Rightarrow> bool" where
  "EqualFold U s t \<longleftrightarrow> list_all2 (fold_rune U) (runes s) (runes t)"

lemma fold_rune_ascii:
  "is_ascii a \<Longrightarrow> is_ascii b \<Longrightarrow>
   fold_rune U (byte a) (byte b) \<longleftrightarrow> ascii_lower a = ascii_lower b"
proof -
  assume *: "is_ascii a" "is_ascii b"
  have "ascii_lower a = ascii_lower b \<longleftrightarrow> byte (ascii_lower a) = byte (ascii_lower b)"
    by (metis char_of_char)
  also have "\<dots> \<longleftrightarrow> fold_rune U (byte a) (byte b)"
    using * by (auto simp: byte_ascii_lower fold_rune_def) (auto simp: go_defs)
  finally show ?thesis by simp
qed

lemma EqualFold_ascii:
  assumes "list_all is_ascii s" "list_all is_ascii t"
  shows "EqualFold U s t \<longleftrightarrow> map ascii_lower s = map ascii_lower t"
proof -
  have "list_all2 (fold_rune U) (map byte s) (map byte t) \<longleftrightarrow>
      map ascii_lower s = map ascii_lower t"
    using assms
  proof (induction s arbitrary: t)
    case Nil
    then show ?case by simp
  next
    case (Cons a s)
    then show ?case by (cases t) (auto simp: fold_rune_ascii)
  qed
  then show ?thesis using assms by (simp add: EqualFold_def runes_ascii)
qed

section \<open>Searching and splitting\<close>

definition HasPrefix :: "string \<Rightarrow> string \<Rightarrow> bool" where
  [go_defs]: "HasPrefix s p = prefix p s"

definition HasSuffix :: "string \<Rightarrow> string \<Rightarrow> bool" where
  [go_defs]: "HasSuffix s p = suffix p s"

fun Contains :: "string \<Rightarrow> string \<Rightarrow> bool" where
  "Contains [] t = (t = [])"
| "Contains (c # s) t = (prefix t (c # s) \<or> Contains s t)"

lemma Contains_iff: "Contains s t \<longleftrightarrow> (\<exists>u v. s = u @ t @ v)"
proof (induction s)
  case Nil
  then show ?case by simp
next
  case (Cons c s)
  show ?case
    unfolding Contains.simps Cons.IH
    by (auto simp: prefix_def Cons_eq_append_conv)
qed

definition ContainsAny :: "string \<Rightarrow> string \<Rightarrow> bool" where
  [go_defs]: "ContainsAny s chars \<longleftrightarrow> list_ex (\<lambda>c. c \<in> set chars) s"

text \<open>\<^verbatim>\<open>IndexByte\<close> and \<^verbatim>\<open>LastIndexByte\<close>.\<close>

fun IndexByte :: "string \<Rightarrow> char \<Rightarrow> nat option" where
  "IndexByte [] c = None"
| "IndexByte (x # s) c = (if x = c then Some 0 else map_option Suc (IndexByte s c))"

fun LastIndexByte :: "string \<Rightarrow> char \<Rightarrow> nat option" where
  "LastIndexByte [] c = None"
| "LastIndexByte (x # s) c = (case LastIndexByte s c of Some i \<Rightarrow> Some (Suc i)
     | None \<Rightarrow> if x = c then Some 0 else None)"

lemma IndexByte_None_iff: "IndexByte s c = None \<longleftrightarrow> c \<notin> set s"
  by (induction s) auto

lemma IndexByte_SomeD: "IndexByte s c = Some i \<Longrightarrow>
    i < length s \<and> s = take i s @ c # drop (Suc i) s \<and> c \<notin> set (take i s)"
  by (induction s arbitrary: i) (auto split: if_splits)

lemma IndexByte_append: "c \<notin> set a \<Longrightarrow> IndexByte (a @ c # b) c = Some (length a)"
  by (induction a) auto

lemma LastIndexByte_None_iff: "LastIndexByte s c = None \<longleftrightarrow> c \<notin> set s"
  by (induction s) (auto split: option.splits)

lemma LastIndexByte_SomeD: "LastIndexByte s c = Some i \<Longrightarrow>
    i < length s \<and> s = take i s @ c # drop (Suc i) s \<and> c \<notin> set (drop (Suc i) s)"
proof (induction s arbitrary: i)
  case (Cons x s)
  show ?case
  proof (cases "LastIndexByte s c")
    case None
    with Cons.prems show ?thesis by (auto simp: LastIndexByte_None_iff split: if_splits)
  next
    case (Some j)
    with Cons show ?thesis by auto
  qed
qed simp

lemma LastIndexByte_split: "LastIndexByte s c = Some i \<Longrightarrow>
    \<exists>l d. s = l @ c # d \<and> c \<notin> set d \<and> length l = i"
proof (rule exI [of _ "take i s"], rule exI [of _ "drop (Suc i) s"])
  assume "LastIndexByte s c = Some i"
  from LastIndexByte_SomeD [OF this]
  show "s = take i s @ c # drop (Suc i) s \<and> c \<notin> set (drop (Suc i) s) \<and> length (take i s) = i"
    by (elim conjE) (intro conjI, assumption+, simp)
qed

lemma LastIndexByte_append: "c \<notin> set b \<Longrightarrow> LastIndexByte (a @ c # b) c = Some (length a)"
proof (induction a)
  case Nil
  then have "LastIndexByte b c = None" by (simp add: LastIndexByte_None_iff)
  then show ?case by simp
qed simp

text \<open>\<^verbatim>\<open>strings.Split\<close> on a one-byte separator, \<^verbatim>\<open>strings.Join\<close>, \<^verbatim>\<open>strings.Cut\<close>.\<close>

fun Split :: "string \<Rightarrow> char \<Rightarrow> string list" where
  "Split [] c = [[]]"
| "Split (x # s) c = (if x = c then [] # Split s c
     else (case Split s c of t # ts \<Rightarrow> (x # t) # ts | [] \<Rightarrow> [[x]]))"

fun Join :: "string list \<Rightarrow> string \<Rightarrow> string" where
  "Join [] sep = []"
| "Join [t] sep = t"
| "Join (t # u # ts) sep = t @ sep @ Join (u # ts) sep"

lemma Split_not_Nil [simp]: "Split s c \<noteq> []"
  by (cases s) (auto split: list.splits)

lemma Join_Cons: "ts \<noteq> [] \<Longrightarrow> Join (t # ts) sep = t @ sep @ Join ts sep"
  by (cases ts) auto

lemma Join_Split [simp]: "Join (Split s c) [c] = s"
proof (induction s)
  case (Cons x s)
  then show ?case by (cases "Split s c"; cases "tl (Split s c)") (auto split: list.splits)
qed simp

lemma Split_no_sep: "t \<in> set (Split s c) \<Longrightarrow> c \<notin> set t"
  by (induction s arbitrary: t) (auto split: if_splits list.splits)

lemma set_Split_subset: "t \<in> set (Split s c) \<Longrightarrow> set t \<subseteq> set s"
proof (induction s arbitrary: t)
  case (Cons x s)
  then show ?case by (cases "Split s c") (fastforce split: if_splits)+
qed simp

lemma Split_id: "c \<notin> set s \<Longrightarrow> Split s c = [s]"
  by (induction s) auto

lemma Split_append: "c \<notin> set a \<Longrightarrow> Split (a @ c # b) c = a # Split b c"
  by (induction a) auto

definition Cut :: "string \<Rightarrow> char \<Rightarrow> string \<times> string \<times> bool" where
  "Cut s c = (case IndexByte s c of
     None \<Rightarrow> (s, [], False) | Some i \<Rightarrow> (take i s, drop (Suc i) s, True))"

lemma Cut_TrueD: "Cut s c = (a, b, True) \<Longrightarrow> s = a @ c # b \<and> c \<notin> set a"
  by (auto simp: Cut_def split: option.splits dest: IndexByte_SomeD)

lemma Cut_append [simp]: "c \<notin> set a \<Longrightarrow> Cut (a @ c # b) c = (a, b, True)"
  by (simp add: Cut_def IndexByte_append)

lemma Cut_absent: "c \<notin> set s \<Longrightarrow> Cut s c = (s, [], False)"
  by (simp add: Cut_def IndexByte_None_iff [THEN iffD2])

definition TrimPrefix :: "string \<Rightarrow> string \<Rightarrow> string" where
  [go_defs]: "TrimPrefix s p = (if prefix p s then drop (length p) s else s)"

definition TrimSuffix :: "string \<Rightarrow> string \<Rightarrow> string" where
  [go_defs]: "TrimSuffix s p = (if suffix p s then take (length s - length p) s else s)"

text \<open>\<^verbatim>\<open>strings.CutSuffix\<close> on a one-byte suffix.\<close>

definition CutSuffix :: "string \<Rightarrow> char \<Rightarrow> string \<times> bool" where
  "CutSuffix s c = (if s \<noteq> [] \<and> last s = c then (butlast s, True) else (s, False))"

lemma CutSuffix_snoc [simp]: "CutSuffix (s @ [c]) c = (s, True)"
  by (simp add: CutSuffix_def)

text \<open>\<^verbatim>\<open>strings.Count\<close> of a non-empty substring (non-overlapping).\<close>

function Count :: "string \<Rightarrow> string \<Rightarrow> nat" where
  "Count s t = (if s = [] \<or> t = [] then 0
     else if prefix t s then Suc (Count (drop (length t) s) t) else Count (tl s) t)"
  by pat_completeness auto
termination by (relation "measure (\<lambda>(s, t). length s)") auto

declare Count.simps [simp del]

lemma Count_byte: "Count s [c] = count_list s c"
  by (induction s) (auto simp: Count.simps [of "_ # _"] Count.simps [of "[]"])

section \<open>Trimming\<close>

text \<open>
  The encodings of the runes \<^verbatim>\<open>unicode.IsSpace\<close> accepts: the six ASCII spaces, U+0085,
  U+00A0, U+1680, U+2000 to U+200A, U+2028, U+2029, U+202F, U+205F and U+3000.
\<close>

definition space_seqs :: "string list" where
  [go_defs]: "space_seqs =
    [[CHR 0x09], [CHR 0x0A], [CHR 0x0B], [CHR 0x0C], [CHR 0x0D], [CHR 0x20],
     [CHR 0xC2, CHR 0x85], [CHR 0xC2, CHR 0xA0], [CHR 0xE1, CHR 0x9A, CHR 0x80],
     [CHR 0xE2, CHR 0x80, CHR 0x80], [CHR 0xE2, CHR 0x80, CHR 0x81],
     [CHR 0xE2, CHR 0x80, CHR 0x82], [CHR 0xE2, CHR 0x80, CHR 0x83],
     [CHR 0xE2, CHR 0x80, CHR 0x84], [CHR 0xE2, CHR 0x80, CHR 0x85],
     [CHR 0xE2, CHR 0x80, CHR 0x86], [CHR 0xE2, CHR 0x80, CHR 0x87],
     [CHR 0xE2, CHR 0x80, CHR 0x88], [CHR 0xE2, CHR 0x80, CHR 0x89],
     [CHR 0xE2, CHR 0x80, CHR 0x8A], [CHR 0xE2, CHR 0x80, CHR 0xA8],
     [CHR 0xE2, CHR 0x80, CHR 0xA9], [CHR 0xE2, CHR 0x80, CHR 0xAF],
     [CHR 0xE2, CHR 0x81, CHR 0x9F], [CHR 0xE3, CHR 0x80, CHR 0x80]]"

definition match_seq :: "string list \<Rightarrow> string \<Rightarrow> string option" where
  "match_seq ws s = List.find (\<lambda>w. w \<noteq> [] \<and> prefix w s) ws"

function strip_seqs :: "string list \<Rightarrow> string \<Rightarrow> string" where
  "strip_seqs ws s = (case match_seq ws s of None \<Rightarrow> s
     | Some w \<Rightarrow> strip_seqs ws (drop (length w) s))"
  by pat_completeness auto
termination
proof (relation "measure (\<lambda>(ws, s). length s)", simp)
  fix ws and s :: string and w
  assume "match_seq ws s = Some w"
  then have "w \<noteq> []" "prefix w s" by (auto simp: match_seq_def dest: find_SomeD)
  then show "((ws, drop (length w) s), ws, s) \<in> measure (\<lambda>(ws, s). length s)"
    by (auto simp: prefix_def)
qed

declare strip_seqs.simps [simp del]

definition TrimSpace :: "string \<Rightarrow> string" where
  "TrimSpace s = rev (strip_seqs (map rev space_seqs) (rev (strip_seqs space_seqs s)))"

lemma strip_seqs_suffix: "suffix (strip_seqs ws s) s"
proof (induction ws s rule: strip_seqs.induct)
  case (1 ws s)
  then show ?case
    by (subst strip_seqs.simps) (auto split: option.splits intro: suffix_order.trans suffix_drop)
qed

lemma TrimSpace_sublist: "\<exists>u v. s = u @ TrimSpace s @ v"
proof -
  let ?l = "strip_seqs space_seqs s"
  obtain u where u: "s = u @ ?l" using strip_seqs_suffix by (auto simp: suffix_def)
  obtain v where "rev ?l = v @ strip_seqs (map rev space_seqs) (rev ?l)"
    using strip_seqs_suffix by (auto simp: suffix_def)
  then have "?l = TrimSpace s @ rev v" unfolding TrimSpace_def
    by (metis rev_append rev_rev_ident)
  with u show ?thesis by metis
qed

text \<open>A string that neither begins nor ends with a space is not changed.\<close>

lemma TrimSpace_id:
  assumes "match_seq space_seqs s = None" "match_seq (map rev space_seqs) (rev s) = None"
  shows "TrimSpace s = s"
proof -
  have "strip_seqs space_seqs s = s" using assms(1) by (simp add: strip_seqs.simps)
  moreover have "strip_seqs (map rev space_seqs) (rev s) = rev s"
    using assms(2) by (simp add: strip_seqs.simps)
  ultimately show ?thesis by (simp add: TrimSpace_def)
qed

text \<open>A byte that occurs in no space keeps what follows it from being trimmed.\<close>

lemma match_seq_append:
  assumes "\<forall>w\<in>set ws. c \<notin> set w"
  shows "match_seq ws (p @ c # d) = match_seq ws p"
proof -
  have "prefix w (p @ c # d) \<longleftrightarrow> prefix w p" if "c \<notin> set w" for w
    using that by (auto simp: prefix_append prefix_Cons prefix_order.refl) 
  then show ?thesis using assms unfolding match_seq_def
    by (intro find_cong) auto
qed

lemma strip_seqs_append:
  assumes "\<forall>w\<in>set ws. c \<notin> set w"
  shows "strip_seqs ws (p @ c # d) = strip_seqs ws p @ c # d"
proof (induction "length p" arbitrary: p rule: less_induct)
  case less
  show ?case
  proof (cases "match_seq ws p")
    case None
    then show ?thesis using match_seq_append [OF assms] by (simp add: strip_seqs.simps)
  next
    case (Some w)
    then have w: "w \<noteq> []" "prefix w p" by (auto simp: match_seq_def dest: find_SomeD)
    then have "length (drop (length w) p) < length p" by (auto simp: prefix_def)
    then show ?thesis using less Some w match_seq_append [OF assms, of p d]
      by (subst (1 2) strip_seqs.simps) (auto simp: prefix_def)
  qed
qed

definition space_byte :: "char \<Rightarrow> bool" where
  "space_byte c \<longleftrightarrow> c \<in> \<Union> (set ` set space_seqs)"

lemma space_byteD: "space_byte c \<Longrightarrow> byte c \<le> 32 \<or> \<not> is_ascii c"
  by (auto simp: space_byte_def go_defs)

lemma TrimSpace_anchor:
  assumes "\<not> space_byte c" "d = [] \<or> \<not> space_byte (last d)"
  shows "TrimSpace (p @ c # d) = strip_seqs space_seqs p @ c # d"
proof -
  have c: "\<forall>w\<in>set space_seqs. c \<notin> set w" using assms(1) by (auto simp: space_byte_def)
  let ?x = "last (c # d)"
  have "\<forall>w\<in>set space_seqs. ?x \<notin> set w" using assms by (auto simp: space_byte_def)
  then have "match_seq (map rev space_seqs) (?x # s) = None" for s
    unfolding match_seq_def find_None_iff by (auto simp: prefix_Cons)
  then have "strip_seqs (map rev space_seqs) (?x # s) = ?x # s" for s
    by (simp add: strip_seqs.simps)
  moreover have "rev (q @ c # d) = ?x # rev (q @ butlast (c # d))" for q
    by (metis append_butlast_last_id append_assoc list.distinct(1) rev.simps(2) rev_append rev_rev_ident append_Cons append_Nil)
  ultimately show ?thesis
    unfolding TrimSpace_def strip_seqs_append [OF c] by (metis rev_rev_ident)
qed

section \<open>Numbers (packages strconv and net)\<close>

text \<open>\<^verbatim>\<open>strconv.Itoa\<close>.\<close>

fun nat_digits :: "nat \<Rightarrow> string" where
  "nat_digits n = (if n < 10 then [char_of (48 + n)]
     else nat_digits (n div 10) @ [char_of (48 + n mod 10)])"

declare nat_digits.simps [simp del]

definition Itoa :: "int \<Rightarrow> string" where
  "Itoa i = (if i < 0 then CHR ''-'' # nat_digits (nat (- i)) else nat_digits (nat i))"

text \<open>\<^verbatim>\<open>net.JoinHostPort\<close> puts a host with colons in brackets.\<close>

definition JoinHostPort :: "string \<Rightarrow> string \<Rightarrow> string" where
  "JoinHostPort host port = (if CHR '':'' \<in> set host then ''['' @ host @ '']:'' @ port
     else host @ '':'' @ port)"

end
