(* ===== verification/Go_Path.thy ===== *)
theory Go_Path
  imports Go_Strings
begin

text \<open>
  Go's \<^verbatim>\<open>path.Match\<close>, the glob matcher behind \<^verbatim>\<open>allowedSenders\<close> and \<^verbatim>\<open>allowedRecipients\<close>,
  function by function (\<^verbatim>\<open>scanChunk\<close>, \<^verbatim>\<open>matchChunk\<close>, \<^verbatim>\<open>getEsc\<close>, \<^verbatim>\<open>Match\<close>), and two facts
  about it: a pattern that ends in a literal matches only names that end in that literal, and
  a single star followed by a literal matches exactly those.
\<close>

section \<open>The matcher\<close>

text \<open>\<^verbatim>\<open>getEsc\<close>; \<^term>\<open>None\<close> is \<^verbatim>\<open>ErrBadPattern\<close>.\<close>

definition getEsc :: "string \<Rightarrow> (nat \<times> string) option" where
  "getEsc chunk =
     (if chunk = [] \<or> hd chunk = CHR ''-'' \<or> hd chunk = CHR '']'' then None
      else let chunk = (if hd chunk = CHR 0x5C then tl chunk else chunk) in
        if chunk = [] then None
        else (case decode_rune chunk of (r, n) \<Rightarrow>
          if r = rune_error \<and> n = 1 then None
          else if drop n chunk = [] then None
          else Some (r, drop n chunk)))"

lemma getEsc_suffix: "getEsc ch = Some (r, ch') \<Longrightarrow> \<exists>u. u \<noteq> [] \<and> ch = u @ ch'"
proof -
  assume a: "getEsc ch = Some (r, ch')"
  define d where "d = (if hd ch = CHR 0x5C then tl ch else ch)"
  from a have ne: "ch \<noteq> []" "d \<noteq> []"
    by (auto simp: getEsc_def d_def Let_def split: if_splits prod.splits)
  from a ne obtain n where n: "decode_rune d = (r, n)" "ch' = drop n d"
    by (auto simp: getEsc_def d_def Let_def split: if_splits prod.splits)
  have "0 < n" using decode_rune_width_pos [of d] ne n by simp
  with n ne have u: "d = take n d @ ch'" "take n d \<noteq> []" by auto
  have "ch = (if hd ch = CHR 0x5C then [hd ch] else []) @ d"
    using ne by (cases ch) (auto simp: d_def)
  with u show ?thesis by (metis append.assoc append_is_Nil_conv)
qed

lemma getEsc_length: "getEsc ch = Some (r, ch') \<Longrightarrow> length ch' < length ch"
  by (auto dest: getEsc_suffix)

lemma getEsc_rest: "getEsc ch = Some (r, ch') \<Longrightarrow> ch' \<noteq> []"
  by (auto simp: getEsc_def Let_def split: if_splits prod.splits)

text \<open>The loop over the ranges of a character class: whether one contains \<open>r\<close>, and the rest.\<close>

function matchClass :: "nat \<Rightarrow> string \<Rightarrow> bool \<Rightarrow> bool \<Rightarrow> (bool \<times> string) option" where
  "matchClass r chunk seen matched =
     (if chunk \<noteq> [] \<and> hd chunk = CHR '']'' \<and> seen then Some (matched, tl chunk)
      else (case getEsc chunk of None \<Rightarrow> None
        | Some (lo, chunk1) \<Rightarrow>
            if hd chunk1 = CHR ''-'' then
              (case getEsc (tl chunk1) of None \<Rightarrow> None
               | Some (hi, chunk2) \<Rightarrow>
                   matchClass r chunk2 True (matched \<or> (lo \<le> r \<and> r \<le> hi)))
            else matchClass r chunk1 True (matched \<or> lo = r)))"
  by pat_completeness auto
termination
proof (relation "measure (\<lambda>(r, chunk, seen, matched). length chunk)", goal_cases)
  case (2 r chunk seen matched x lo ch1 y hi ch2)
  then have "length ch2 < length (tl ch1)" "length ch1 < length chunk"
    by (auto dest: getEsc_length)
  then show ?case by simp
qed (auto dest: getEsc_length)

declare matchClass.simps [simp del]

lemma matchClass_suffix:
  "matchClass r ch seen m = Some (m', rest) \<Longrightarrow> \<exists>u. ch = u @ CHR '']'' # rest"
proof (induction r ch seen m rule: matchClass.induct)
  case (1 r ch seen m)
  show ?case
  proof (cases "ch \<noteq> [] \<and> hd ch = CHR '']'' \<and> seen")
    case True
    with "1.prems" have "ch = [] @ CHR '']'' # rest"
      by (simp add: matchClass.simps [of r ch]) (metis list.collapse)
    then show ?thesis by blast
  next
    case False
    note F = this
    with "1.prems" obtain lo ch1 where g: "getEsc ch = Some (lo, ch1)"
      by (auto simp: matchClass.simps [of r ch] split: option.splits)
    obtain u where u: "ch = u @ ch1" using getEsc_suffix [OF g] by blast
    show ?thesis
    proof (cases "hd ch1 = CHR ''-''")
      case True
      with F g "1.prems" obtain hi ch2 where g2: "getEsc (tl ch1) = Some (hi, ch2)"
        and rec: "matchClass r ch2 True (m \<or> lo \<le> r \<and> r \<le> hi) = Some (m', rest)"
        by (auto simp: matchClass.simps [of r ch] split: option.splits)
      obtain w where w: "tl ch1 = w @ ch2" using getEsc_suffix [OF g2] by blast
      obtain v where "ch2 = v @ CHR '']'' # rest"
        using "1.IH"(1) [OF F g refl True g2 refl rec] by blast
      then have "ch1 = (hd ch1 # w @ v) @ CHR '']'' # rest"
        using w getEsc_rest [OF g] by (cases ch1) auto
      with u show ?thesis by (metis append.assoc)
    next
      case False
      with F g "1.prems" have "matchClass r ch1 True (m \<or> lo = r) = Some (m', rest)"
        by (auto simp: matchClass.simps [of r ch] split: option.splits)
      from "1.IH"(2) [OF F g refl False this] u show ?thesis by (metis append.assoc)
    qed
  qed
qed

lemma matchClass_length: "matchClass r ch seen m = Some (m', rest) \<Longrightarrow> length rest < length ch"
  by (auto dest: matchClass_suffix)

datatype chunk_result = BadPattern | NoMatch | Rest string

text \<open>
  \<^verbatim>\<open>matchChunk\<close>.  Once the match has failed the loop only checks the syntax of the rest of
  the chunk; the first argument is Go's variable \<^verbatim>\<open>failed\<close>.
\<close>

function matchChunk :: "bool \<Rightarrow> string \<Rightarrow> string \<Rightarrow> chunk_result" where
  "matchChunk failed [] s = (if failed then NoMatch else Rest s)"
| "matchChunk failed (c # chunk) s =
     (let failed = (failed \<or> s = []) in
      if c = CHR ''['' then
        (let negated = (chunk \<noteq> [] \<and> hd chunk = CHR ''^'');
             chunk' = (if negated then tl chunk else chunk);
             r = (if failed then 0 else fst (decode_rune s));
             s' = (if failed then s else drop (snd (decode_rune s)) s)
         in (case matchClass r chunk' False False of
               None \<Rightarrow> BadPattern
             | Some (m, rest) \<Rightarrow> matchChunk (failed \<or> m = negated) rest s'))
      else if c = CHR ''?'' then
        (if failed then matchChunk True chunk s
         else matchChunk (hd s = CHR ''/'') chunk (drop (snd (decode_rune s)) s))
      else if c = CHR 0x5C then
        (case chunk of
           [] \<Rightarrow> BadPattern
         | d # chunk' \<Rightarrow> if failed then matchChunk True chunk' s
                         else matchChunk (d \<noteq> hd s) chunk' (tl s))
      else if failed then matchChunk True chunk s
      else matchChunk (c \<noteq> hd s) chunk (tl s))"
  by pat_completeness auto
termination
proof (relation "measure (\<lambda>(failed, chunk, s). length chunk)", goal_cases)
  case (2 failed c chunk s f negated chunk' r s' x m rest)
  then have "length rest < length chunk'" by (auto dest: matchClass_length)
  also have "\<dots> \<le> length chunk" using 2 by auto
  finally show ?case by simp
qed auto

declare matchChunk.simps(2) [simp del]

text \<open>\<^verbatim>\<open>scanChunk\<close>: leading stars, then everything up to the next star outside a class.\<close>

fun scanLit :: "bool \<Rightarrow> string \<Rightarrow> string \<times> string" where
  "scanLit inrange [] = ([], [])"
| "scanLit inrange (c # p) =
     (if c = CHR 0x5C then
        (case p of [] \<Rightarrow> ([c], [])
         | d # p' \<Rightarrow> (c # d # fst (scanLit inrange p'), snd (scanLit inrange p')))
      else if c = CHR ''['' then (c # fst (scanLit True p), snd (scanLit True p))
      else if c = CHR '']'' then (c # fst (scanLit False p), snd (scanLit False p))
      else if c = CHR ''*'' \<and> \<not> inrange then ([], c # p)
      else (c # fst (scanLit inrange p), snd (scanLit inrange p)))"

definition scanChunk :: "string \<Rightarrow> bool \<times> string \<times> string" where
  "scanChunk p = (let q = dropWhile ((=) (CHR ''*'')) p in
     (p \<noteq> [] \<and> hd p = CHR ''*'', fst (scanLit False q), snd (scanLit False q)))"

lemma scanLit_append: "fst (scanLit i p) @ snd (scanLit i p) = p"
proof (induction i p rule: scanLit.induct)
  case (2 i c p)
  then show ?case by (cases p) auto
qed simp

lemma scanLit_rest: "snd (scanLit i p) = [] \<or> hd (snd (scanLit i p)) = CHR ''*''"
proof (induction i p rule: scanLit.induct)
  case (2 i c p)
  then show ?case by (cases p) auto
qed simp

lemma scanLit_nonempty: "q \<noteq> [] \<Longrightarrow> hd q \<noteq> CHR ''*'' \<Longrightarrow> fst (scanLit False q) \<noteq> []"
  by (cases q) (auto split: list.splits)

lemma scanChunk_rest_length: "p \<noteq> [] \<Longrightarrow> scanChunk p = (star, chunk, rest) \<Longrightarrow> length rest < length p"
proof -
  assume p: "p \<noteq> []" and sc: "scanChunk p = (star, chunk, rest)"
  let ?q = "dropWhile ((=) (CHR ''*'')) p"
  have app: "chunk @ rest = ?q" using sc scanLit_append [of False ?q] by (auto simp: scanChunk_def Let_def)
  show ?thesis
  proof (cases "hd p = CHR ''*''")
    case True
    with p have "?q = dropWhile ((=) (CHR ''*'')) (tl p)" by (cases p) auto
    then have "length ?q \<le> length (tl p)" by (metis length_dropWhile_le)
    moreover have "length rest \<le> length ?q" using app by (metis length_append le_add2)
    ultimately show ?thesis using p by (cases p) auto
  next
    case False
    with p have q: "?q = p" by (cases p) auto
    then have "chunk \<noteq> []" using sc False p scanLit_nonempty [of p] by (auto simp: scanChunk_def Let_def)
    with app q show ?thesis by (metis length_append length_greater_0_conv less_add_same_cancel2)
  qed
qed

text \<open>The loop of \<^verbatim>\<open>Match\<close> that lets a star skip bytes, but no slash.\<close>

fun matchSkip :: "bool \<Rightarrow> string \<Rightarrow> string \<Rightarrow> chunk_result" where
  "matchSkip isLast chunk [] = NoMatch"
| "matchSkip isLast chunk (c # name) =
     (if c = CHR ''/'' then NoMatch
      else (case matchChunk False chunk name of
              BadPattern \<Rightarrow> BadPattern
            | NoMatch \<Rightarrow> matchSkip isLast chunk name
            | Rest t \<Rightarrow> if isLast \<and> t \<noteq> [] then matchSkip isLast chunk name else Rest t))"

text \<open>The syntax check of what a failed match leaves of the pattern.\<close>

function restValid :: "string \<Rightarrow> bool" where
  "restValid p = (if p = [] then True
     else (case scanChunk p of (star, chunk, rest) \<Rightarrow>
       matchChunk False chunk [] \<noteq> BadPattern \<and> restValid rest))"
  by pat_completeness auto
termination
  by (relation "measure length") (auto dest: scanChunk_rest_length [OF _ sym])

declare restValid.simps [simp del]

text \<open>\<^verbatim>\<open>path.Match\<close>; \<^term>\<open>None\<close> is \<^verbatim>\<open>ErrBadPattern\<close>.\<close>

function pathMatch :: "string \<Rightarrow> string \<Rightarrow> bool option" where
  "pathMatch p name =
     (if p = [] then Some (name = [])
      else (case scanChunk p of (star, chunk, rest) \<Rightarrow>
        if star \<and> chunk = [] then Some (CHR ''/'' \<notin> set name)
        else (case matchChunk False chunk name of
            BadPattern \<Rightarrow> None
          | r \<Rightarrow>
            (case (case r of Rest t \<Rightarrow> if t = [] \<or> rest \<noteq> [] then r else NoMatch | _ \<Rightarrow> NoMatch) of
               Rest t \<Rightarrow> pathMatch rest t
             | _ \<Rightarrow>
               (case (if star then matchSkip (rest = []) chunk name else NoMatch) of
                  BadPattern \<Rightarrow> None
                | Rest t \<Rightarrow> pathMatch rest t
                | NoMatch \<Rightarrow> if restValid rest then Some False else None))))) "
  by pat_completeness auto
termination
  by (relation "measure (\<lambda>(p, name). length p)") (auto dest: scanChunk_rest_length [OF _ sym])

declare pathMatch.simps [simp del]

section \<open>Literal ends of a pattern\<close>

text \<open>Bytes that stand for themselves everywhere in a pattern.\<close>

definition literal_byte :: "char \<Rightarrow> bool" where
  "literal_byte c \<longleftrightarrow> c \<notin> {CHR ''*'', CHR ''?'', CHR ''['', CHR '']'', CHR 0x5C}"

lemma literal_not_star: "list_all literal_byte d \<Longrightarrow> CHR ''*'' \<notin> set d"
  by (auto simp: literal_byte_def list_all_iff)

lemma literal_not_close: "list_all literal_byte d \<Longrightarrow> CHR '']'' \<notin> set d"
  by (auto simp: literal_byte_def list_all_iff)

lemma matchChunk_failed: "matchChunk True chunk s \<noteq> Rest t"
proof (induction "length chunk" arbitrary: chunk s rule: less_induct)
  case less
  show ?case
  proof (cases chunk)
    case (Cons c ch)
    have IH: "matchChunk True q s' \<noteq> Rest t" if "length q \<le> length ch" for q s'
      using less Cons that by simp
    have rest: "length rest \<le> length ch"
      if "matchClass r q False False = Some (m, rest)" "length q \<le> length ch" for r q m rest
      using matchClass_length [OF that(1)] that(2) by simp
    show ?thesis
      unfolding Cons matchChunk.simps(2) Let_def
      by (cases ch) (auto simp: IH split: option.splits dest!: rest)
  qed simp
qed

lemma matchChunk_literal_Cons:
  "literal_byte c \<Longrightarrow> matchChunk f (c # ch) s =
     (if f \<or> s = [] then matchChunk True ch s else matchChunk (c \<noteq> hd s) ch (tl s))"
  by (auto simp: matchChunk.simps(2) literal_byte_def)

lemma matchChunk_literal_failed: "list_all literal_byte d \<Longrightarrow> matchChunk True d s = NoMatch"
  by (induction d arbitrary: s) (auto simp: matchChunk_literal_Cons)

lemma matchChunk_literal:
  "list_all literal_byte d \<Longrightarrow>
   matchChunk False d s = (if prefix d s then Rest (drop (length d) s) else NoMatch)"
proof (induction d arbitrary: s)
  case (Cons c d)
  show ?case
  proof (cases s)
    case (Cons e s')
    with Cons.IH [of s'] Cons.prems show ?thesis
      by (cases "c = e") (auto simp: matchChunk_literal_Cons matchChunk_literal_failed)
  qed (use Cons.prems in \<open>auto simp: matchChunk_literal_Cons matchChunk_literal_failed\<close>)
qed simp

lemma append_close_suffix:
  assumes "p @ d = u @ CHR '']'' # rest" "CHR '']'' \<notin> set d"
  shows "\<exists>p'. rest = p' @ d \<and> length p' < length p"
proof -
  from assms obtain w where "(p = u @ w \<and> w @ d = CHR '']'' # rest) \<or>
      (p @ w = u \<and> d = w @ CHR '']'' # rest)"
    by (auto simp: append_eq_append_conv2)
  with assms(2) have w: "p = u @ w" "w @ d = CHR '']'' # rest" by auto
  with assms(2) show ?thesis by (cases w) auto
qed

text \<open>A chunk that ends in a literal consumes that literal last.\<close>

lemma matchChunk_ends:
  "matchChunk False (p @ d) s = Rest t \<Longrightarrow> list_all literal_byte d \<Longrightarrow> \<exists>u. s = u @ d @ t"
proof (induction "length p" arbitrary: p s rule: less_induct)
  case less
  show ?case
  proof (cases p)
    case Nil
    with less.prems have "prefix d s" "t = drop (length d) s"
      by (auto simp: matchChunk_literal split: if_splits)
    then show ?thesis by (auto simp: prefix_def)
  next
    case (Cons c p')
    note eq = less.prems(1) [unfolded Cons append_Cons matchChunk.simps(2) Let_def]
    have ne: "s \<noteq> []"
    proof
      assume "s = []"
      with eq show False
        by (cases "p' @ d") (auto simp: matchChunk_failed split: if_splits option.splits)
    qed
    have IH: "\<exists>u. s' = u @ d @ t" if "matchChunk f (q @ d) s' = Rest t" "length q < length p" for f q s'
    proof -
      from that(1) have "\<not> f" using matchChunk_failed by (cases f) auto
      with that less show ?thesis by simp
    qed
    consider (cls) "c = CHR ''[''" | (any) "c = CHR ''?''" | (esc) "c = CHR 0x5C"
      | (lit) "c \<noteq> CHR ''['' \<and> c \<noteq> CHR ''?'' \<and> c \<noteq> CHR 0x5C" by blast
    then show ?thesis
    proof cases
      case cls
      define ch where "ch = (if p' @ d \<noteq> [] \<and> hd (p' @ d) = CHR ''^'' then tl (p' @ d) else p' @ d)"
      from eq cls ne obtain m rest neg where
        mc: "matchClass (fst (decode_rune s)) ch False False = Some (m, rest)"
        and rec: "matchChunk (m = neg) rest (drop (snd (decode_rune s)) s) = Rest t"
        by (auto simp: ch_def split: option.splits)
      obtain v where "ch = v @ CHR '']'' # rest" using matchClass_suffix [OF mc] by blast
      moreover have "p' @ d = (if p' @ d \<noteq> [] \<and> hd (p' @ d) = CHR ''^'' then [CHR ''^''] else []) @ ch"
        unfolding ch_def by (cases "p' @ d") auto
      ultimately obtain w where "p' @ d = w @ CHR '']'' # rest" by (metis append.assoc)
      then obtain q where q: "rest = q @ d" "length q < length p'"
        using append_close_suffix literal_not_close [OF less.prems(2)] by blast
      with rec Cons obtain u where "drop (snd (decode_rune s)) s = u @ d @ t" using IH by fastforce
      then show ?thesis by (metis append.assoc append_take_drop_id)
    next
      case any
      with eq ne Cons obtain u where "drop (snd (decode_rune s)) s = u @ d @ t" using IH [of _ p'] by auto
      then show ?thesis by (metis append.assoc append_take_drop_id)
    next
      case esc
      show ?thesis
      proof (cases p')
        case Nil
        with eq esc ne obtain e d' where d: "d = e # d'"
          and rec: "matchChunk (e \<noteq> hd s) d' (tl s) = Rest t"
          by (auto split: list.splits)
        from rec have "e = hd s" using matchChunk_failed by (cases "e = hd s") auto
        with rec d less.prems(2) have "prefix d' (tl s)" "t = drop (length d') (tl s)"
          by (auto simp: matchChunk_literal split: if_splits)
        with d ne \<open>e = hd s\<close> show ?thesis by (cases s) (auto simp: prefix_def)
      next
        case C2: (Cons e p'')
        with eq esc ne Cons obtain u where "tl s = u @ d @ t" using IH [of _ p''] by auto
        with ne show ?thesis by (cases s) (auto intro: exI [of _ "_ # _"])
      qed
    next
      case lit
      with eq ne Cons obtain u where "tl s = u @ d @ t" using IH [of _ p'] by auto
      with ne show ?thesis by (cases s) (auto intro: exI [of _ "_ # _"])
    qed
  qed
qed

lemma matchSkip_ends:
  "matchSkip l (p @ d) s = Rest t \<Longrightarrow> list_all literal_byte d \<Longrightarrow> \<exists>u. s = u @ d @ t"
proof (induction s)
  case (Cons c s)
  then show ?case
  proof (cases "matchChunk False (p @ d) s")
    case (Rest t')
    show ?thesis
    proof (cases "l \<and> t' \<noteq> []")
      case True
      with Rest Cons obtain u where "s = u @ d @ t" by (auto split: if_splits)
      then show ?thesis by (metis append_Cons)
    next
      case False
      with Rest Cons.prems have "t' = t" by (auto split: if_splits)
      with Rest Cons.prems(2) obtain u where "s = u @ d @ t" using matchChunk_ends by blast
      then show ?thesis by (metis append_Cons)
    qed
  next
    case NoMatch
    with Cons obtain u where "s = u @ d @ t" by (auto split: if_splits)
    then show ?thesis by (metis append_Cons)
  qed (auto split: if_splits)
qed simp

lemma dropWhile_star_append:
  "CHR ''*'' \<notin> set d \<Longrightarrow> d \<noteq> [] \<Longrightarrow>
   dropWhile ((=) (CHR ''*'')) (p @ d) = dropWhile ((=) (CHR ''*'')) p @ d"
  by (induction p) (cases d; auto)+

lemma scanChunk_ends:
  assumes sc: "scanChunk (p @ d) = (star, chunk, rest)"
    and d: "list_all literal_byte d" "d \<noteq> []"
  shows "(rest = [] \<and> (\<exists>c1. chunk = c1 @ d)) \<or> (\<exists>p'. rest = p' @ d)"
proof -
  let ?q = "dropWhile ((=) (CHR ''*'')) p"
  have app: "chunk @ rest = ?q @ d" and hd: "rest = [] \<or> hd rest = CHR ''*''"
    using sc scanLit_append [of False "?q @ d"] scanLit_rest [of False "?q @ d"] d
    by (auto simp: scanChunk_def Let_def dropWhile_star_append literal_not_star)
  show ?thesis
  proof (cases "rest = []")
    case True
    with app show ?thesis by auto
  next
    case False
    with hd obtain r' where r: "rest = CHR ''*'' # r'" by (cases rest) auto
    with app literal_not_star [OF d(1)] show ?thesis
      by (auto simp: append_eq_append_conv2 Cons_eq_append_conv)
  qed
qed

lemma scanChunk_chunk:
  assumes sc: "scanChunk p = (star, chunk, rest)" and p: "\<exists>x\<in>set p. x \<noteq> CHR ''*''"
  shows "chunk \<noteq> []"
proof -
  let ?q = "dropWhile ((=) (CHR ''*'')) p"
  have q: "?q \<noteq> []" using p by (simp add: dropWhile_eq_Nil_conv) metis
  then have "hd ?q \<noteq> CHR ''*''" using hd_dropWhile [OF q] by metis
  from scanLit_nonempty [OF q this] sc show ?thesis by (simp add: scanChunk_def Let_def)
qed

text \<open>
  A pattern that ends in a literal only matches names that end in it: the star, the question
  mark and the classes before it cannot reach past it.
\<close>

lemma pathMatch_ends:
  "pathMatch (p @ d) name = Some True \<Longrightarrow> list_all literal_byte d \<Longrightarrow> suffix d name"
proof (induction "length p" arbitrary: p name rule: less_induct)
  case less
  show ?case
  proof (cases "d = []")
    case False
    obtain star chunk rest where sc: "scanChunk (p @ d) = (star, chunk, rest)"
      by (cases "scanChunk (p @ d)") auto
    note ends = scanChunk_ends [OF sc less.prems(2) False]
    have chunk: "chunk \<noteq> []"
      using scanChunk_chunk [OF sc] False literal_not_star [OF less.prems(2)]
      by (cases d) auto
    have go: "suffix d name" if t: "pathMatch rest t = Some True"
      and m: "\<And>c1. chunk = c1 @ d \<Longrightarrow> \<exists>u. name = u @ d @ t"
      and suf: "suffix t name" for t
      using ends
    proof
      assume "rest = [] \<and> (\<exists>c1. chunk = c1 @ d)"
      with m t show ?thesis by (auto simp: pathMatch.simps suffix_def)
    next
      assume "\<exists>p'. rest = p' @ d"
      then obtain p' where p': "rest = p' @ d" by blast
      have "length rest < length (p @ d)" using scanChunk_rest_length [OF _ sc] False by simp
      with p' have "length p' < length p" by simp
      from less.hyps [OF this] t p' less.prems(2) have "suffix d t" by simp
      then show ?thesis using suf by (rule suffix_order.trans)
    qed
    have pne: "p @ d \<noteq> []" using False by simp
    note eq = less.prems(1) [unfolded pathMatch.simps [of "p @ d"] sc prod.case]
    show ?thesis
    proof (cases "\<exists>t. matchChunk False chunk name = Rest t \<and> (t = [] \<or> rest \<noteq> [])")
      case True
      then obtain t where t: "matchChunk False chunk name = Rest t" "t = [] \<or> rest \<noteq> []" by blast
      with eq pne chunk have "pathMatch rest t = Some True" by (auto split: if_splits)
      then show ?thesis
        using t(1) matchChunk_ends [of _ d name t] less.prems(2) matchChunk_ends [of chunk "[]" name t]
        by (intro go) (auto simp: suffix_def)
    next
      case False
      with eq pne chunk obtain t where t: "matchSkip (rest = []) chunk name = Rest t"
        and "pathMatch rest t = Some True"
        by (auto split: chunk_result.splits if_splits)
      then show ?thesis
        using matchSkip_ends [of _ _ d name t] less.prems(2) matchSkip_ends [of _ chunk "[]" name t]
        by (intro go) (auto simp: suffix_def)
    qed
  qed simp
qed

text \<open>One star and a literal match exactly the names that end in the literal, slash apart.\<close>

lemma scanLit_literal: "list_all literal_byte d \<Longrightarrow> scanLit i d = (d, [])"
  by (induction d arbitrary: i) (auto simp: literal_byte_def)

lemma matchSkip_literal:
  assumes "list_all literal_byte d" "d \<noteq> []"
  shows "matchSkip True d s =
    (if \<exists>u. u \<noteq> [] \<and> s = u @ d \<and> CHR ''/'' \<notin> set u then Rest [] else NoMatch)"
proof (induction s)
  case (Cons c s)
  have tail: "(\<exists>u. u \<noteq> [] \<and> c # s = u @ d \<and> CHR ''/'' \<notin> set u) \<longleftrightarrow>
      c \<noteq> CHR ''/'' \<and> (s = d \<or> (\<exists>u. u \<noteq> [] \<and> s = u @ d \<and> CHR ''/'' \<notin> set u))"
    (is "?L \<longleftrightarrow> ?R")
  proof
    assume ?L
    then obtain u where u: "u \<noteq> []" "c # s = u @ d" "CHR ''/'' \<notin> set u" by blast
    then show ?R by (cases u; cases "tl u") auto
  next
    assume r: ?R
    then have "c # s = [c] @ d \<or> (\<exists>u. c # s = (c # u) @ d \<and> CHR ''/'' \<notin> set u)" by auto
    with r show ?L by (metis append_is_Nil_conv list.set_intros list.distinct(1) set_ConsD
        empty_iff empty_set)
  qed
  have d: "matchChunk False d s = Rest [] \<longleftrightarrow> s = d"
    using matchChunk_literal [OF assms(1)] by (auto simp: prefix_def)
  show ?case
    unfolding tail using Cons d
    by (auto simp: matchChunk_literal [OF assms(1)] prefix_def split: if_splits)
qed simp

lemma pathMatch_star_literal:
  assumes d: "list_all literal_byte d" "d \<noteq> []" and name: "CHR ''/'' \<notin> set name"
  shows "pathMatch (CHR ''*'' # d) name = Some (suffix d name)"
proof -
  have hd: "dropWhile ((=) (CHR ''*'')) d = d"
    using d by (cases d) (auto simp: literal_byte_def)
  have sc: "scanChunk (CHR ''*'' # d) = (True, d, [])"
    using d by (simp add: scanChunk_def hd scanLit_literal)
  have skip: "matchSkip True d name = (if \<exists>u. u \<noteq> [] \<and> name = u @ d then Rest [] else NoMatch)"
    using matchSkip_literal [OF d, of name] name by auto
  have suf: "suffix d name \<longleftrightarrow> name = d \<or> (\<exists>u. u \<noteq> [] \<and> name = u @ d)"
    by (auto simp: suffix_def)
  show ?thesis
    unfolding pathMatch.simps [of "_ # _"] sc
    using d(2) by (auto simp: suf skip matchChunk_literal [OF d(1)] pathMatch.simps [of "[]"]
        restValid.simps [of "[]"] prefix_def)
qed

end
