(* ===== verification/Go_Encoding.thy ===== *)
theory Go_Encoding
  imports Go_Strings
begin

text \<open>
  The parts of Go's packages \<^verbatim>\<open>strconv\<close>, \<^verbatim>\<open>encoding/base64\<close> and \<^verbatim>\<open>encoding/hex\<close> that Sigillum
  calls, with their round trips.
\<close>

section \<open>Decimal numbers (package strconv)\<close>

fun parse_digits :: "nat \<Rightarrow> string \<Rightarrow> nat option" where
  "parse_digits n [] = Some n"
| "parse_digits n (c # s) = (if is_digit c then parse_digits (10 * n + (byte c - 48)) s else None)"

text \<open>\<^verbatim>\<open>ParseUint(s, 10, bits)\<close>: digits only, no sign, and an error when out of range.\<close>

definition ParseUint :: "string \<Rightarrow> nat \<Rightarrow> nat option" where
  "ParseUint s bits = (if s = [] then None else
     case parse_digits 0 s of None \<Rightarrow> None | Some n \<Rightarrow> if n < 2 ^ bits then Some n else None)"

text \<open>\<^verbatim>\<open>ParseInt(s, 10, 64)\<close> and \<^verbatim>\<open>Atoi\<close> accept one sign.\<close>

definition ParseInt64 :: "string \<Rightarrow> int option" where
  "ParseInt64 s = (case s of [] \<Rightarrow> None
     | c # r \<Rightarrow>
        let neg = (c = CHR ''-''); ds = (if c = CHR ''-'' \<or> c = CHR ''+'' then r else s) in
        if ds = [] then None else
        (case parse_digits 0 ds of None \<Rightarrow> None
         | Some n \<Rightarrow>
            if neg then (if n \<le> 2 ^ 63 then Some (- int n) else None)
            else (if n < 2 ^ 63 then Some (int n) else None)))"

lemma parse_digits_append:
  "parse_digits n (s @ t) = (case parse_digits n s of None \<Rightarrow> None | Some m \<Rightarrow> parse_digits m t)"
  by (induction s arbitrary: n) auto

lemma byte_digit: "(d :: nat) < 10 \<Longrightarrow> byte (char_of (48 + d)) = 48 + d"
  by simp

lemma is_digit_char: "(d :: nat) < 10 \<Longrightarrow> is_digit (char_of (48 + d))"
  by (simp add: is_digit_def byte_in_def)

lemma nat_digits_parse: "parse_digits 0 (nat_digits n) = Some n"
proof (induction n rule: nat_digits.induct)
  case (1 n)
  show ?case
  proof (cases "n < 10")
    case True
    then show ?thesis by (simp add: nat_digits.simps [of n] is_digit_char)
  next
    case False
    then have "parse_digits 0 (nat_digits (n div 10)) = Some (n div 10)" by (rule "1.IH")
    then show ?thesis
      using False by (simp add: nat_digits.simps [of n] parse_digits_append is_digit_char)
  qed
qed

lemma nat_digits_digits: "list_all is_digit (nat_digits n)"
proof (induction n rule: nat_digits.induct)
  case (1 n)
  show ?case
  proof (cases "n < 10")
    case True
    then show ?thesis by (simp add: nat_digits.simps [of n] is_digit_char)
  next
    case False
    then have "list_all is_digit (nat_digits (n div 10))" by (rule "1.IH")
    then show ?thesis using False by (simp add: nat_digits.simps [of n] is_digit_char)
  qed
qed

lemma nat_digits_not_Nil [simp]: "nat_digits n \<noteq> []"
  by (subst nat_digits.simps) simp

lemma ParseUint_digits: "n < 2 ^ bits \<Longrightarrow> ParseUint (nat_digits n) bits = Some n"
  by (simp add: ParseUint_def nat_digits_parse)

lemma ParseUint_bound: "ParseUint s bits = Some n \<Longrightarrow> n < 2 ^ bits"
  by (simp add: ParseUint_def split: if_splits option.splits)

section \<open>Base64\<close>

definition stdAlphabet :: string where
  "stdAlphabet = ''ABCDEFGHIJKLMNOPQRSTUVWXYZabcdefghijklmnopqrstuvwxyz0123456789+/''"

definition urlAlphabet :: string where
  "urlAlphabet = ''ABCDEFGHIJKLMNOPQRSTUVWXYZabcdefghijklmnopqrstuvwxyz0123456789-_''"

text \<open>\<open>pad\<close> is the string appended for each missing character: \<^verbatim>\<open>=\<close>, or empty in the raw forms.\<close>

fun encode64 :: "string \<Rightarrow> string \<Rightarrow> bytes \<Rightarrow> string" where
  "encode64 al pad [] = []"
| "encode64 al pad [a] = [al ! (byte a div 4), al ! (byte a mod 4 * 16)] @ pad @ pad"
| "encode64 al pad [a, b] = [al ! (byte a div 4), al ! (byte a mod 4 * 16 + byte b div 16),
     al ! (byte b mod 16 * 4)] @ pad"
| "encode64 al pad (a # b # c # s) = [al ! (byte a div 4), al ! (byte a mod 4 * 16 + byte b div 16),
     al ! (byte b mod 16 * 4 + byte c div 64), al ! (byte c mod 64)] @ encode64 al pad s"

fun quads :: "nat list \<Rightarrow> bytes option" where
  "quads [] = Some []"
| "quads [w] = None"
| "quads [w, x] = Some [char_of (w * 4 + x div 16)]"
| "quads [w, x, y] = Some [char_of (w * 4 + x div 16), char_of (x mod 16 * 16 + y div 4)]"
| "quads (w # x # y # z # s) = map_option (\<lambda>r. char_of (w * 4 + x div 16)
     # char_of (x mod 16 * 16 + y div 4) # char_of (y mod 4 * 64 + z) # r) (quads s)"

text \<open>
  \<^verbatim>\<open>DecodeString\<close> of a raw encoding: line breaks are skipped, every other byte must be in the
  alphabet, and bits left over at the end are ignored.
\<close>

fun values64 :: "string \<Rightarrow> string \<Rightarrow> nat list option" where
  "values64 al [] = Some []"
| "values64 al (c # s) = (if c = CR \<or> c = LF then values64 al s else
     (case IndexByte al c of None \<Rightarrow> None | Some v \<Rightarrow> map_option ((#) v) (values64 al s)))"

definition decodeRaw64 :: "string \<Rightarrow> string \<Rightarrow> bytes option" where
  "decodeRaw64 al s = (case values64 al s of None \<Rightarrow> None | Some vs \<Rightarrow> quads vs)"

text \<open>
  With padding: after the line breaks are skipped, a last group of two or three characters is
  completed by \<^verbatim>\<open>=\<close> and nothing may follow.
\<close>

definition decodeStd64 :: "string \<Rightarrow> string \<Rightarrow> bytes option" where
  "decodeStd64 al s =
     (let t = filter (\<lambda>c. c \<noteq> CR \<and> c \<noteq> LF) s;
          body = takeWhile (\<lambda>c. c \<noteq> CHR ''='') t; pad = dropWhile (\<lambda>c. c \<noteq> CHR ''='') t in
      if (length body mod 4 = 0 \<and> pad = []) \<or> (length body mod 4 = 2 \<and> pad = ''=='') \<or>
         (length body mod 4 = 3 \<and> pad = ''='')
      then decodeRaw64 al body else None)"

lemma IndexByte_nth: "distinct s \<Longrightarrow> i < length s \<Longrightarrow> IndexByte s (s ! i) = Some i"
proof (induction s arbitrary: i)
  case (Cons x s)
  then show ?case by (cases i) (auto simp: nth_mem)
qed simp

text \<open>An alphabet of 64 distinct characters, none of which is a line break or the pad.\<close>

definition alphabet64 :: "string \<Rightarrow> bool" where
  "alphabet64 al \<longleftrightarrow> length al = 64 \<and> distinct al \<and> CR \<notin> set al \<and> LF \<notin> set al \<and> CHR ''='' \<notin> set al"

lemma alphabet64_std: "alphabet64 stdAlphabet"
  by (simp add: alphabet64_def stdAlphabet_def)

lemma alphabet64_url: "alphabet64 urlAlphabet"
  by (simp add: alphabet64_def urlAlphabet_def)

lemma values64_nth:
  assumes "alphabet64 al" "v < 64"
  shows "values64 al (al ! v # s) = map_option ((#) v) (values64 al s)"
proof -
  have v: "v < length al" using assms by (simp add: alphabet64_def)
  then have "al ! v \<in> set al" by simp
  then have "al ! v \<noteq> CR" "al ! v \<noteq> LF" using assms(1) unfolding alphabet64_def by metis+
  moreover have "IndexByte al (al ! v) = Some v"
    using assms(1) v by (simp add: alphabet64_def IndexByte_nth)
  ultimately show ?thesis by simp
qed

lemma byte_bounds:
  "byte a div 4 < 64" "byte a mod 4 * 16 < 64" "byte a mod 4 * 16 + byte b div 16 < 64"
  "byte b mod 16 * 4 < 64" "byte b mod 16 * 4 + byte c div 64 < 64" "byte c mod 64 < 64"
proof -
  have m: "byte a mod 4 < 4" "byte b mod 16 < 16" "byte c mod 64 < 64" by simp_all
  have d: "byte a div 4 < 64" "byte b div 16 < 16" "byte c div 64 < 4"
    using byte_less_256 [of a] byte_less_256 [of b] byte_less_256 [of c]
    by (simp_all add: div_less_iff_less_mult)
  show "byte a div 4 < 64" "byte a mod 4 * 16 < 64" "byte a mod 4 * 16 + byte b div 16 < 64"
    "byte b mod 16 * 4 < 64" "byte b mod 16 * 4 + byte c div 64 < 64" "byte c mod 64 < 64"
    using m d by linarith+
qed

lemma byte_div:
  "byte b div 16 div 16 = 0" "byte b div 16 mod 16 = byte b div 16"
  "byte c div 64 div 4 = 0" "byte c div 64 mod 4 = byte c div 64"
  using byte_less_256 [of b] byte_less_256 [of c]
  by (simp_all add: div_mult2_eq [symmetric] div_less_iff_less_mult)

lemma decode_encode_raw64:
  assumes "alphabet64 al"
  shows "decodeRaw64 al (encode64 al [] b) = Some b"
  using assms
proof (induction al "[] :: string" b rule: encode64.induct)
  case (4 al a b c s)
  then show ?case
    by (auto simp: decodeRaw64_def values64_nth byte_bounds byte_div simp del: values64.simps(2)
        split: option.splits)
qed (simp_all add: decodeRaw64_def values64_nth byte_bounds byte_div del: values64.simps(2))

lemma length_encode_raw64: "length (encode64 al [] b) = (4 * length b + 2) div 3"
  by (induction al "[] :: string" b rule: encode64.induct) auto

section \<open>Hexadecimal\<close>

definition hexDigits :: string where "hexDigits = ''0123456789abcdef''"

definition hexEncode :: "bytes \<Rightarrow> string" where
  "hexEncode b = concat (map (\<lambda>c. [hexDigits ! (byte c div 16), hexDigits ! (byte c mod 16)]) b)"

definition hexValue :: "char \<Rightarrow> nat option" where
  "hexValue c = (if is_digit c then Some (byte c - 48)
     else if byte_in 97 102 c then Some (byte c - 87)
     else if byte_in 65 70 c then Some (byte c - 55) else None)"

fun hexDecode :: "string \<Rightarrow> bytes option" where
  "hexDecode [] = Some []"
| "hexDecode [c] = None"
| "hexDecode (c # d # s) = (case (hexValue c, hexValue d) of
     (Some x, Some y) \<Rightarrow> map_option ((#) (char_of (16 * x + y))) (hexDecode s) | _ \<Rightarrow> None)"

lemma hexValue_digit: "n < 16 \<Longrightarrow> hexValue (hexDigits ! n) = Some n"
proof -
  assume "n < 16"
  then have "n \<in> {0,1,2,3,4,5,6,7,8,9,10,11,12,13,14,15}"
    by (simp add: eval_nat_numeral less_Suc_eq)
  then show ?thesis by (elim insertE) (simp_all add: hexValue_def hexDigits_def go_defs)
qed

lemma hexDecode_Encode: "hexDecode (hexEncode b) = Some b"
proof (induction b)
  case (Cons c b)
  have "byte c div 16 < 16" using byte_less_256 [of c] by (simp add: div_less_iff_less_mult)
  with Cons show ?case by (simp add: hexEncode_def hexValue_digit)
qed (simp add: hexEncode_def)

end
