(* ===== verification/Api_Types.thy ===== *)
theory Api_Types
  imports Go_Strings
begin

text \<open>
  The custom resources of \<^verbatim>\<open>api/v1alpha1\<close> as records, one per Go struct, with the fields in
  the order of the source.  A pointer field is an \<^verbatim>\<open>option\<close>; the string enumerations keep
  their Go type, a string, because the code compares and switches on them and has to cope
  with values outside the enumeration.  Of \<^verbatim>\<open>metav1.ObjectMeta\<close>, \<^verbatim>\<open>metav1.Condition\<close> and
  \<^verbatim>\<open>metav1.LabelSelectorRequirement\<close> the fields the program reads or writes are modelled.
\<close>

section \<open>Metadata\<close>

record ObjectMeta =
  om_Name :: string
  om_Namespace :: string
  om_UID :: string
  om_Generation :: int
  om_Labels :: labels
  om_Annotations :: labels
  om_DeletionTimestamp :: "time option"

record Condition =
  cond_Type :: string
  cond_Status :: string
  cond_ObservedGeneration :: int
  cond_LastTransitionTime :: time
  cond_Reason :: string
  cond_Message :: string

record LabelSelectorRequirement =
  lsr_Key :: string
  lsr_Operator :: string
  lsr_Values :: "string list"

section \<open>MailPolicy\<close>

type_synonym BackendKind = string

abbreviation KindMailBackend :: BackendKind where "KindMailBackend \<equiv> ''MailBackend''"
abbreviation KindClusterMailBackend :: BackendKind where
  "KindClusterMailBackend \<equiv> ''ClusterMailBackend''"

record BackendRef =
  br_Name :: string
  br_Kind :: BackendKind

record ServiceAccountSubject =
  sas_Name :: string
  sas_Namespace :: string

record LabelSelectorSubject =
  ls_MatchLabels :: labels
  ls_MatchExpressions :: "LabelSelectorRequirement list"

record PolicySubject =
  ps_ServiceAccount :: "ServiceAccountSubject option"
  ps_ServiceAccountSelector :: "LabelSelectorSubject option"
  ps_PodSelector :: "LabelSelectorSubject option"

record SenderRestrictions =
  sr_AllowedSenders :: "string list"

record RecipientRestrictions =
  rr_AllowedDomains :: "string list"
  rr_AllowedRecipients :: "string list"
  rr_BlockedDomains :: "string list"

record RateLimitsSpec =
  rl_MessagesPerMinute :: int
  rl_MessagesPerHour :: int
  rl_MessagesPerDay :: int

record MessageLimitsSpec =
  ml_MaxSizeBytes :: int
  ml_MaxRecipients :: int

record LegacyAuthSpec =
  la_PodIPFallback :: bool

record MailPolicySpec =
  ps_Priority :: int
  ps_Subjects :: "PolicySubject list"
  ps_BackendRef :: BackendRef
  ps_SenderRestrictions :: "SenderRestrictions option"
  ps_RecipientRestrictions :: "RecipientRestrictions option"
  ps_RateLimits :: "RateLimitsSpec option"
  ps_MessageLimits :: "MessageLimitsSpec option"
  ps_LegacyAuth :: "LegacyAuthSpec option"

record MailPolicyStatus =
  pst_Conditions :: "Condition list"
  pst_MatchedSubjects :: int
  pst_ObservedGeneration :: int

record MailPolicy =
  mp_Meta :: ObjectMeta
  mp_Spec :: MailPolicySpec
  mp_Status :: MailPolicyStatus

abbreviation mp_Name :: "MailPolicy \<Rightarrow> string" where "mp_Name p \<equiv> om_Name (mp_Meta p)"
abbreviation mp_Namespace :: "MailPolicy \<Rightarrow> string" where
  "mp_Namespace p \<equiv> om_Namespace (mp_Meta p)"
abbreviation mp_UID :: "MailPolicy \<Rightarrow> string" where "mp_UID p \<equiv> om_UID (mp_Meta p)"

section \<open>MailBackend and ClusterMailBackend\<close>

type_synonym BackendType = string

abbreviation BackendSMTP :: BackendType where "BackendSMTP \<equiv> ''smtp''"
abbreviation BackendMicrosoftGraph :: BackendType where
  "BackendMicrosoftGraph \<equiv> ''microsoftGraph''"
abbreviation BackendSendGrid :: BackendType where "BackendSendGrid \<equiv> ''sendgrid''"
abbreviation BackendGmail :: BackendType where "BackendGmail \<equiv> ''gmail''"

type_synonym Capability = string

abbreviation CapabilitySend :: Capability where "CapabilitySend \<equiv> ''send''"

type_synonym SMTPTLSMode = string

abbreviation SMTPTLSNone :: SMTPTLSMode where "SMTPTLSNone \<equiv> ''none''"
abbreviation SMTPTLSStartTLS :: SMTPTLSMode where "SMTPTLSStartTLS \<equiv> ''starttls''"
abbreviation SMTPTLSImplicit :: SMTPTLSMode where "SMTPTLSImplicit \<equiv> ''tls''"

type_synonym SMTPAuthType = string

abbreviation SMTPAuthNone :: SMTPAuthType where "SMTPAuthNone \<equiv> ''NONE''"
abbreviation SMTPAuthPlain :: SMTPAuthType where "SMTPAuthPlain \<equiv> ''PLAIN''"
abbreviation SMTPAuthLogin :: SMTPAuthType where "SMTPAuthLogin \<equiv> ''LOGIN''"
abbreviation SMTPAuthCRAMMD5 :: SMTPAuthType where "SMTPAuthCRAMMD5 \<equiv> ''CRAM-MD5''"

record SMTPEndpoint =
  ep_Host :: string
  ep_Port :: int
  ep_TLS :: SMTPTLSMode
  ep_InsecureSkipVerify :: bool

record SecretReference =
  sref_Name :: string
  sref_Namespace :: string

record CASecretReference =
  ca_Name :: string
  ca_Namespace :: string
  ca_Key :: string

record SMTPBackendSpec =
  smtp_Endpoints :: "SMTPEndpoint list"
  smtp_AuthType :: SMTPAuthType
  smtp_CredentialsRef :: "SecretReference option"
  smtp_ConnectionTimeoutSeconds :: int
  smtp_HeloDomain :: string
  smtp_CASecretRef :: "CASecretReference option"

record MicrosoftGraphBackendSpec =
  mg_TenantID :: string
  mg_ClientID :: string
  mg_CredentialsRef :: SecretReference

record HealthCheckSpec =
  hc_Enabled :: bool
  hc_IntervalSeconds :: int

record EndpointStatus =
  es_Host :: string
  es_Port :: int
  es_Ready :: bool
  es_Message :: string

text \<open>A nil \<^verbatim>\<open>AllowedSenders\<close> (no restriction) differs from an empty one (deny every sender).\<close>

record BackendSpec =
  bs_Type :: BackendType
  bs_SMTP :: "SMTPBackendSpec option"
  bs_MicrosoftGraph :: "MicrosoftGraphBackendSpec option"
  bs_HealthCheck :: "HealthCheckSpec option"
  bs_AllowedSenders :: "string list option"

record BackendStatus =
  bst_Capabilities :: "Capability list"
  bst_EndpointStatus :: "EndpointStatus list"
  bst_Conditions :: "Condition list"
  bst_LastProbeTime :: "time option"
  bst_ObservedGeneration :: int

record MailBackend =
  mb_Meta :: ObjectMeta
  mb_Spec :: BackendSpec
  mb_Status :: BackendStatus

record ClusterMailBackend =
  cmb_Meta :: ObjectMeta
  cmb_Spec :: BackendSpec
  cmb_Status :: BackendStatus

section \<open>MailCredential\<close>

abbreviation CredentialLabel :: string where "CredentialLabel \<equiv> ''sigillum.dev/credential''"
abbreviation CredentialUIDAnnotation :: string where
  "CredentialUIDAnnotation \<equiv> ''sigillum.dev/credential-uid''"
abbreviation RotateAnnotation :: string where "RotateAnnotation \<equiv> ''sigillum.dev/rotate''"

record CredentialRotation =
  cr_Interval :: string
  cr_GracePeriod :: string

record MailCredentialSpec =
  mcs_ServiceAccountName :: string
  mcs_SecretName :: string
  mcs_Rotation :: "CredentialRotation option"
  mcs_PasswordHash :: string

record CredentialHash =
  ch_Hash :: string
  ch_CreatedAt :: time

record PreviousCredentialHash =
  pch_Hash :: string
  pch_ValidUntil :: time

record MailCredentialStatus =
  mst_Username :: string
  mst_SecretName :: string
  mst_ServiceAccountName :: string
  mst_Current :: "CredentialHash option"
  mst_Previous :: "PreviousCredentialHash option"
  mst_LastRotateRequest :: string
  mst_Conditions :: "Condition list"
  mst_ObservedGeneration :: int

record MailCredential =
  mc_Meta :: ObjectMeta
  mc_Spec :: MailCredentialSpec
  mc_Status :: MailCredentialStatus

abbreviation mc_Name :: "MailCredential \<Rightarrow> string" where "mc_Name c \<equiv> om_Name (mc_Meta c)"
abbreviation mc_Namespace :: "MailCredential \<Rightarrow> string" where
  "mc_Namespace c \<equiv> om_Namespace (mc_Meta c)"

definition Generated :: "MailCredential \<Rightarrow> bool" where
  "Generated c \<longleftrightarrow> mcs_PasswordHash (mc_Spec c) = ''''"

end
