(* ===== verification/Policy_Address.thy ===== *)
theory Policy_Address
  imports Go_Path
begin

text \<open>
  \<^verbatim>\<open>internal/policy/address.go\<close>: which mailbox addresses and domains Sigillum accepts at all.
  The lemmas show that an accepted address splits at one \<^verbatim>\<open>@\<close> into a dot-atom without routing
  characters and an ASCII host name, so a policy that compares the part after the last
  \<^verbatim>\<open>@\<close> compares the domain an MTA routes to.
\<close>

section \<open>Domains\<close>

datatype address_error =
    DomainLength
  | LabelLength string
  | LabelHyphen string
  | NotHostName string
  | NotPlainMailbox string
  | InAddress string address_error
  | NotDotAtom string
  | LocalPartByte string char

definition label_byte :: "char \<Rightarrow> bool" where
  "label_byte c \<longleftrightarrow> is_lower c \<or> is_upper c \<or> is_digit c \<or> c = CHR ''-''"

definition validateLabel :: "string \<Rightarrow> string \<Rightarrow> address_error option" where
  "validateLabel d label =
     (if length label = 0 \<or> length label > 63 then Some (LabelLength d)
      else if hd label = CHR ''-'' \<or> last label = CHR ''-'' then Some (LabelHyphen d)
      else if list_ex (\<lambda>c. \<not> label_byte c) label then Some (NotHostName d)
      else None)"

definition ValidateDomain :: "string \<Rightarrow> address_error option" where
  "ValidateDomain d =
     (if length d = 0 \<or> length d > 253 then Some DomainLength
      else find_map (validateLabel d) (Split d CHR ''.''))"

section \<open>Mailboxes\<close>

definition localPartByte :: "char \<Rightarrow> bool" where
  "localPartByte c \<longleftrightarrow>
     (if byte c \<ge> 0x80 then True
      else if is_lower c \<or> is_upper c \<or> is_digit c then True
      else IndexByte (''#$&'' @ CHR 0x27 # ''*+-/=?^_`{|}~.'') c \<noteq> None)"

definition ValidateMailbox :: "string \<Rightarrow> address_error option" where
  "ValidateMailbox addr =
     (case LastIndexByte addr CHR ''@'' of
        None \<Rightarrow> Some (NotPlainMailbox addr)
      | Some at \<Rightarrow>
          if at = 0 \<or> at = length addr - 1 then Some (NotPlainMailbox addr)
          else (case ValidateDomain (drop (at + 1) addr) of
            Some err \<Rightarrow> Some (InAddress addr err)
          | None \<Rightarrow>
              let local = take at addr in
              if HasPrefix local ''.'' \<or> HasSuffix local ''.'' \<or> Contains local ''..''
              then Some (NotDotAtom addr)
              else map_option (LocalPartByte addr)
                     (List.find (\<lambda>c. \<not> localPartByte c) local)))"

lemmas mailbox_eval = ValidateMailbox_def ValidateDomain_def validateLabel_def label_byte_def
  localPartByte_def Let_def suffix_to_prefix go_defs

section \<open>What is accepted\<close>

lemma validateLabel_None_iff:
  "validateLabel d l = None \<longleftrightarrow> 1 \<le> length l \<and> length l \<le> 63 \<and>
     hd l \<noteq> CHR ''-'' \<and> last l \<noteq> CHR ''-'' \<and> list_all label_byte l"
  by (auto simp: validateLabel_def list_ex_iff list_all_iff Suc_le_eq)

lemma ValidateDomain_None_iff:
  "ValidateDomain d = None \<longleftrightarrow> 1 \<le> length d \<and> length d \<le> 253 \<and>
     (\<forall>l\<in>set (Split d CHR ''.''). validateLabel d l = None)"
  by (auto simp: ValidateDomain_def find_map_None_iff Suc_le_eq)

lemma set_Split_cover: "set s \<subseteq> insert c (\<Union> (set ` set (Split s c)))"
proof (induction s)
  case (Cons x s)
  then show ?case by (cases "Split s c") auto
qed simp

text \<open>An accepted domain consists of letters, digits, hyphens and dots.\<close>

lemma ValidateDomain_bytes:
  assumes "ValidateDomain d = None" "c \<in> set d"
  shows "label_byte c \<or> c = CHR ''.''"
proof -
  obtain l where "c = CHR ''.'' \<or> l \<in> set (Split d CHR ''.'') \<and> c \<in> set l"
    using assms(2) set_Split_cover [of d "CHR ''.''"] by blast
  then show ?thesis
    using assms(1) by (auto simp: ValidateDomain_None_iff validateLabel_None_iff list_all_iff)
qed

definition host_bytes :: "string \<Rightarrow> bool" where
  "host_bytes d \<longleftrightarrow> list_all (\<lambda>c. label_byte c \<or> c = CHR ''.'') d"

lemma ValidateDomain_host: "ValidateDomain d = None \<Longrightarrow> host_bytes d"
  by (simp add: host_bytes_def list_all_iff ValidateDomain_bytes)

lemma host_bytesD: "host_bytes d \<Longrightarrow> c \<in> set d \<Longrightarrow> label_byte c \<or> c = CHR ''.''"
  by (simp add: host_bytes_def list_all_iff)

lemma label_byte_cases: "label_byte c \<or> c = CHR ''.'' \<Longrightarrow>
    is_ascii c \<and> c \<noteq> CHR ''@'' \<and> literal_byte c \<and> c \<noteq> CHR ''/'' \<and> c \<noteq> NUL"
  by (auto simp: label_byte_def literal_byte_def go_defs)

lemma ValidateDomain_ascii: "ValidateDomain d = None \<Longrightarrow> list_all is_ascii d"
  by (auto simp: list_all_iff dest!: ValidateDomain_bytes label_byte_cases)

lemma ValidateDomain_no_at: "ValidateDomain d = None \<Longrightarrow> CHR ''@'' \<notin> set d"
  by (auto dest: ValidateDomain_bytes [THEN label_byte_cases])

lemma host_bytes_ascii: "host_bytes d \<Longrightarrow> list_all is_ascii d"
  by (auto simp: list_all_iff dest!: host_bytesD label_byte_cases)

lemma host_bytes_no_at: "host_bytes d \<Longrightarrow> CHR ''@'' \<notin> set d"
  by (auto dest: host_bytesD [THEN label_byte_cases])

lemma ValidateDomain_literal: "ValidateDomain d = None \<Longrightarrow> list_all literal_byte d"
  by (auto simp: list_all_iff dest!: ValidateDomain_bytes label_byte_cases)

lemma localPartByte_not:
  "localPartByte c \<Longrightarrow> c \<noteq> CHR ''@'' \<and> c \<noteq> CHR ''%'' \<and> c \<noteq> CHR ''!'' \<and> c \<noteq> CHR 0x22 \<and>
     c \<noteq> CHR 0x5C \<and> c \<noteq> CHR '':'' \<and> c \<noteq> CHR '','' \<and> c \<noteq> CHR ''<'' \<and> c \<noteq> CHR ''>'' \<and> byte c > 32"
  unfolding localPartByte_def IndexByte_None_iff by (auto simp: go_defs split: if_splits)

definition dot_atom :: "string \<Rightarrow> bool" where
  "dot_atom l \<longleftrightarrow> l \<noteq> [] \<and> \<not> HasPrefix l ''.'' \<and> \<not> HasSuffix l ''.'' \<and> \<not> Contains l ''..'' \<and>
     list_all localPartByte l"

lemma ValidateMailbox_append:
  assumes "CHR ''@'' \<notin> set d"
  shows "ValidateMailbox (l @ CHR ''@'' # d) = None \<longleftrightarrow> dot_atom l \<and> ValidateDomain d = None"
proof -
  have "d = [] \<Longrightarrow> ValidateDomain d \<noteq> None" by (simp add: ValidateDomain_def)
  then show ?thesis using assms
    by (auto simp: ValidateMailbox_def LastIndexByte_append dot_atom_def find_None_all list_all_iff
        Let_def split: option.splits)
qed

lemma ValidateMailbox_None_iff:
  "ValidateMailbox a = None \<longleftrightarrow>
     (\<exists>l d. a = l @ CHR ''@'' # d \<and> dot_atom l \<and> ValidateDomain d = None)"
proof (cases "LastIndexByte a CHR ''@''")
  case None
  then have "ValidateMailbox a \<noteq> None" "CHR ''@'' \<notin> set a"
    by (simp_all add: ValidateMailbox_def flip: LastIndexByte_None_iff)
  then show ?thesis by auto
next
  case (Some i)
  from LastIndexByte_split [OF this] obtain l d
    where a: "a = l @ CHR ''@'' # d" "CHR ''@'' \<notin> set d" by blast
  have "ValidateMailbox a = None \<longleftrightarrow> dot_atom l \<and> ValidateDomain d = None"
    unfolding a(1) by (rule ValidateMailbox_append [OF a(2)])
  moreover have "l' = l \<and> d' = d" if "a = l' @ CHR ''@'' # d'" "ValidateDomain d' = None" for l' d'
    using split_last_unique [OF ValidateDomain_no_at [OF that(2)] a(2), of l' l] a(1) that(1) by simp
  ultimately show ?thesis using a(1) by metis
qed

text \<open>An accepted address has exactly one \<^verbatim>\<open>@\<close>.\<close>

lemma ValidateMailbox_one_at:
  assumes "ValidateMailbox a = None"
  shows "count_list a CHR ''@'' = 1"
proof -
  obtain l d where a: "a = l @ CHR ''@'' # d" "dot_atom l" "ValidateDomain d = None"
    using assms by (auto simp: ValidateMailbox_None_iff)
  then have "CHR ''@'' \<notin> set l" "CHR ''@'' \<notin> set d"
    by (auto simp: dot_atom_def list_all_iff ValidateDomain_no_at dest: localPartByte_not)
  then show ?thesis unfolding a(1) by (simp add: count_list_0_iff [THEN iffD2])
qed

lemma ValidateMailbox_no_routing:
  assumes "ValidateMailbox a = None"
  shows "list_all (\<lambda>c. c \<notin> {CHR ''%'', CHR ''!'', CHR 0x22, CHR 0x5C, CHR '' '', CR, LF, NUL}) a"
proof -
  obtain l d where a: "a = l @ CHR ''@'' # d" "dot_atom l" "ValidateDomain d = None"
    using assms by (auto simp: ValidateMailbox_None_iff)
  let ?ok = "\<lambda>c. c \<notin> {CHR ''%'', CHR ''!'', CHR 0x22, CHR 0x5C, CHR '' '', CR, LF, NUL}"
  have "?ok c" if "localPartByte c" for c
  proof -
    note n = localPartByte_not [OF that]
    then have "c \<noteq> CHR '' ''" "c \<noteq> CR" "c \<noteq> LF" "c \<noteq> NUL" by (intro notI, simp)+
    with n show ?thesis by simp
  qed
  then have l: "list_all ?ok l" using a(2) by (simp add: dot_atom_def list_all_iff)
  have "?ok c" if "label_byte c \<or> c = CHR ''.''" for c
    using that by (auto simp: label_byte_def go_defs)
  then have "list_all ?ok d" using ValidateDomain_bytes [OF a(3)] by (simp add: list_all_iff)
  then show ?thesis unfolding a(1) using l by simp
qed

section \<open>Properties\<close>

text \<open>\<^verbatim>\<open>ValidateMailbox\<close> accepts exactly the addresses \<^verbatim>\<open>local@domain\<close> whose local part is a
  dot-atom without routing characters and whose domain is an ASCII host name; such an address
  has a single \<^verbatim>\<open>@\<close>, no percent sign, bang, quote, backslash, space or control character, and
  labels of 1 to 63 letters, digits and inner hyphens.\<close>

theorem ValidateMailbox_accepts:
  "(ValidateMailbox a = None \<longleftrightarrow> (\<exists>l d. a = l @ CHR ''@'' # d \<and> dot_atom l \<and> ValidateDomain d = None)) \<and>
   (ValidateMailbox a = None \<longrightarrow> count_list a CHR ''@'' = 1 \<and>
      list_all (\<lambda>c. c \<notin> {CHR ''%'', CHR ''!'', CHR 0x22, CHR 0x5C, CHR '' '', CR, LF, NUL}) a) \<and>
   (ValidateDomain d = None \<longleftrightarrow> 1 \<le> length d \<and> length d \<le> 253 \<and>
      list_all (\<lambda>l. 1 \<le> length l \<and> length l \<le> 63 \<and> hd l \<noteq> CHR ''-'' \<and> last l \<noteq> CHR ''-'' \<and>
        list_all (\<lambda>c. is_alnum c \<or> c = CHR ''-'') l) (Split d CHR ''.''))"
proof (intro conjI impI)
  assume a: "ValidateMailbox a = None"
  then show "count_list a CHR ''@'' = 1" by (rule ValidateMailbox_one_at)
  from a show "list_all (\<lambda>c. c \<notin> {CHR ''%'', CHR ''!'', CHR 0x22, CHR 0x5C, CHR '' '', CR, LF, NUL}) a"
    by (rule ValidateMailbox_no_routing)
next
  show "ValidateDomain d = None \<longleftrightarrow> 1 \<le> length d \<and> length d \<le> 253 \<and>
      list_all (\<lambda>l. 1 \<le> length l \<and> length l \<le> 63 \<and> hd l \<noteq> CHR ''-'' \<and> last l \<noteq> CHR ''-'' \<and>
        list_all (\<lambda>c. is_alnum c \<or> c = CHR ''-'') l) (Split d CHR ''.'')"
    by (simp add: ValidateDomain_None_iff validateLabel_None_iff label_byte_def [abs_def]
        is_alnum_def list_all_iff disj_assoc)
qed (rule ValidateMailbox_None_iff)

theorem ValidateMailbox_accepts_witness:
  "ValidateMailbox ''jo.e@mx-1.ex.com'' = None \<and> count_list ''jo.e@mx-1.ex.com'' CHR ''@'' = 1"
proof -
  have "ValidateMailbox ''jo.e@mx-1.ex.com'' = None" by (simp add: mailbox_eval)
  with ValidateMailbox_accepts [of "''jo.e@mx-1.ex.com''"] show ?thesis by blast
qed

end
