(* ===== verification/Policy_Engine.thy ===== *)
theory Policy_Engine
  imports Policy_Address Api_Types
begin

text \<open>
  \<^verbatim>\<open>internal/policy/engine.go\<close>: which MailPolicy applies to a caller (\<^verbatim>\<open>Match\<close>) and whether it
  admits a message (\<^verbatim>\<open>Evaluate\<close>).  \<^verbatim>\<open>metav1.LabelSelectorAsSelector\<close> belongs to the Kubernetes
  libraries; it is the parameter \<open>asSelector\<close>, which returns the predicate of a selector or
  \<^term>\<open>None\<close> for an error.
\<close>

section \<open>Data\<close>

record Caller =
  clr_Namespace :: string
  clr_ServiceAccount :: string
  clr_SALabels :: labels
  clr_SALabelsKnown :: bool
  clr_LegacyPodIP :: bool
  clr_PodLabels :: labels

record MessageView =
  mv_From :: string
  mv_EnvelopeFrom :: string
  mv_Sender :: string
  mv_Recipients :: "string list"
  mv_ReplyTo :: "string list"
  mv_SizeBytes :: int

datatype DenyReason =
  DenyNoPolicy | DenySenderNotAllowed | DenyRecipientBlocked | DenyMessageTooLarge
| DenyTooManyRecipient

text \<open>The empty \<^verbatim>\<open>DenyReason\<close> of an allowed message is \<^term>\<open>None\<close>.\<close>

record Decision =
  dc_Allowed :: bool
  dc_Policy :: "MailPolicy option"
  dc_DenyReason :: "DenyReason option"
  dc_DenyDetail :: string

type_synonym as_selector = "LabelSelectorSubject \<Rightarrow> (labels \<Rightarrow> bool) option"

section \<open>Matching\<close>

definition NeedsSALabels :: "MailPolicy list \<Rightarrow> bool" where
  "NeedsSALabels policies \<longleftrightarrow> list_ex (\<lambda>p.
     list_ex (\<lambda>s. ps_ServiceAccountSelector s \<noteq> None) (ps_Subjects (mp_Spec p))) policies"

definition selectorMatches :: "as_selector \<Rightarrow> LabelSelectorSubject \<Rightarrow> labels \<Rightarrow> bool" where
  "selectorMatches asSelector sel have =
     (if ls_MatchLabels sel = [] \<and> ls_MatchExpressions sel = [] then False
      else (case asSelector sel of None \<Rightarrow> False | Some ls \<Rightarrow> ls have))"

definition subjectHit :: "as_selector \<Rightarrow> Caller \<Rightarrow> PolicySubject \<Rightarrow> bool" where
  "subjectHit asSelector c s \<longleftrightarrow>
     (case ps_ServiceAccount s of Some sa \<Rightarrow> sas_Name sa = clr_ServiceAccount c
                                | None \<Rightarrow> False) \<or>
     (case ps_ServiceAccountSelector s of
        Some sel \<Rightarrow> clr_SALabelsKnown c \<and> selectorMatches asSelector sel (clr_SALabels c)
      | None \<Rightarrow> False) \<or>
     (case ps_PodSelector s of
        Some sel \<Rightarrow> clr_LegacyPodIP c \<and> selectorMatches asSelector sel (clr_PodLabels c)
      | None \<Rightarrow> False)"

definition subjectMatches :: "as_selector \<Rightarrow> MailPolicy \<Rightarrow> Caller \<Rightarrow> bool" where
  "subjectMatches asSelector p c = list_ex (subjectHit asSelector c) (ps_Subjects (mp_Spec p))"

definition podIPFallback :: "MailPolicy \<Rightarrow> bool" where
  "podIPFallback p = (case ps_LegacyAuth (mp_Spec p) of None \<Rightarrow> False
                                                      | Some l \<Rightarrow> la_PodIPFallback l)"

definition matchCandidate :: "as_selector \<Rightarrow> Caller \<Rightarrow> MailPolicy \<Rightarrow> bool" where
  "matchCandidate asSelector c p =
     (if mp_Namespace p \<noteq> clr_Namespace c then False
      else if clr_LegacyPodIP c \<and> \<not> podIPFallback p then False
      else subjectMatches asSelector p c)"

text \<open>
  The sort of \<^verbatim>\<open>Match\<close> is stable and by descending priority, then ascending name.
\<close>

definition policy_key :: "MailPolicy \<Rightarrow> int \<times> string" where
  "policy_key p = (- ps_Priority (mp_Spec p), mp_Name p)"

definition Match :: "as_selector \<Rightarrow> MailPolicy list \<Rightarrow> Caller \<Rightarrow> MailPolicy option" where
  "Match asSelector policies c =
     (let candidates = filter (matchCandidate asSelector c) policies in
      if candidates = [] then None else Some (hd (sort_key policy_key candidates)))"

section \<open>Addresses against lists\<close>

definition globSlash :: "string \<Rightarrow> string" where
  "globSlash = map (\<lambda>c. if c = CHR ''/'' then NUL else c)"

definition AddressMatches :: "unicode_tables \<Rightarrow> string \<Rightarrow> string \<Rightarrow> bool" where
  "AddressMatches U addr pattern =
     (let a = ToLower U (TrimSpace addr); p = ToLower U (TrimSpace pattern) in
      if p = a then True
      else if ContainsAny p ''*?['' then
        (case pathMatch (globSlash p) (globSlash a) of Some ok \<Rightarrow> ok | None \<Rightarrow> False)
      else False)"

definition senderAllowed :: "unicode_tables \<Rightarrow> string \<Rightarrow> string list \<Rightarrow> bool" where
  "senderAllowed U from allowed = list_ex (AddressMatches U from) allowed"

definition senders :: "MessageView \<Rightarrow> string list" where
  "senders m = [mv_From m] @ (if mv_EnvelopeFrom m \<noteq> [] then [mv_EnvelopeFrom m] else [])
     @ (if mv_Sender m \<noteq> [] then [mv_Sender m] else [])"

text \<open>\<^verbatim>\<open>SendersAllowed\<close> returns the first sender address that matches no entry.\<close>

definition SendersAllowed :: "unicode_tables \<Rightarrow> MessageView \<Rightarrow> string list \<Rightarrow> string \<times> bool" where
  "SendersAllowed U m allowed =
     (case List.find (\<lambda>from. \<not> senderAllowed U from allowed) (senders m) of
        Some from \<Rightarrow> (from, False) | None \<Rightarrow> ([], True))"

definition domainOf :: "unicode_tables \<Rightarrow> string \<Rightarrow> string" where
  "domainOf U addr = (case LastIndexByte addr CHR ''@'' of None \<Rightarrow> []
     | Some at \<Rightarrow> ToLower U (drop (at + 1) addr))"

definition recipientAllowed ::
    "unicode_tables \<Rightarrow> string \<Rightarrow> RecipientRestrictions option \<Rightarrow> bool" where
  "recipientAllowed U addr restr = (case restr of None \<Rightarrow> True
     | Some r \<Rightarrow>
        let domain = domainOf U addr in
        if list_ex (\<lambda>d. EqualFold U d domain) (rr_BlockedDomains r) then False
        else if rr_AllowedDomains r = [] \<and> rr_AllowedRecipients r = [] then True
        else if list_ex (\<lambda>d. EqualFold U d domain) (rr_AllowedDomains r) then True
        else list_ex (AddressMatches U addr) (rr_AllowedRecipients r))"

section \<open>Evaluation\<close>

definition deny :: "MailPolicy option \<Rightarrow> DenyReason \<Rightarrow> string \<Rightarrow> Decision" where
  "deny p reason detail = \<lparr>dc_Allowed = False, dc_Policy = p, dc_DenyReason = Some reason,
     dc_DenyDetail = detail\<rparr>"

definition recipientRefused :: "unicode_tables \<Rightarrow> MailPolicy \<Rightarrow> string \<Rightarrow> bool" where
  "recipientRefused U p r \<longleftrightarrow> ValidateMailbox r \<noteq> None \<or>
     \<not> recipientAllowed U r (ps_RecipientRestrictions (mp_Spec p))"

definition evaluateLimits :: "MailPolicy \<Rightarrow> MessageView \<Rightarrow> Decision option" where
  "evaluateLimits p m = (case ps_MessageLimits (mp_Spec p) of None \<Rightarrow> None
     | Some l \<Rightarrow>
        if ml_MaxSizeBytes l > 0 \<and> mv_SizeBytes m > ml_MaxSizeBytes l
        then Some (deny (Some p) DenyMessageTooLarge ''message exceeds policy maxSizeBytes'')
        else if ml_MaxRecipients l > 0 \<and> int32 (int (length (mv_Recipients m))) > ml_MaxRecipients l
        then Some (deny (Some p) DenyTooManyRecipient ''message exceeds policy maxRecipients'')
        else None)"

definition evaluateSenders :: "unicode_tables \<Rightarrow> MailPolicy \<Rightarrow> MessageView \<Rightarrow> Decision option" where
  "evaluateSenders U p m = (case ps_SenderRestrictions (mp_Spec p) of None \<Rightarrow> None
     | Some s \<Rightarrow> (case SendersAllowed U m (sr_AllowedSenders s) of
          (from, ok) \<Rightarrow> if \<not> ok then Some (deny (Some p) DenySenderNotAllowed
             (''sender '' @ CHR 0x27 # from @ CHR 0x27 # '' not in allowedSenders'')) else None))"

definition evaluateAddresses ::
    "unicode_tables \<Rightarrow> MailPolicy \<Rightarrow> string \<Rightarrow> string list \<Rightarrow> Decision option" where
  "evaluateAddresses U p what rs = map_option (\<lambda>r. deny (Some p) DenyRecipientBlocked
       (what @ CHR 0x20 # CHR 0x27 # r @ CHR 0x27 # '' not allowed by policy''))
     (List.find (recipientRefused U p) rs)"

definition Evaluate :: "unicode_tables \<Rightarrow> MailPolicy option \<Rightarrow> MessageView \<Rightarrow> Decision" where
  "Evaluate U policy m = (case policy of
     None \<Rightarrow> deny None DenyNoPolicy ''no policy matched the calling subject''
   | Some p \<Rightarrow> (case evaluateLimits p m of Some d \<Rightarrow> d
     | None \<Rightarrow> (case evaluateSenders U p m of Some d \<Rightarrow> d
     | None \<Rightarrow> (case evaluateAddresses U p ''recipient'' (mv_Recipients m) of Some d \<Rightarrow> d
     | None \<Rightarrow> (case evaluateAddresses U p ''reply-to'' (mv_ReplyTo m) of Some d \<Rightarrow> d
     | None \<Rightarrow> \<lparr>dc_Allowed = True, dc_Policy = Some p, dc_DenyReason = None,
                dc_DenyDetail = []\<rparr>)))))"

section \<open>Which policy applies\<close>

lemma hd_sort_key_min: "xs \<noteq> [] \<Longrightarrow> hd (sort_key f xs) \<in> set xs \<and> (\<forall>y\<in>set xs. f (hd (sort_key f xs)) \<le> f y)"
proof -
  assume "xs \<noteq> []"
  then have ne: "sort_key f xs \<noteq> []" by (metis set_sort set_empty)
  then obtain z zs where z: "sort_key f xs = z # zs" by (cases "sort_key f xs") auto
  have "sorted (map f (z # zs))" using sorted_sort_key [of f xs] z by simp
  then have "\<forall>y\<in>set (z # zs). f z \<le> f y" by auto
  then show ?thesis using z by (metis list.sel(1) list.set_intros(1) set_sort)
qed

lemma policy_key_le:
  "policy_key p \<le> policy_key q \<longleftrightarrow> ps_Priority (mp_Spec q) < ps_Priority (mp_Spec p) \<or>
     ps_Priority (mp_Spec q) = ps_Priority (mp_Spec p) \<and> mp_Name p \<le> mp_Name q"
  by (auto simp: policy_key_def less_eq_prod_def)

lemma Match_None_iff: "Match S ps c = None \<longleftrightarrow> (\<forall>q\<in>set ps. \<not> matchCandidate S c q)"
  by (auto simp: Match_def Let_def filter_empty_conv)

lemma Match_SomeD:
  assumes "Match S ps c = Some p"
  shows "p \<in> set ps" "matchCandidate S c p"
    "\<forall>q\<in>set ps. matchCandidate S c q \<longrightarrow> policy_key p \<le> policy_key q"
  using assms hd_sort_key_min [of "filter (matchCandidate S c) ps" policy_key]
  by (auto simp: Match_def Let_def split: if_splits)

lemma matchCandidate_iff:
  "matchCandidate S c p \<longleftrightarrow> mp_Namespace p = clr_Namespace c \<and>
     (clr_LegacyPodIP c \<longrightarrow> podIPFallback p) \<and> subjectMatches S p c"
  by (auto simp: matchCandidate_def)

text \<open>Without resolved ServiceAccount labels only an explicit ServiceAccount can match.\<close>

lemma subjectMatches_explicit:
  assumes "subjectMatches S p c" "\<not> clr_SALabelsKnown c" "\<not> clr_LegacyPodIP c"
  shows "\<exists>s\<in>set (ps_Subjects (mp_Spec p)). \<exists>sa. ps_ServiceAccount s = Some sa \<and>
    sas_Name sa = clr_ServiceAccount c"
  using assms by (auto simp: subjectMatches_def subjectHit_def list_ex_iff split: option.splits)

section \<open>What an admitted message satisfies\<close>

lemma SendersAllowed_iff:
  "snd (SendersAllowed U m allowed) \<longleftrightarrow> (\<forall>s\<in>set (senders m). senderAllowed U s allowed)"
  by (auto simp: SendersAllowed_def find_None_iff find_Some_iff split: option.splits)

lemma evaluateLimits_None_iff:
  "evaluateLimits p m = None \<longleftrightarrow> (case ps_MessageLimits (mp_Spec p) of None \<Rightarrow> True
     | Some l \<Rightarrow> (0 < ml_MaxSizeBytes l \<longrightarrow> mv_SizeBytes m \<le> ml_MaxSizeBytes l) \<and>
         (0 < ml_MaxRecipients l \<longrightarrow> int32 (int (length (mv_Recipients m))) \<le> ml_MaxRecipients l))"
  by (auto simp: evaluateLimits_def split: option.splits)

lemma evaluateSenders_None_iff:
  "evaluateSenders U p m = None \<longleftrightarrow> (case ps_SenderRestrictions (mp_Spec p) of None \<Rightarrow> True
     | Some s \<Rightarrow> \<forall>a\<in>set (senders m). senderAllowed U a (sr_AllowedSenders s))"
proof (cases "ps_SenderRestrictions (mp_Spec p)")
  case (Some s)
  then show ?thesis
    using SendersAllowed_iff [of U m "sr_AllowedSenders s"]
    by (simp add: evaluateSenders_def split_beta)
qed (simp add: evaluateSenders_def)

lemma evaluateAddresses_None_iff:
  "evaluateAddresses U p what rs = None \<longleftrightarrow> (\<forall>r\<in>set rs. \<not> recipientRefused U p r)"
  by (auto simp: evaluateAddresses_def find_None_iff)

lemma Evaluate_sub_denied:
  "evaluateLimits p m = Some d \<Longrightarrow> \<not> dc_Allowed d"
  "evaluateSenders U p m = Some d \<Longrightarrow> \<not> dc_Allowed d"
  "evaluateAddresses U p what rs = Some d \<Longrightarrow> \<not> dc_Allowed d"
  by (auto simp: evaluateLimits_def evaluateSenders_def evaluateAddresses_def deny_def
      split: option.splits if_splits prod.splits)

lemma evaluate_sub_policy:
  "evaluateLimits p m = Some d \<Longrightarrow> dc_Policy d = Some p \<and> dc_DenyReason d \<noteq> None"
  "evaluateSenders U p m = Some d \<Longrightarrow> dc_Policy d = Some p \<and> dc_DenyReason d \<noteq> None"
  "evaluateAddresses U p what rs = Some d \<Longrightarrow> dc_Policy d = Some p \<and> dc_DenyReason d \<noteq> None"
  by (auto simp: evaluateLimits_def evaluateSenders_def evaluateAddresses_def deny_def
      split: option.splits if_splits prod.splits)

lemma Evaluate_policy: "dc_Policy (Evaluate U (Some p) m) = Some p"
  by (simp add: Evaluate_def evaluate_sub_policy split: option.split)

lemma Evaluate_reason:
  "dc_DenyReason (Evaluate U (Some p) m) = None \<longleftrightarrow> dc_Allowed (Evaluate U (Some p) m)"
  using evaluate_sub_policy Evaluate_sub_denied by (simp add: Evaluate_def split: option.split)

lemma Evaluate_allowed_iff:
  "dc_Allowed (Evaluate U (Some p) m) \<longleftrightarrow> evaluateLimits p m = None \<and>
     evaluateSenders U p m = None \<and>
     evaluateAddresses U p ''recipient'' (mv_Recipients m) = None \<and>
     evaluateAddresses U p ''reply-to'' (mv_ReplyTo m) = None"
  by (auto simp: Evaluate_def dest: Evaluate_sub_denied split: option.splits)

lemma domainOf_append: "CHR ''@'' \<notin> set d \<Longrightarrow> domainOf U (l @ CHR ''@'' # d) = ToLower U d"
  by (simp add: domainOf_def LastIndexByte_append)

lemma EqualFold_lower_domain:
  assumes "list_all is_ascii d" "ValidateDomain d' = None"
  shows "EqualFold U d (ToLower U d') \<longleftrightarrow> map ascii_lower d = map ascii_lower d'"
proof -
  have d': "list_all is_ascii d'" using assms(2) by (rule ValidateDomain_ascii)
  then have "list_all is_ascii (ToLower U d')" by (simp add: ToLower_ascii list_all_iff)
  then show ?thesis using EqualFold_ascii [OF assms(1)] d' by (simp add: ToLower_ascii comp_def)
qed

text \<open>
  An entry that ends in \<^verbatim>\<open>@\<close> and a host name matches no address of another domain,
  whatever wildcards stand before the \<^verbatim>\<open>@\<close>.
\<close>

lemma space_byte_domain: "host_bytes d \<Longrightarrow> c \<in> set d \<Longrightarrow> \<not> space_byte c"
  using host_bytesD [of d c] space_byteD [of c]
  by (auto simp: label_byte_def go_defs)

lemma space_byte_at: "\<not> space_byte CHR ''@''"
  by (auto simp: space_byte_def go_defs)

lemma lowered_anchor:
  assumes "host_bytes d"
  shows "ToLower U (TrimSpace (p @ CHR ''@'' # d)) =
    ToLower U (strip_seqs space_seqs p) @ CHR ''@'' # map ascii_lower d"
proof -
  have d: "list_all is_ascii d" using assms by (rule host_bytes_ascii)
  then have at: "list_all is_ascii (CHR ''@'' # d)" by (simp add: is_ascii_def)
  have "TrimSpace (p @ CHR ''@'' # d) = strip_seqs space_seqs p @ CHR ''@'' # d"
    using space_byte_domain [OF assms last_in_set] by (intro TrimSpace_anchor space_byte_at) blast
  then show ?thesis using ToLower_append_ascii [OF at] by (simp add: go_defs)
qed

lemma globSlash_anchor:
  assumes "host_bytes d"
  shows "globSlash (p @ CHR ''@'' # map ascii_lower d) = globSlash p @ CHR ''@'' # map ascii_lower d"
proof -
  have "ascii_lower c \<noteq> CHR ''/''" if "c \<in> set d" for c
  proof -
    have "c \<noteq> CHR ''/''" using label_byte_cases [OF host_bytesD [OF assms that]] by simp
    then show ?thesis
      using ascii_lower_eq_iff_not_alpha [of "CHR ''/''" c] by (simp add: go_defs)
  qed
  then show ?thesis by (simp add: globSlash_def)
qed

lemma lowered_literal:
  assumes "host_bytes d"
  shows "list_all literal_byte (map ascii_lower d)"
proof -
  have "literal_byte (ascii_lower c)" if "c \<in> set d" for c
  proof -
    note l = label_byte_cases [OF host_bytesD [OF assms that]]
    then have c: "c \<noteq> CHR ''*''" "c \<noteq> CHR ''?''" "c \<noteq> CHR ''[''" "c \<noteq> CHR 0x5C" "c \<noteq> CHR '']''"
      by (auto simp: literal_byte_def)
    have "ascii_lower c = e \<longleftrightarrow> c = e"
      if "e \<in> {CHR ''*'', CHR ''?'', CHR ''['', CHR 0x5C, CHR '']''}" for e
      using that by (intro ascii_lower_eq_iff_not_alpha) (auto simp: go_defs)
    then show ?thesis using c l by (simp add: literal_byte_def)
  qed
  then show ?thesis by (simp add: list_all_iff)
qed

lemma AddressMatches_domain:
  assumes "AddressMatches U (l @ CHR ''@'' # d) (p @ CHR ''@'' # e)"
    and d: "host_bytes d" and e: "host_bytes e"
  shows "map ascii_lower d = map ascii_lower e"
proof -
  let ?e = "CHR ''@'' # map ascii_lower e"
  let ?P = "ToLower U (strip_seqs space_seqs p)" and ?L = "ToLower U (strip_seqs space_seqs l)"
  have lower_at: "ascii_lower c = CHR ''@'' \<longleftrightarrow> c = CHR ''@''" for c
    by (rule ascii_lower_eq_iff_not_alpha) (simp_all add: go_defs)
  have at: "CHR ''@'' \<notin> set (map ascii_lower f)" if "host_bytes f" for f
    using host_bytes_no_at [OF that] lower_at by (simp add: image_iff eq_commute)
  have lit: "list_all literal_byte ?e"
    using lowered_literal [OF e] by (simp add: literal_byte_def)
  have "?P @ ?e = ?L @ CHR ''@'' # map ascii_lower d \<or>
      pathMatch (globSlash ?P @ ?e) (globSlash ?L @ CHR ''@'' # map ascii_lower d) = Some True"
    using assms(1)
    unfolding AddressMatches_def Let_def lowered_anchor [OF d] lowered_anchor [OF e]
      globSlash_anchor [OF d] globSlash_anchor [OF e]
    by (simp split: if_splits option.splits)
  then have "\<exists>x y. x @ ?e = y @ CHR ''@'' # map ascii_lower d"
  proof
    assume "pathMatch (globSlash ?P @ ?e) (globSlash ?L @ CHR ''@'' # map ascii_lower d) = Some True"
    from pathMatch_ends [OF this lit] show ?thesis
      by (auto simp only: suffix_def dest: sym)
  qed blast
  then obtain x y where "x @ ?e = y @ CHR ''@'' # map ascii_lower d" by (elim exE)
  from split_last_unique [OF at [OF e] at [OF d] this] show ?thesis by simp
qed

section \<open>Properties\<close>

text \<open>C8. \<^verbatim>\<open>Match\<close> returns a policy of the caller's own namespace that names the caller, that opted
  into pod-IP callers if the caller is one, and that no other such policy beats on priority
  or, at equal priority, on name; it returns nothing only if no policy qualifies.\<close>

theorem Match_selects:
  "case Match S ps c of
     None \<Rightarrow> \<forall>q\<in>set ps. \<not> (mp_Namespace q = clr_Namespace c \<and>
        (clr_LegacyPodIP c \<longrightarrow> podIPFallback q) \<and> subjectMatches S q c)
   | Some p \<Rightarrow> p \<in> set ps \<and> mp_Namespace p = clr_Namespace c \<and>
        (clr_LegacyPodIP c \<longrightarrow> podIPFallback p) \<and> subjectMatches S p c \<and>
        (\<forall>q\<in>set ps. mp_Namespace q = clr_Namespace c \<longrightarrow>
           (clr_LegacyPodIP c \<longrightarrow> podIPFallback q) \<longrightarrow> subjectMatches S q c \<longrightarrow>
           ps_Priority (mp_Spec q) < ps_Priority (mp_Spec p) \<or>
           ps_Priority (mp_Spec q) = ps_Priority (mp_Spec p) \<and> mp_Name p \<le> mp_Name q)"
proof (cases "Match S ps c")
  case None
  then show ?thesis using Match_None_iff [of S ps c] by (simp add: matchCandidate_iff)
next
  case (Some p)
  from Match_SomeD [OF this] show ?thesis
    by (simp add: Some matchCandidate_iff policy_key_le)
qed

definition sample_policy :: "string \<Rightarrow> int \<Rightarrow> string \<Rightarrow> MailPolicy" where
  "sample_policy name prio sa = \<lparr>
     mp_Meta = \<lparr>om_Name = name, om_Namespace = ''apps'', om_UID = ''u'' @ name, om_Generation = 1,
       om_Labels = [], om_Annotations = [], om_DeletionTimestamp = None\<rparr>,
     mp_Spec = \<lparr>ps_Priority = prio,
       ps_Subjects = [\<lparr>ps_ServiceAccount = Some \<lparr>sas_Name = sa, sas_Namespace = []\<rparr>,
         ps_ServiceAccountSelector = None, ps_PodSelector = None\<rparr>],
       ps_BackendRef = \<lparr>br_Name = ''relay'', br_Kind = KindMailBackend\<rparr>,
       ps_SenderRestrictions = Some \<lparr>sr_AllowedSenders = [''*@ex.com'']\<rparr>,
       ps_RecipientRestrictions = Some \<lparr>rr_AllowedDomains = [], rr_AllowedRecipients = [],
         rr_BlockedDomains = [''evil.com'']\<rparr>,
       ps_RateLimits = None,
       ps_MessageLimits = Some \<lparr>ml_MaxSizeBytes = 100, ml_MaxRecipients = 2\<rparr>,
       ps_LegacyAuth = None\<rparr>,
     mp_Status = \<lparr>pst_Conditions = [], pst_MatchedSubjects = 0, pst_ObservedGeneration = 1\<rparr>\<rparr>"

definition sample_caller :: Caller where
  "sample_caller = \<lparr>clr_Namespace = ''apps'', clr_ServiceAccount = ''app'', clr_SALabels = [],
     clr_SALabelsKnown = False, clr_LegacyPodIP = False, clr_PodLabels = []\<rparr>"

definition sample_view :: "string list \<Rightarrow> MessageView" where
  "sample_view rcpts = \<lparr>mv_From = ''App@ex.com'', mv_EnvelopeFrom = [], mv_Sender = [],
     mv_Recipients = rcpts, mv_ReplyTo = [], mv_SizeBytes = 50\<rparr>"

theorem Match_selects_witness:
  "Match (\<lambda>_. None) [sample_policy ''b'' 5 ''app'', sample_policy ''a'' 5 ''app'',
     sample_policy ''c'' 9 ''other''] sample_caller = Some (sample_policy ''a'' 5 ''app'') \<and>
   mp_Namespace (sample_policy ''a'' 5 ''app'') = clr_Namespace sample_caller"
proof -
  have "Match (\<lambda>_. None) [sample_policy ''b'' 5 ''app'', sample_policy ''a'' 5 ''app'',
      sample_policy ''c'' 9 ''other''] sample_caller = Some (sample_policy ''a'' 5 ''app'')"
    by (simp add: Match_def matchCandidate_def subjectMatches_def subjectHit_def sample_policy_def
        sample_caller_def policy_key_def)
  with Match_selects [where S = "\<lambda>_. None" and c = sample_caller and
      ps = "[sample_policy ''b'' 5 ''app'', sample_policy ''a'' 5 ''app'', sample_policy ''c'' 9 ''other'']"]
  show ?thesis by simp
qed

text \<open>C2. \<^verbatim>\<open>Evaluate\<close> admits a message exactly if there is a policy, the message is within its size
  and recipient limits, every sender address (From, the envelope sender, Sender) matches its
  allowed senders, and every recipient and Reply-To address is a plain mailbox that its
  recipient restrictions admit; an admitted message carries that policy and no deny reason.\<close>

theorem Evaluate_admits_iff:
  "\<not> dc_Allowed (Evaluate U None m) \<and>
   dc_Policy (Evaluate U (Some p) m) = Some p \<and>
   (dc_DenyReason (Evaluate U (Some p) m) = None \<longleftrightarrow> dc_Allowed (Evaluate U (Some p) m)) \<and>
   (dc_Allowed (Evaluate U (Some p) m) \<longleftrightarrow>
     (case ps_MessageLimits (mp_Spec p) of None \<Rightarrow> True | Some l \<Rightarrow>
        (ml_MaxSizeBytes l \<le> 0 \<or> mv_SizeBytes m \<le> ml_MaxSizeBytes l) \<and>
        (ml_MaxRecipients l \<le> 0 \<or> int32 (int (length (mv_Recipients m))) \<le> ml_MaxRecipients l)) \<and>
     (case ps_SenderRestrictions (mp_Spec p) of None \<Rightarrow> True | Some s \<Rightarrow>
        list_all (\<lambda>a. list_ex (AddressMatches U a) (sr_AllowedSenders s)) (senders m)) \<and>
     list_all (\<lambda>r. ValidateMailbox r = None \<and>
        recipientAllowed U r (ps_RecipientRestrictions (mp_Spec p)))
       (mv_Recipients m @ mv_ReplyTo m))"
proof (intro conjI)
  show "\<not> dc_Allowed (Evaluate U None m)" by (simp add: Evaluate_def deny_def)
  show "dc_Policy (Evaluate U (Some p) m) = Some p" by (rule Evaluate_policy)
  show "dc_DenyReason (Evaluate U (Some p) m) = None \<longleftrightarrow> dc_Allowed (Evaluate U (Some p) m)"
    by (rule Evaluate_reason)
qed (simp add: Evaluate_allowed_iff evaluateLimits_None_iff evaluateSenders_None_iff
    evaluateAddresses_None_iff recipientRefused_def senderAllowed_def list_all_iff ball_Un
    linorder_not_less [symmetric] disj_not1 split: option.split)

text \<open>A domain on \<^verbatim>\<open>blockedDomains\<close> is refused whatever the allow lists say and however the
  recipient spells its case: no admitted message has a recipient or Reply-To address in it.\<close>

theorem blocked_domain_refused:
  assumes "dc_Allowed (Evaluate U (Some p) m)"
    and "ps_RecipientRestrictions (mp_Spec p) = Some r"
    and "d \<in> set (rr_BlockedDomains r)" "list_all is_ascii d"
    and "a \<in> set (mv_Recipients m) \<union> set (mv_ReplyTo m)"
  shows "\<exists>l e. a = l @ CHR ''@'' # e \<and> CHR ''@'' \<notin> set l \<and> CHR ''@'' \<notin> set e \<and>
    map ascii_lower e \<noteq> map ascii_lower d"
proof -
  have a: "ValidateMailbox a = None" "recipientAllowed U a (Some r)"
    using assms
    by (auto simp: Evaluate_allowed_iff evaluateAddresses_None_iff recipientRefused_def)
  then obtain l e where l: "a = l @ CHR ''@'' # e" "dot_atom l" "ValidateDomain e = None"
    by (auto simp: ValidateMailbox_None_iff)
  have at: "CHR ''@'' \<notin> set l" "CHR ''@'' \<notin> set e"
    using l by (auto simp: dot_atom_def list_all_iff ValidateDomain_no_at dest: localPartByte_not)
  have "\<not> EqualFold U d (domainOf U a)"
    using a(2) assms(3) by (auto simp: recipientAllowed_def Let_def list_ex_iff split: if_splits)
  then have "map ascii_lower e \<noteq> map ascii_lower d"
    using EqualFold_lower_domain [OF assms(4) l(3), of U] domainOf_append [OF at(2)] l(1) by simp
  then show ?thesis using l(1) at by blast
qed

definition sample_tables :: unicode_tables where
  "sample_tables = \<lparr>lower_rune = (\<lambda>r. r), same_fold = (=)\<rparr>"

theorem blocked_domain_refused_witness:
  "dc_Allowed (Evaluate sample_tables (Some (sample_policy ''a'' 5 ''app'')) (sample_view [''x@ok.com''])) \<and>
   (\<exists>l e. ''x@ok.com'' = l @ CHR ''@'' # e \<and> CHR ''@'' \<notin> set l \<and> CHR ''@'' \<notin> set e \<and>
     map ascii_lower e \<noteq> map ascii_lower ''evil.com'')"
proof -
  let ?p = "sample_policy ''a'' 5 ''app''" and ?m = "sample_view [''x@ok.com'']"
  have "AddressMatches sample_tables ''App@ex.com'' ''*@ex.com''"
    by (simp add: AddressMatches_def TrimSpace_def strip_seqs.simps match_seq_def space_seqs_def
        ToLower_def go_defs globSlash_def pathMatch.simps scanChunk_def matchChunk.simps)
  moreover have "ValidateMailbox ''x@ok.com'' = None"
    by (simp add: mailbox_eval)
  moreover have "\<not> EqualFold sample_tables ''evil.com'' (domainOf sample_tables ''x@ok.com'')"
    by (subst EqualFold_ascii) (simp_all add: domainOf_def ToLower_def go_defs)
  ultimately have ok: "dc_Allowed (Evaluate sample_tables (Some ?p) ?m)"
    by (simp add: Evaluate_allowed_iff evaluateLimits_None_iff evaluateSenders_None_iff
        evaluateAddresses_None_iff recipientRefused_def senderAllowed_def recipientAllowed_def
        sample_policy_def sample_view_def senders_def int32_def)
  with blocked_domain_refused [OF ok, where d = "''evil.com''" and a = "''x@ok.com''"]
  show ?thesis by (simp add: sample_policy_def sample_view_def go_defs)
qed

end
