(* ===== verification/Rate_Limit.thy ===== *)
theory Rate_Limit
  imports Go_Strings
begin

text \<open>
  \<^verbatim>\<open>internal/policy/ratelimit\<close>: the limits of a policy, the contract of a limiter, the
  in-memory sliding-window limiter and the Go side of the Redis limiter.  The clock is an
  argument of the operations that read it.  The zero \<^verbatim>\<open>time.Time\<close> is instant 0.
\<close>

section \<open>Limits (ratelimit.go)\<close>

record Limits =
  PerMinute :: int
  PerHour :: int
  PerDay :: int

definition limits_None :: "Limits \<Rightarrow> bool" where
  "limits_None l \<longleftrightarrow> PerMinute l \<le> 0 \<and> PerHour l \<le> 0 \<and> PerDay l \<le> 0"

abbreviation day :: duration where "day \<equiv> 86400000000000"

record window =
  w_limit :: int
  w_size :: duration

definition windows :: "Limits \<Rightarrow> window list" where
  "windows l = [\<lparr>w_limit = PerMinute l, w_size = minute\<rparr>, \<lparr>w_limit = PerHour l, w_size = hour\<rparr>,
     \<lparr>w_limit = PerDay l, w_size = day\<rparr>]"

definition keep :: "Limits \<Rightarrow> duration" where
  "keep l = (if PerDay l > 0 then day else hour)"

definition retain :: "Limits \<Rightarrow> duration \<Rightarrow> duration" where
  "retain l left = (if left > keep l then day else keep l)"

text \<open>The results of \<^verbatim>\<open>Allow\<close>: allowed, the wait, and an error.\<close>

datatype limiter_error = ErrUnavailable string

record allow_result =
  al_allowed :: bool
  al_retryAfter :: duration
  al_err :: "limiter_error option"

definition allowed_result :: allow_result where
  "allowed_result = \<lparr>al_allowed = True, al_retryAfter = 0, al_err = None\<rparr>"

text \<open>The limiter that always allows.\<close>

definition noLimit_Allow :: "unit \<Rightarrow> time \<Rightarrow> string \<Rightarrow> Limits \<Rightarrow> unit \<times> allow_result" where
  "noLimit_Allow s now key limits = (s, allowed_result)"

definition noLimit_Refund :: "unit \<Rightarrow> string \<Rightarrow> unit \<times> limiter_error option" where
  "noLimit_Refund s key = (s, None)"

section \<open>Binary search (package sort)\<close>

function searchLoop :: "(nat \<Rightarrow> bool) \<Rightarrow> nat \<Rightarrow> nat \<Rightarrow> nat" where
  "searchLoop f i j = (if i < j then
     (let h = (i + j) div 2 in if \<not> f h then searchLoop f (h + 1) j else searchLoop f i h)
   else i)"
  by pat_completeness auto
termination by (relation "measure (\<lambda>(f, i, j). j - i)") auto

declare searchLoop.simps [simp del]

definition sort_Search :: "nat \<Rightarrow> (nat \<Rightarrow> bool) \<Rightarrow> nat" where
  "sort_Search n f = searchLoop f 0 n"

section \<open>The in-memory limiter (memory.go)\<close>

record history =
  h_hits :: "time list"
  h_expires :: time

record MemoryLimiter =
  ml_hits :: "string \<Rightarrow> history option"
  ml_swept :: time

definition emptyHistory :: history where
  "emptyHistory = \<lparr>h_hits = [], h_expires = 0\<rparr>"

definition NewMemoryLimiter :: MemoryLimiter where
  "NewMemoryLimiter = \<lparr>ml_hits = Map.empty, ml_swept = 0\<rparr>"

text \<open>The zero value of a missing map entry.\<close>

definition lookupHistory :: "MemoryLimiter \<Rightarrow> string \<Rightarrow> history" where
  "lookupHistory l key = (case ml_hits l key of Some h \<Rightarrow> h | None \<Rightarrow> emptyHistory)"

definition since :: "time list \<Rightarrow> time \<Rightarrow> nat" where
  "since hist cutoff = sort_Search (length hist) (\<lambda>i. hist ! i > cutoff)"

definition ceilToSecond :: "duration \<Rightarrow> duration" where
  "ceilToSecond d = (if d \<le> 0 then second
     else if d mod second \<noteq> 0 then d - d mod second + second else d)"

definition later :: "time \<Rightarrow> time \<Rightarrow> time" where
  "later a b = (if a > b then a else b)"

definition sweep :: "MemoryLimiter \<Rightarrow> time \<Rightarrow> MemoryLimiter" where
  "sweep l now = (if time_sub now (ml_swept l) < minute then l
     else l\<lparr>ml_swept := now,
            ml_hits := (\<lambda>k. case ml_hits l k of None \<Rightarrow> None
               | Some h \<Rightarrow> if \<not> h_expires h > now then None else Some h)\<rparr>)"

text \<open>One round of the loop over the windows: the longest wait so far.\<close>

definition windowWait :: "time list \<Rightarrow> time \<Rightarrow> duration \<Rightarrow> window \<Rightarrow> duration" where
  "windowWait hist now retry w =
     (if w_limit w \<le> 0 then retry
      else let first = since hist (now - w_size w) in
        if int (length hist) - int first < w_limit w then retry
        else max retry
          (time_sub (hist ! nat (int (length hist) - w_limit w) + w_size w) now))"

definition currentHistory :: "MemoryLimiter \<Rightarrow> time \<Rightarrow> string \<Rightarrow> history" where
  "currentHistory l now key =
     (let h = lookupHistory l key in if \<not> h_expires h > now then emptyHistory else h)"

definition trimmedHits :: "history \<Rightarrow> time \<Rightarrow> Limits \<Rightarrow> time list" where
  "trimmedHits h now limits =
     drop (since (h_hits h) (now - retain limits (time_sub (h_expires h) now))) (h_hits h)"

definition memory_Allow ::
    "MemoryLimiter \<Rightarrow> time \<Rightarrow> string \<Rightarrow> Limits \<Rightarrow> MemoryLimiter \<times> allow_result" where
  "memory_Allow l0 now key limits =
     (if limits_None limits then (l0, allowed_result)
      else
        let l = sweep l0 now;
            h = currentHistory l now key;
            hist = trimmedHits h now limits;
            retry = foldl (windowWait hist now) 0 (windows limits)
        in if retry > 0
           then (l\<lparr>ml_hits := (ml_hits l)(key \<mapsto> \<lparr>h_hits = hist, h_expires = h_expires h\<rparr>)\<rparr>,
                 \<lparr>al_allowed = False, al_retryAfter = ceilToSecond retry, al_err = None\<rparr>)
           else (l\<lparr>ml_hits := (ml_hits l)(key \<mapsto>
                   \<lparr>h_hits = hist @ [now], h_expires = later (h_expires h) (now + keep limits)\<rparr>)\<rparr>,
                 allowed_result))"

definition memory_Refund :: "MemoryLimiter \<Rightarrow> string \<Rightarrow> MemoryLimiter \<times> limiter_error option" where
  "memory_Refund l key = (let h = lookupHistory l key in
     if length (h_hits h) > 0
     then (l\<lparr>ml_hits := (ml_hits l)(key \<mapsto> \<lparr>h_hits = butlast (h_hits h), h_expires = h_expires h\<rparr>)\<rparr>,
           None)
     else (l, None))"

section \<open>The Go side of the Redis limiter (redis.go)\<close>

text \<open>
  \<open>run\<close> is the reply of the script on the Redis server: an error or a list of integers.
\<close>

definition redis_Allow ::
    "bool \<Rightarrow> ('s \<Rightarrow> string \<Rightarrow> Limits \<Rightarrow> 's \<times> (string + int list)) \<Rightarrow> string \<Rightarrow> 's \<Rightarrow> string
     \<Rightarrow> Limits \<Rightarrow> 's \<times> allow_result" where
  "redis_Allow failOpen run pre s key limits =
     (if limits_None limits then (s, allowed_result)
      else case run s (pre @ key) limits of
        (s', Inr [ok, wait]) \<Rightarrow>
          if ok = 1 then (s', allowed_result)
          else (s', \<lparr>al_allowed = False,
                     al_retryAfter = ceilToSecond (int64 (int64 wait * millisecond)), al_err = None\<rparr>)
      | (s', r) \<Rightarrow>
          if failOpen then (s', allowed_result)
          else (s', \<lparr>al_allowed = False, al_retryAfter = 0,
                     al_err = Some (ErrUnavailable (case r of Inl e \<Rightarrow> e
                        | Inr _ \<Rightarrow> ''unexpected script reply''))\<rparr>))"

definition redis_Refund ::
    "('s \<Rightarrow> string \<Rightarrow> 's \<times> limiter_error option) \<Rightarrow> string \<Rightarrow> 's \<Rightarrow> string
     \<Rightarrow> 's \<times> limiter_error option" where
  "redis_Refund zPopMax pre s key = zPopMax s (pre @ key)"

section \<open>Choice of the backend (config.go)\<close>

record Config =
  cf_Backend :: string
  cf_RedisAddrs :: string
  cf_RedisMaster :: string
  cf_RedisDB :: int
  cf_RedisTLS :: bool
  cf_RedisKeyPrefix :: string
  cf_FailOpen :: bool

text \<open>What a Redis limiter is built from; an empty key prefix becomes the default one.\<close>

record redis_setup =
  rs_Addrs :: "string list"
  rs_MasterName :: string
  rs_DB :: int
  rs_TLS :: bool
  rs_Prefix :: string
  rs_FailOpen :: bool

datatype limiter_choice = ChooseMemory | ChooseRedis redis_setup

datatype config_error = RedisAddrsRequired | UnknownBackend string

definition NewRedisLimiter :: "redis_setup \<Rightarrow> redis_setup" where
  "NewRedisLimiter opts =
     opts\<lparr>rs_Prefix := if rs_Prefix opts = [] then ''sigillum:rl:'' else rs_Prefix opts\<rparr>"

definition Build :: "Config \<Rightarrow> config_error + limiter_choice" where
  "Build c =
     (if cf_Backend c = [] \<or> cf_Backend c = ''memory'' then Inr ChooseMemory
      else if cf_Backend c = ''redis'' then
        (if cf_RedisAddrs c = [] then Inl RedisAddrsRequired
         else Inr (ChooseRedis (NewRedisLimiter \<lparr>rs_Addrs = Split (cf_RedisAddrs c) CHR '','',
           rs_MasterName = cf_RedisMaster c, rs_DB = cf_RedisDB c, rs_TLS = cf_RedisTLS c,
           rs_Prefix = cf_RedisKeyPrefix c, rs_FailOpen = cf_FailOpen c\<rparr>)))
      else Inl (UnknownBackend (cf_Backend c)))"

section \<open>Windows are suffixes of the history\<close>

lemma searchLoop_step:
  "searchLoop f i i = i"
  "i < j \<Longrightarrow> \<not> f ((i + j) div 2) \<Longrightarrow> searchLoop f i j = searchLoop f ((i + j) div 2 + 1) j"
  "i < j \<Longrightarrow> f ((i + j) div 2) \<Longrightarrow> searchLoop f i j = searchLoop f i ((i + j) div 2)"
  by (simp_all add: searchLoop.simps [of f i i] searchLoop.simps [of f i j])

lemma search_induct [consumes 1, case_names stop right left]:
  assumes "i \<le> (j :: nat)"
    and "\<And>i. P i i"
    and "\<And>i j h. i \<le> h \<Longrightarrow> h < j \<Longrightarrow> h = (i + j) div 2 \<Longrightarrow> \<not> f h \<Longrightarrow> P (h + 1) j \<Longrightarrow> P i j"
    and "\<And>i j h. i \<le> h \<Longrightarrow> h < j \<Longrightarrow> h = (i + j) div 2 \<Longrightarrow> f h \<Longrightarrow> P i h \<Longrightarrow> P i j"
  shows "P i j"
  using assms(1)
proof (induction "j - i" arbitrary: i j rule: less_induct)
  case less
  let ?h = "(i + j) div 2"
  show ?case
  proof (cases "i = j")
    case False
    then have h: "i \<le> ?h" "?h < j" using less.prems by auto
    show ?thesis
    proof (cases "f ?h")
      case True
      show ?thesis by (rule assms(4) [OF h refl True]) (rule less.hyps, use h in auto)
    next
      case False
      show ?thesis by (rule assms(3) [OF h refl False]) (rule less.hyps, use h in auto)
    qed
  qed (simp add: assms(2))
qed

lemma searchLoop_bounds: "i \<le> j \<Longrightarrow> i \<le> searchLoop f i j \<and> searchLoop f i j \<le> j"
  by (induction i j rule: search_induct [where f = f]) (auto simp: searchLoop_step)

text \<open>For a predicate that stays true once it is true, the search finds its first index.\<close>

lemma searchLoop_first:
  assumes mono: "\<And>a b. a \<le> b \<Longrightarrow> f a \<Longrightarrow> f b"
  shows "i \<le> j \<Longrightarrow> (\<forall>k < i. \<not> f k) \<Longrightarrow> (\<forall>k \<ge> j. f k) \<Longrightarrow>
    (\<forall>k < searchLoop f i j. \<not> f k) \<and> (\<forall>k \<ge> searchLoop f i j. f k)"
proof (induction i j rule: search_induct [where f = f])
  case (stop i)
  then show ?case by (simp add: searchLoop_step)
next
  case (right i j h)
  have "\<forall>k < h + 1. \<not> f k" using right(4) mono by (metis Suc_eq_plus1 less_Suc_eq_le)
  moreover have "searchLoop f i j = searchLoop f (h + 1) j"
    using searchLoop_step(2) [of i j f] right(1-4) by simp
  ultimately show ?case using right by metis
next
  case (left i j h)
  have "\<forall>k \<ge> h. f k" using left(4) mono by blast
  moreover have "searchLoop f i j = searchLoop f i h"
    using searchLoop_step(3) [of i j f] left(1-4) by simp
  ultimately show ?case using left by metis
qed

lemma since_le: "since hist c \<le> length hist"
  using searchLoop_bounds [of 0 "length hist"] by (simp add: since_def sort_Search_def)

lemma since_count:
  assumes "sorted hist"
  shows "since hist c = length (filter (\<lambda>t. t \<le> c) hist)"
proof -
  let ?f = "\<lambda>i. hist ! i > c \<or> length hist \<le> i"
  have eq: "searchLoop (\<lambda>i. hist ! i > c) i j = searchLoop ?f i j" if "j \<le> length hist" for i j
    using that
  proof (induction ?f i j rule: searchLoop.induct)
    case (1 i j)
    then show ?case
      by (subst (1 2) searchLoop.simps) (auto simp: Let_def)
  qed
  have mono: "?f a \<Longrightarrow> ?f b" if "a \<le> b" for a b
    using that sorted_nth_mono [OF assms, of a b] by fastforce
  let ?n = "since hist c"
  have n: "?n = searchLoop ?f 0 (length hist)" by (simp add: since_def sort_Search_def eq)
  have first: "(\<forall>k < ?n. \<not> ?f k) \<and> (\<forall>k \<ge> ?n. ?f k)"
    unfolding n by (rule searchLoop_first) (use mono in auto)
  have "\<forall>t \<in> set (take ?n hist). t \<le> c"
    using first by (auto simp: in_set_conv_nth not_less)
  moreover have "\<forall>t \<in> set (drop ?n hist). c < t"
  proof
    fix t assume "t \<in> set (drop ?n hist)"
    then obtain i where "t = hist ! (?n + i)" "?n + i < length hist"
      by (auto simp: in_set_conv_nth)
    then show "c < t" using first by (metis le_add1 not_le)
  qed
  ultimately have "filter (\<lambda>t. t \<le> c) (take ?n hist) = take ?n hist"
    "filter (\<lambda>t. t \<le> c) (drop ?n hist) = []"
    by (auto simp: filter_id_conv filter_empty_conv)
  then have "filter (\<lambda>t. t \<le> c) (take ?n hist @ drop ?n hist) = take ?n hist"
    by (simp only: filter_append) simp
  then show ?thesis using since_le [of hist c] by simp
qed

lemma drop_since: "sorted hist \<Longrightarrow> drop (since hist c) hist = filter (\<lambda>t. c < t) hist"
  by (simp add: since_count sorted_filter_drop)

end
