(* ===== verification/Rate_Window.thy ===== *)
theory Rate_Window
  imports Rate_Limit
begin

text \<open>
  What the limiters of \<^verbatim>\<open>internal/policy/ratelimit\<close> guarantee.  The contract every limiter
  offers the send path is the locale \<open>limiter\<close>; the no-op, in-memory and Redis limiters are
  its interpretations.  For the in-memory limiter, the lemmas relate the stored history of a
  key to the full list of hits it ever admitted: trimming, expiry and sweeping only forget
  hits that no window can still count.  A refund drops the newest hit, which need not be the
  one given back; the runs count these refunds, and a window exceeds its limit by no more than their
  number.  A caller that waits as long as it is told is admitted.
\<close>

section \<open>The contract of a limiter\<close>

locale limiter =
  fixes allow :: "'s \<Rightarrow> time \<Rightarrow> string \<Rightarrow> Limits \<Rightarrow> 's \<times> allow_result"
    and refund :: "'s \<Rightarrow> string \<Rightarrow> 's \<times> limiter_error option"
  assumes allow_uncapped: "limits_None L \<Longrightarrow> allow s now key L = (s, allowed_result)"
    and allow_retry: "al_retryAfter (snd (allow s now key L)) \<noteq> 0 \<Longrightarrow>
      \<not> al_allowed (snd (allow s now key L)) \<and> al_err (snd (allow s now key L)) = None"
    and allow_refused: "\<not> al_allowed (snd (allow s now key L)) \<Longrightarrow>
      al_err (snd (allow s now key L)) = None \<Longrightarrow> second \<le> al_retryAfter (snd (allow s now key L))"
begin

text \<open>The three outcomes the send path distinguishes exclude each other.\<close>

lemma allow_cases:
  obtains (admitted) "al_allowed (snd (allow s now key L))" "al_retryAfter (snd (allow s now key L)) = 0"
  | (limited) "\<not> al_allowed (snd (allow s now key L))" "al_err (snd (allow s now key L)) = None"
      "second \<le> al_retryAfter (snd (allow s now key L))"
  | (unavailable) e where "\<not> al_allowed (snd (allow s now key L))"
      "al_err (snd (allow s now key L)) = Some e" "al_retryAfter (snd (allow s now key L)) = 0"
  using allow_retry allow_refused by fastforce

end

lemma ceilToSecond_ge: "d \<le> ceilToSecond d"
  by (simp add: ceilToSecond_def) (smt (verit) pos_mod_bound)

lemma ceilToSecond_pos: "second \<le> ceilToSecond d"
proof (cases "0 < d")
  case True
  moreover have "d mod second \<le> d" using True by (simp add: zmod_le_nonneg_dividend)
  moreover have "d \<ge> second" if "d mod second = 0"
    using that True by (metis mod_pos_pos_trivial not_less zero_less_imp_eq_int less_le)
  ultimately show ?thesis by (auto simp: ceilToSecond_def)
qed (simp add: ceilToSecond_def)

lemma ceilToSecond_multiple: "ceilToSecond d mod second = 0"
  by (auto simp: ceilToSecond_def mod_add_eq [symmetric] minus_mod_self2 mod_diff_left_eq)

interpretation no_limit: limiter noLimit_Allow noLimit_Refund
  by unfold_locales (simp_all add: noLimit_Allow_def allowed_result_def)

interpretation memory: limiter memory_Allow memory_Refund
proof (unfold_locales, goal_cases)
  case (1 L s now key)
  then show ?case by (simp add: memory_Allow_def)
next
  case (2 s now key L)
  then show ?case by (auto simp: memory_Allow_def allowed_result_def Let_def split: if_splits)
next
  case (3 s now key L)
  then show ?case
    using ceilToSecond_pos by (auto simp: memory_Allow_def allowed_result_def Let_def split: if_splits)
qed

interpretation redis: limiter "\<lambda>s now. redis_Allow failOpen run pre s" "redis_Refund zPopMax pre"
  for failOpen run pre zPopMax
proof (unfold_locales, goal_cases)
  case (1 L s now key)
  then show ?case by (simp add: redis_Allow_def)
next
  case (2 s now key L)
  then show ?case
    by (auto simp: redis_Allow_def allowed_result_def split: if_splits prod.splits sum.splits list.splits)
next
  case (3 s now key L)
  then show ?case
    using ceilToSecond_pos
    by (auto simp: redis_Allow_def allowed_result_def split: if_splits prod.splits sum.splits list.splits)
qed

lemma nth_mem_drop: "n \<le> i \<Longrightarrow> i < length xs \<Longrightarrow> xs ! i \<in> set (drop n xs)"
  using nth_mem [of "i - n" "drop n xs"] by simp

lemma since_take: "sorted hist \<Longrightarrow> \<forall>t\<in>set (take (since hist c) hist). t \<le> c"
proof -
  assume s: "sorted hist"
  have "filter (\<lambda>t. t \<le> c) hist = filter (\<lambda>t. t \<le> c) (take (since hist c) hist) @
      filter (\<lambda>t. t \<le> c) (drop (since hist c) hist)"
    by (metis append_take_drop_id filter_append)
  also have "filter (\<lambda>t. t \<le> c) (drop (since hist c) hist) = []"
    by (auto simp: drop_since [OF s] filter_empty_conv)
  finally have "length (filter (\<lambda>t. t \<le> c) (take (since hist c) hist)) = since hist c"
    using since_count [OF s, of c] by simp
  then have "length (filter (\<lambda>t. t \<le> c) (take (since hist c) hist)) = length (take (since hist c) hist)"
    using since_le [of hist c] by simp
  then show ?thesis by (metis filter_id_conv length_filter_less less_irrefl)
qed

section \<open>What a call sees\<close>

lemma retain_ge_keep: "keep L \<le> retain L left"
  by (simp add: retain_def keep_def)

lemma keep_ge_hour: "hour \<le> keep L"
  by (simp add: keep_def)

lemma currentHistory_sweep: "currentHistory (sweep l now) now k = currentHistory l now k"
  by (auto simp: currentHistory_def sweep_def lookupHistory_def emptyHistory_def Let_def
      split: option.splits)

text \<open>The history a call at \<open>now\<close> counts in.\<close>

definition seen :: "MemoryLimiter \<Rightarrow> time \<Rightarrow> string \<Rightarrow> Limits \<Rightarrow> time list" where
  "seen l now k L = trimmedHits (currentHistory l now k) now L"

definition wait :: "MemoryLimiter \<Rightarrow> time \<Rightarrow> string \<Rightarrow> Limits \<Rightarrow> duration" where
  "wait l now k L = foldl (windowWait (seen l now k L) now) 0 (windows L)"

lemma memory_Allow_refused:
  assumes "\<not> limits_None L" "0 < wait l now k L"
  shows "snd (memory_Allow l now k L) =
      \<lparr>al_allowed = False, al_retryAfter = ceilToSecond (wait l now k L), al_err = None\<rparr>"
    and "ml_hits (fst (memory_Allow l now k L)) = (ml_hits (sweep l now))
      (k \<mapsto> \<lparr>h_hits = seen l now k L, h_expires = h_expires (currentHistory l now k)\<rparr>)"
  using assms by (simp_all add: memory_Allow_def seen_def wait_def currentHistory_sweep Let_def)

lemma memory_Allow_admitted:
  assumes "\<not> limits_None L" "wait l now k L \<le> 0"
  shows "snd (memory_Allow l now k L) = allowed_result"
    and "ml_hits (fst (memory_Allow l now k L)) = (ml_hits (sweep l now))
      (k \<mapsto> \<lparr>h_hits = seen l now k L @ [now],
            h_expires = later (h_expires (currentHistory l now k)) (now + keep L)\<rparr>)"
  using assms by (simp_all add: memory_Allow_def seen_def wait_def currentHistory_sweep Let_def)

lemma memory_Allow_allowed_iff:
  "\<not> limits_None L \<Longrightarrow> al_allowed (snd (memory_Allow l now k L)) \<longleftrightarrow> wait l now k L \<le> 0"
  using memory_Allow_refused(1) [of L l now k] memory_Allow_admitted(1) [of L l now k]
  by (cases "0 < wait l now k L") (auto simp: allowed_result_def)

section \<open>The wait\<close>

text \<open>A history that is sorted and not from the future; windows count its newest hits.\<close>

definition past :: "time \<Rightarrow> time list \<Rightarrow> bool" where
  "past now hist \<longleftrightarrow> sorted hist \<and> (\<forall>t\<in>set hist. t \<le> now)"

lemma past_mono: "past now0 G \<Longrightarrow> now0 \<le> now \<Longrightarrow> past now G"
  by (fastforce simp: past_def)

lemma past_append: "past now (G @ H) \<longleftrightarrow> past now G \<and> past now H \<and> (\<forall>g\<in>set G. \<forall>h\<in>set H. g \<le> h)"
  by (auto simp: past_def sorted_append)

definition inWindow :: "time list \<Rightarrow> time \<Rightarrow> duration \<Rightarrow> nat" where
  "inWindow hist now sz = length (filter (\<lambda>t. now - sz < t) hist)"

lemma inWindow_since:
  "sorted hist \<Longrightarrow> int (length hist) - int (since hist (now - sz)) = int (inWindow hist now sz)"
  using drop_since [of hist "now - sz"] since_le [of hist "now - sz"]
  by (metis inWindow_def length_drop of_nat_diff)

lemma full_window_hit:
  assumes "past now hist" "0 < lim" "lim \<le> int (inWindow hist now sz)"
  defines "i \<equiv> nat (int (length hist) - lim)"
  shows "i < length hist" "now - sz < hist ! i" "hist ! i \<le> now"
    and "length (filter (\<lambda>t. hist ! i < t) hist) < nat lim"
proof -
  let ?n = "inWindow hist now sz"
  have s: "sorted hist" using assms by (simp add: past_def)
  have le: "?n \<le> length hist" by (simp add: inWindow_def)
  then show i: "i < length hist" using assms(2,3) unfolding i_def by linarith
  have "length hist - ?n \<le> i" using assms(2,3) le unfolding i_def by linarith
  moreover have "since hist (now - sz) = length hist - ?n"
    using inWindow_since [OF s, of now sz] le by linarith
  ultimately have "hist ! i \<in> set (drop (since hist (now - sz)) hist)"
    using i by (intro nth_mem_drop) auto
  then show "now - sz < hist ! i" using drop_since [OF s] by simp
  show "hist ! i \<le> now" using i assms(1) by (simp add: past_def)
  have "filter (\<lambda>t. hist ! i < t) hist = drop (since hist (hist ! i)) hist" using drop_since [OF s] by simp
  moreover have "i < since hist (hist ! i)"
  proof (rule ccontr)
    assume "\<not> i < since hist (hist ! i)"
    then have "hist ! i \<in> set (drop (since hist (hist ! i)) hist)"
      using i by (intro nth_mem_drop) auto
    then show False using drop_since [OF s] by simp
  qed
  ultimately show "length (filter (\<lambda>t. hist ! i < t) hist) < nat lim"
    using i assms(2) unfolding i_def by (simp add: nat_less_iff)
qed

text \<open>The contribution of one window to the wait.\<close>

definition windowNeed :: "time list \<Rightarrow> time \<Rightarrow> window \<Rightarrow> duration" where
  "windowNeed hist now w = (if w_limit w \<le> 0 \<or> int (inWindow hist now (w_size w)) < w_limit w then 0
     else hist ! nat (int (length hist) - w_limit w) + w_size w - now)"

lemma windowNeed_full:
  assumes "past now hist" "0 < w_limit w" "w_limit w \<le> int (inWindow hist now (w_size w))"
  shows "0 < windowNeed hist now w" "windowNeed hist now w \<le> w_size w"
  using full_window_hit(2,3) [OF assms] assms(2,3) by (simp_all add: windowNeed_def)

lemma windowWait_max:
  assumes "past now hist" "w_size w \<le> day" "0 \<le> r"
  shows "windowWait hist now r w = max r (windowNeed hist now w)"
proof (cases "0 < w_limit w \<and> w_limit w \<le> int (inWindow hist now (w_size w))")
  case True
  let ?d = "hist ! nat (int (length hist) - w_limit w) + w_size w"
  have "0 < ?d - now" "?d - now \<le> day"
    using windowNeed_full [OF assms(1), of w] True assms(2) by (auto simp: windowNeed_def)
  then have "time_sub ?d now = ?d - now" by (simp add: time_sub_def)
  then show ?thesis
    using True assms(1) by (simp add: windowWait_def windowNeed_def inWindow_since past_def)
next
  case False
  then show ?thesis
    using assms by (auto simp: windowWait_def windowNeed_def inWindow_since past_def)
qed

lemma wait_max:
  assumes "past now (seen l now k L)"
  shows "wait l now k L = Max (insert 0 (windowNeed (seen l now k L) now ` set (windows L)))"
  using assms
  by (simp add: wait_def windows_def windowWait_max insert_commute max.assoc max.commute
      max.left_commute)

lemma wait_ge: "past now (seen l now k L) \<Longrightarrow> w \<in> set (windows L) \<Longrightarrow>
    windowNeed (seen l now k L) now w \<le> wait l now k L"
  by (simp add: wait_max)

lemma wait_zero_iff:
  assumes "past now (seen l now k L)"
  shows "wait l now k L \<le> 0 \<longleftrightarrow> (\<forall>w\<in>set (windows L). 0 < w_limit w \<longrightarrow>
    int (inWindow (seen l now k L) now (w_size w)) < w_limit w)"
proof -
  have "wait l now k L \<le> 0 \<longleftrightarrow> (\<forall>w\<in>set (windows L). windowNeed (seen l now k L) now w \<le> 0)"
    by (auto simp: wait_max [OF assms])
  moreover have "windowNeed (seen l now k L) now w \<le> 0 \<longleftrightarrow>
      (0 < w_limit w \<longrightarrow> int (inWindow (seen l now k L) now (w_size w)) < w_limit w)" for w
    using windowNeed_full(1) [OF assms, of w] by (auto simp: windowNeed_def not_less)
  ultimately show ?thesis by simp
qed

section \<open>Nothing countable is forgotten\<close>

text \<open>
  \<open>covers s l G now k\<close>: of all hits \<open>G\<close> admitted for \<open>k\<close>, the limiter at \<open>now\<close> still stores
  every one that a window of size at most \<open>s\<close> can count.
\<close>

definition covers :: "duration \<Rightarrow> MemoryLimiter \<Rightarrow> time list \<Rightarrow> time \<Rightarrow> string \<Rightarrow> bool" where
  "covers s l G now k \<longleftrightarrow> past now G \<and>
     (\<exists>pre. G = pre @ h_hits (lookupHistory l k) \<and> (\<forall>g\<in>set pre. g + s \<le> now)) \<and>
     (\<forall>g\<in>set G. g + s \<le> max (h_expires (lookupHistory l k)) now)"

lemma coversI:
  assumes "past now G" "lookupHistory l k = h" "G = pre @ h_hits h" "\<forall>g\<in>set pre. g + s \<le> now"
    and "\<forall>g\<in>set G. g + s \<le> max (h_expires h) now"
  shows "covers s l G now k"
  using assms by (auto simp: covers_def)

lemma covers_new: "covers s NewMemoryLimiter [] now k"
  by (simp add: covers_def past_def NewMemoryLimiter_def lookupHistory_def emptyHistory_def)

lemma covers_seen:
  assumes "covers s l G now0 k" "now0 \<le> now" "s \<le> keep L"
  shows "\<exists>pre. G = pre @ seen l now k L \<and> (\<forall>g\<in>set pre. g + s \<le> now)"
proof (cases "h_expires (lookupHistory l k) > now")
  case False
  then have "seen l now k L = []"
    by (simp add: seen_def trimmedHits_def currentHistory_def Let_def emptyHistory_def)
  moreover have "\<forall>g\<in>set G. g + s \<le> now" using assms False by (fastforce simp: covers_def)
  ultimately show ?thesis by auto
next
  case True
  let ?h = "lookupHistory l k"
  let ?c = "now - retain L (time_sub (h_expires ?h) now)"
  obtain pre where pre: "G = pre @ h_hits ?h" "\<forall>g\<in>set pre. g + s \<le> now0" and G: "sorted G"
    using assms(1) by (auto simp: covers_def past_def)
  then have sorted: "sorted (h_hits ?h)" by (simp add: sorted_append)
  have seen: "seen l now k L = drop (since (h_hits ?h) ?c) (h_hits ?h)"
    using True by (simp add: seen_def trimmedHits_def currentHistory_def Let_def)
  let ?t = "take (since (h_hits ?h) ?c) (h_hits ?h)"
  have "\<forall>g\<in>set ?t. g \<le> ?c"
    using since_take [OF sorted] by blast
  then have "\<forall>g\<in>set ?t. g + s \<le> now" using retain_ge_keep [of L] assms(3) by (smt (verit))
  then have "\<forall>g\<in>set (pre @ ?t). g + s \<le> now" using pre(2) assms(2) by auto
  moreover have "G = (pre @ ?t) @ seen l now k L" using pre(1) seen by simp
  ultimately show ?thesis by blast
qed

lemma covers_past_seen:
  assumes "covers s l G now0 k" "now0 \<le> now" "s \<le> keep L"
  shows "past now (seen l now k L)"
proof -
  obtain pre where "G = pre @ seen l now k L" using covers_seen [OF assms] by blast
  moreover have "past now G" using assms(1,2) by (auto simp: covers_def intro: past_mono)
  ultimately show ?thesis by (simp add: past_append)
qed

lemma lookup_sweep:
  "lookupHistory (sweep l now) k = lookupHistory l k \<or>
   lookupHistory (sweep l now) k = emptyHistory \<and> h_expires (lookupHistory l k) \<le> now"
  by (auto simp: sweep_def lookupHistory_def split: option.splits)

lemma covers_sweep:
  assumes "covers s l G now0 k" "now0 \<le> now"
  shows "covers s (sweep l now) G now k"
  using lookup_sweep [of l now k]
proof
  assume "lookupHistory (sweep l now) k = lookupHistory l k"
  then show ?thesis using assms by (fastforce simp: covers_def past_def)
next
  assume "lookupHistory (sweep l now) k = emptyHistory \<and> h_expires (lookupHistory l k) \<le> now"
  then show ?thesis using assms by (fastforce simp: covers_def past_def emptyHistory_def)
qed

lemma lookup_upd:
  "ml_hits l' = (ml_hits l)(k \<mapsto> h) \<Longrightarrow> lookupHistory l' k' = (if k' = k then h else lookupHistory l k')"
  by (simp add: lookupHistory_def)

lemma currentHistory_expires:
  "max (h_expires (currentHistory l now k)) now = max (h_expires (lookupHistory l k)) now \<or>
   h_expires (lookupHistory l k) \<le> now"
  by (simp add: currentHistory_def Let_def)

text \<open>What a call adds to the admitted hits of a key.\<close>

definition recorded :: "MemoryLimiter \<Rightarrow> time \<Rightarrow> string \<Rightarrow> Limits \<Rightarrow> bool" where
  "recorded l now k L \<longleftrightarrow> \<not> limits_None L \<and> al_allowed (snd (memory_Allow l now k L))"

lemma covers_Allow_same:
  assumes cov: "covers s l G now0 k" and now: "now0 \<le> now" and s: "\<not> limits_None L \<Longrightarrow> s \<le> keep L"
  shows "covers s (fst (memory_Allow l now k L)) (G @ (if recorded l now k L then [now] else [])) now k"
proof (cases "limits_None L")
  case True
  then have "fst (memory_Allow l now k L) = l" "\<not> recorded l now k L"
    by (simp_all add: memory_Allow_def recorded_def)
  then show ?thesis using cov now by (fastforce simp: covers_def past_def)
next
  case False
  let ?e = "h_expires (currentHistory l now k)"
  obtain pre where pre: "G = pre @ seen l now k L" "\<forall>g\<in>set pre. g + s \<le> now"
    using covers_seen [OF cov now s [OF False]] by blast
  have G: "past now G" using cov now by (fastforce simp: covers_def past_def)
  have e: "\<forall>g\<in>set G. g + s \<le> max ?e now"
    using cov now currentHistory_expires [of l now k] by (fastforce simp: covers_def)
  show ?thesis
  proof (cases "0 < wait l now k L")
    case True
    then have "\<not> recorded l now k L" by (simp add: recorded_def memory_Allow_refused(1) [OF False])
    moreover have "covers s (fst (memory_Allow l now k L)) G now k"
      by (rule coversI [OF G lookup_upd [OF memory_Allow_refused(2) [OF False True]]])
        (use pre e in simp_all)
    ultimately show ?thesis by simp
  next
    case w: False
    let ?E = "later ?e (now + keep L)"
    have "recorded l now k L" using w by (simp add: recorded_def False memory_Allow_allowed_iff)
    moreover have "past now (G @ [now])" using G by (auto simp: past_def sorted_append)
    moreover have "now + s \<le> ?E" "max ?e now \<le> max ?E now"
      using s [OF False] by (auto simp: later_def)
    then have "\<forall>g\<in>set (G @ [now]). g + s \<le> max ?E now"
      using e by (auto intro: order_trans)
    ultimately have "covers s (fst (memory_Allow l now k L)) (G @ [now]) now k"
      using w pre by (intro coversI [OF _ lookup_upd [OF memory_Allow_admitted(2) [OF False]]]) simp_all
    then show ?thesis using \<open>recorded l now k L\<close> by simp
  qed
qed

lemma covers_Allow_other:
  assumes "covers s l G now0 k" "now0 \<le> now" "k' \<noteq> k"
  shows "covers s (fst (memory_Allow l now k' L)) G now k"
proof (cases "limits_None L")
  case True
  then show ?thesis using assms(1,2) by (fastforce simp: memory_Allow_def covers_def past_def)
next
  case False
  then obtain h where "ml_hits (fst (memory_Allow l now k' L)) = (ml_hits (sweep l now))(k' \<mapsto> h)"
    using memory_Allow_refused(2) [OF False, of l now k'] memory_Allow_admitted(2) [OF False, of l now k']
    by (cases "0 < wait l now k' L") auto
  then have "lookupHistory (fst (memory_Allow l now k' L)) k = lookupHistory (sweep l now) k"
    using assms(3) by (simp add: lookup_upd)
  then show ?thesis using covers_sweep [OF assms(1,2)] by (simp add: covers_def)
qed

text \<open>An admitted call keeps every window it caps within its limit, counted over all hits.\<close>

lemma recorded_within:
  assumes cov: "covers s l G now0 k" "now0 \<le> now" "s \<le> keep L" and rec: "recorded l now k L"
    and w: "w \<in> set (windows L)" "0 < w_limit w" "w_size w \<le> s"
  shows "int (inWindow (G @ [now]) now (w_size w)) \<le> w_limit w"
proof -
  obtain pre where pre: "G = pre @ seen l now k L" "\<forall>g\<in>set pre. g + s \<le> now"
    using covers_seen [OF cov] by blast
  have "filter (\<lambda>t. now - w_size w < t) pre = []" using pre(2) w(3) by (fastforce simp: filter_empty_conv)
  moreover have "int (inWindow (seen l now k L) now (w_size w)) < w_limit w"
    using wait_zero_iff [OF covers_past_seen [OF cov]] rec w(1,2)
    unfolding recorded_def by (metis memory_Allow_allowed_iff)
  moreover have "0 < w_size w" using w(1) by (auto simp: windows_def)
  ultimately show ?thesis using pre(1) by (simp add: inWindow_def)
qed

section \<open>Runs\<close>

datatype memory_op = OpAllow string time Limits | OpRefund string time

text \<open>
  A run of calls with, beside the limiter's own state, the hits of every key that were admitted and
  not refunded, and how many refunds of the key were out of order.  \<open>OpRefund k a\<close> gives back the hit
  admitted at \<open>a\<close>: that one leaves the hits, whichever the limiter drops.  The refund is out of order if the
  limiter drops a hit that is newer than \<open>a\<close>, or if no hit of \<open>a\<close> is left.
\<close>

definition in_order :: "MemoryLimiter \<Rightarrow> time list \<Rightarrow> string \<Rightarrow> time \<Rightarrow> bool" where
  "in_order l hits k a \<longleftrightarrow> h_hits (lookupHistory l k) = [] \<or> a \<in> set hits \<and> last (h_hits (lookupHistory l k)) \<le> a"

fun memory_run :: "MemoryLimiter \<times> (string \<Rightarrow> time list) \<times> (string \<Rightarrow> nat) \<Rightarrow> memory_op list \<Rightarrow>
    MemoryLimiter \<times> (string \<Rightarrow> time list) \<times> (string \<Rightarrow> nat)" where
  "memory_run (l, A, d) [] = (l, A, d)"
| "memory_run (l, A, d) (OpAllow k t L # ops) = memory_run (fst (memory_Allow l t k L),
     if recorded l t k L then A(k := A k @ [t]) else A, d) ops"
| "memory_run (l, A, d) (OpRefund k a # ops) = memory_run (fst (memory_Refund l k), A(k := remove1 a (A k)),
     if in_order l (A k) k a then d else d(k := Suc (d k))) ops"

fun op_times :: "memory_op list \<Rightarrow> time list" where
  "op_times [] = []"
| "op_times (OpAllow k t L # ops) = t # op_times ops"
| "op_times (OpRefund k a # ops) = op_times ops"

text \<open>The calls for \<open>k\<close> keep hits for at least \<open>s\<close>.\<close>

definition keeping :: "duration \<Rightarrow> string \<Rightarrow> memory_op list \<Rightarrow> bool" where
  "keeping s k ops \<longleftrightarrow> list_all (\<lambda>x. case x of OpAllow k' t L \<Rightarrow> k' = k \<longrightarrow> s \<le> keep L | _ \<Rightarrow> True) ops"

lemma past_butlast: "past now G \<Longrightarrow> past now (butlast G)"
  by (cases G rule: rev_cases) (auto simp: past_append)

lemma covers_Refund:
  assumes "covers s l G now k"
  shows "covers s (fst (memory_Refund l k'))
    (if k' = k \<and> h_hits (lookupHistory l k) \<noteq> [] then butlast G else G) now k"
proof (cases "k' = k \<and> h_hits (lookupHistory l k) \<noteq> []")
  case True
  let ?h = "lookupHistory l k"
  obtain pre where pre: "G = pre @ h_hits ?h" "\<forall>g\<in>set pre. g + s \<le> now"
    and G: "past now G" "\<forall>g\<in>set G. g + s \<le> max (h_expires ?h) now"
    using assms by (auto simp: covers_def)
  have "ml_hits (fst (memory_Refund l k')) =
      (ml_hits l)(k \<mapsto> \<lparr>h_hits = butlast (h_hits ?h), h_expires = h_expires ?h\<rparr>)"
    using True by (simp add: memory_Refund_def Let_def)
  from coversI [OF past_butlast [OF G(1)] lookup_upd [OF this, of k], of pre]
  have "covers s (fst (memory_Refund l k')) (butlast G) now k"
    using G(2) pre True by (auto simp: butlast_append dest: in_set_butlastD)
  then show ?thesis using True by simp
next
  case False
  then have "lookupHistory (fst (memory_Refund l k')) k = lookupHistory l k"
    by (auto simp: memory_Refund_def Let_def lookupHistory_def)
  then have "covers s (fst (memory_Refund l k')) G now k" using assms by (simp add: covers_def)
  then show ?thesis using False by (simp only: if_False)
qed

text \<open>Every window counts at most \<open>n\<close> more hits of \<open>A\<close> than of \<open>G\<close>.\<close>

definition exceeds :: "nat \<Rightarrow> time list \<Rightarrow> time list \<Rightarrow> bool" where
  "exceeds n A G \<longleftrightarrow> (\<forall>c. length (filter (\<lambda>t. c < t) A) \<le> length (filter (\<lambda>t. c < t) G) + n)"

lemma exceeds_append: "exceeds n A G \<Longrightarrow> exceeds n (A @ B) (G @ B)"
  by (simp add: exceeds_def)

lemma length_filter_remove1: "a \<in> set xs \<Longrightarrow>
    length (filter P xs) = length (filter P (remove1 a xs)) + (if P a then 1 else 0)"
  by (induction xs) auto

lemma length_filter_remove1_le: "length (filter P (remove1 a xs)) \<le> length (filter P xs)"
  by (induction xs) auto

lemma exceeds_remove1: "exceeds n A G \<Longrightarrow> exceeds n (remove1 a A) G"
  by (auto simp: exceeds_def intro: order_trans [OF length_filter_remove1_le])

lemma length_filter_last: "xs \<noteq> [] \<Longrightarrow> length (filter P xs) = length (filter P (butlast xs)) + (if P (last xs) then 1 else 0)"
  by (cases xs rule: rev_cases) auto

lemma exceeds_refund:
  assumes "exceeds n A G" "G \<noteq> []"
  shows "exceeds (if a \<in> set A \<and> last G \<le> a then n else Suc n) (remove1 a A) (butlast G)"
proof (cases "a \<in> set A \<and> last G \<le> a")
  case True
  have "length (filter (\<lambda>t. c < t) (remove1 a A)) \<le> length (filter (\<lambda>t. c < t) (butlast G)) + n" for c
  proof -
    have "length (filter (\<lambda>t. c < t) A) \<le> length (filter (\<lambda>t. c < t) G) + n" using assms(1) by (simp add: exceeds_def)
    then show ?thesis
      using True length_filter_last [OF assms(2), of "\<lambda>t. c < t"] length_filter_remove1 [of a A "\<lambda>t. c < t"]
      by (simp split: if_splits)
  qed
  then show ?thesis using True by (simp add: exceeds_def)
next
  case False
  have "length (filter (\<lambda>t. c < t) (remove1 a A)) \<le> length (filter (\<lambda>t. c < t) (butlast G)) + Suc n" for c
  proof -
    have "length (filter (\<lambda>t. c < t) A) \<le> length (filter (\<lambda>t. c < t) G) + n" using assms(1) by (simp add: exceeds_def)
    then show ?thesis
      using length_filter_last [OF assms(2), of "\<lambda>t. c < t"] length_filter_remove1_le [of "\<lambda>t. c < t" a A]
      by (simp split: if_splits)
  qed
  then show ?thesis using False by (auto simp: exceeds_def)
qed

text \<open>The limiter counts in some hits \<open>G\<close> that fall behind the true ones by the refunds out of order at most.\<close>

lemma covers_run:
  assumes "covers s l G now k" "exceeds (d k) (A k) G" "sorted (now # op_times ops)" "keeping s k ops"
    "memory_run (l, A, d) ops = (l', A', d')"
  shows "\<exists>G'. covers s l' G' (last (now # op_times ops)) k \<and> exceeds (d' k) (A' k) G'"
  using assms
proof (induction "(l, A, d)" ops arbitrary: l A d G now rule: memory_run.induct)
  case (1 l A d)
  then show ?case by auto
next
  case (2 l A d k' t L ops)
  have t: "now \<le> t" "sorted (t # op_times ops)" "keeping s k ops"
    using 2(4,5) by (auto simp: keeping_def)
  let ?l = "fst (memory_Allow l t k' L)"
  let ?A = "if recorded l t k' L then A(k' := A k' @ [t]) else A"
  let ?G = "if k' = k \<and> recorded l t k' L then G @ [t] else G"
  have "covers s ?l ?G t k"
  proof (cases "k' = k")
    case True
    then have "s \<le> keep L" using 2(5) by (simp add: keeping_def)
    from covers_Allow_same [OF 2(2) t(1), of L, OF this] show ?thesis using True by (auto split: if_splits)
  next
    case False
    then show ?thesis using covers_Allow_other [OF 2(2) t(1) False, of L] by auto
  qed
  moreover have "exceeds (d k) (?A k) ?G" using 2(3) exceeds_append [of "d k" "A k" G "[t]"] by auto
  ultimately show ?case using 2(1) [OF _ _ t(2,3)] 2(6) by simp
next
  case (3 l A d k' a ops)
  let ?h = "h_hits (lookupHistory l k)"
  let ?G = "if k' = k \<and> ?h \<noteq> [] then butlast G else G"
  let ?d = "if in_order l (A k') k' a then d else d(k' := Suc (d k'))"
  have c: "covers s (fst (memory_Refund l k')) ?G now k" using covers_Refund [OF 3(2), of k'] .
  have "exceeds (?d k) ((A(k' := remove1 a (A k'))) k) ?G"
  proof (cases "k' = k \<and> ?h \<noteq> []")
    case True
    then have "last G = last ?h" "G \<noteq> []" using 3(2) by (auto simp: covers_def)
    then show ?thesis using exceeds_refund [OF 3(3), of a] True by (auto simp: in_order_def split: if_splits)
  next
    case False
    then show ?thesis using 3(3) exceeds_remove1 [OF 3(3)] by (auto simp: in_order_def)
  qed
  from 3(1) [OF c this] show ?case using 3(4,5,6) by (simp add: keeping_def)
qed

section \<open>Waiting\<close>

lemma seen_cases: "sorted (h_hits (lookupHistory l k)) \<Longrightarrow>
    \<exists>c. seen l now k L = filter (\<lambda>t. c < t) (h_hits (lookupHistory l k)) \<or> seen l now k L = []"
  unfolding seen_def trimmedHits_def currentHistory_def Let_def
  by (auto simp: drop_since emptyHistory_def)

lemma seen_past: "past now (h_hits (lookupHistory l k)) \<Longrightarrow> past now (seen l now k L)"
  using seen_cases [of l k now L] by (auto simp: past_def intro: sorted_wrt_filter)

lemma inWindow_seen:
  assumes "sorted (h_hits (lookupHistory l k))"
  shows "inWindow (seen l now k L) now s \<le> inWindow (h_hits (lookupHistory l k)) now s"
  using seen_cases [OF assms, of now L]
  by (auto simp: inWindow_def filter_filter intro!: length_filter_mono)

lemma inWindow_later: "now \<le> t \<Longrightarrow> inWindow hist t s \<le> inWindow hist now s"
  unfolding inWindow_def by (rule length_filter_mono) simp

lemma inWindow_after_wait:
  assumes "past now hist" "0 < w_limit w" "now \<le> t" "now + windowNeed hist now w \<le> t"
  shows "int (inWindow hist t (w_size w)) < w_limit w"
proof (cases "int (inWindow hist now (w_size w)) < w_limit w")
  case True
  then show ?thesis using inWindow_later [OF assms(3), of hist "w_size w"] by linarith
next
  case False
  let ?i = "nat (int (length hist) - w_limit w)"
  have "hist ! ?i \<le> t - w_size w" using False assms(2,4) by (simp add: windowNeed_def)
  then have "inWindow hist t (w_size w) \<le> length (filter (\<lambda>x. hist ! ?i < x) hist)"
    unfolding inWindow_def by (intro length_filter_mono) simp
  also have "\<dots> < nat (w_limit w)"
    using full_window_hit(4) [OF assms(1,2), of "w_size w"] False by simp
  finally show ?thesis using assms(2) by linarith
qed

section \<open>Properties\<close>

text \<open>C3. Whatever calls and refunds came before, on this key and on others, and however their
  limits varied, if the clock did not run backwards, a call the in-memory limiter admits leaves in each window it caps at most the limit of hits
  that were admitted and not refunded, plus one for each refund of the key that was out of order (it gave
  back a hit while the limiter dropped a newer one).  For the minute and the hour always; for the day if every
  earlier call for the key had a daily cap too.\<close>

theorem memory_window_never_exceeded:
  assumes run: "memory_run (NewMemoryLimiter, \<lambda>_. [], \<lambda>_. 0) ops = (l, A, d)"
    and clock: "sorted (op_times ops @ [now])"
    and rec: "\<not> limits_None L" "al_allowed (snd (memory_Allow l now k L))"
    and w: "w \<in> set (windows L)" "0 < w_limit w"
    and day: "w_size w \<le> hour \<or> keeping day k ops"
  shows "int (length (filter (\<lambda>t. now - w_size w < t) (A k @ [now]))) \<le> w_limit w + int (d k)"
proof -
  define s where "s = (if w_size w \<le> hour then hour else day)"
  have s: "w_size w \<le> s" "s \<le> keep L" "keeping s k ops"
    using w day keep_ge_hour by (auto simp: s_def windows_def keep_def keeping_def list_all_iff
        split: memory_op.splits)
  define t0 where "t0 = hd (op_times ops @ [now])"
  have t0: "sorted (t0 # op_times ops)" "last (t0 # op_times ops) \<le> now"
    using clock by (cases "op_times ops"; auto simp: t0_def sorted_append)+
  obtain G where G: "covers s l G (last (t0 # op_times ops)) k" "exceeds (d k) (A k) G"
    using covers_run [OF covers_new _ t0(1) s(3) run] by (auto simp: exceeds_def)
  have "int (inWindow (G @ [now]) now (w_size w)) \<le> w_limit w"
    using recorded_within [OF G(1) t0(2) s(2) _ w s(1)] rec by (simp add: recorded_def)
  moreover have "length (filter (\<lambda>t. now - w_size w < t) (A k @ [now])) \<le> inWindow (G @ [now]) now (w_size w) + d k"
    using exceeds_append [OF G(2), of "[now]"] by (simp add: exceeds_def inWindow_def)
  ultimately show ?thesis by linarith
qed

definition sample_limits :: Limits where
  "sample_limits = \<lparr>PerMinute = 2, PerHour = 0, PerDay = 0\<rparr>"

lemmas memory_eval = memory_Allow_def memory_Refund_def sweep_def currentHistory_def
  trimmedHits_def lookupHistory_def emptyHistory_def NewMemoryLimiter_def since_count
  windowWait_def windows_def limits_None_def keep_def retain_def
  later_def ceilToSecond_def time_sub_def allowed_result_def Let_def

theorem memory_window_never_exceeded_witness:
  "al_allowed (snd (memory_Allow
      (fst (memory_run (NewMemoryLimiter, \<lambda>_. [], \<lambda>_. 0)
        [OpAllow ''p'' (100 * hour - second) sample_limits, OpRefund ''p'' (100 * hour - second), OpAllow ''p'' (100 * hour) sample_limits])) (100 * hour + second) ''p'' sample_limits)) \<and>
   int (length (filter (\<lambda>t. 100 * hour + second - minute < t)
     ([100 * hour] @ [100 * hour + second]))) \<le> 2"
proof -
  let ?r = "memory_run (NewMemoryLimiter, \<lambda>_. [], \<lambda>_. 0)
    [OpAllow ''p'' (100 * hour - second) sample_limits, OpRefund ''p'' (100 * hour - second), OpAllow ''p'' (100 * hour) sample_limits]"
  have A: "fst (snd ?r) ''p'' = [100 * hour]" "snd (snd ?r) ''p'' = 0"
    by code_simp+
  have ok: "al_allowed (snd (memory_Allow (fst ?r) (100 * hour + second) ''p'' sample_limits))"
    by code_simp
  have "int (length (filter (\<lambda>t. 100 * hour + second - w_size \<lparr>w_limit = 2, w_size = minute\<rparr> < t)
      (fst (snd ?r) ''p'' @ [100 * hour + second]))) \<le> w_limit \<lparr>w_limit = 2, w_size = minute\<rparr> + int (snd (snd ?r) ''p'')"
    by (rule memory_window_never_exceeded [OF _ _ _ ok, of _ "fst (snd ?r)" "snd (snd ?r)"])
      (simp_all only: prod.collapse, simp_all add: sample_limits_def limits_None_def windows_def)
  with ok A show ?thesis by simp
qed

text \<open>The bound is met: two messages in a minute are allowed, the first one's hit is given back late, and a third
  and a fourth message are admitted within a minute of the second, which was not refunded.\<close>

lemma refund_out_of_order:
  "case memory_run (NewMemoryLimiter, \<lambda>_. [], \<lambda>_. 0) [OpAllow ''p'' (100 * hour) sample_limits,
      OpAllow ''p'' (100 * hour + 30 * second) sample_limits, OpRefund ''p'' (100 * hour),
      OpAllow ''p'' (100 * hour + minute) sample_limits] of
    (l, A, d) \<Rightarrow> d ''p'' = 1 \<and> al_allowed (snd (memory_Allow l (100 * hour + minute) ''p'' sample_limits)) \<and>
      filter (\<lambda>x. 100 * hour < x) (A ''p'' @ [100 * hour + minute]) =
        [100 * hour + 30 * second, 100 * hour + minute, 100 * hour + minute]"
  by code_simp

text \<open>C29. A call the in-memory limiter refuses is told to wait a whole number of seconds, at least
  one, and a caller that waits that long is admitted, as long as nobody else sent on the key.\<close>

theorem memory_retry_admitted:
  assumes past: "past now (h_hits (lookupHistory l k))"
    and refused: "\<not> al_allowed (snd (memory_Allow l now k L))"
    and t: "now + al_retryAfter (snd (memory_Allow l now k L)) \<le> t"
  shows "al_retryAfter (snd (memory_Allow l now k L)) mod second = 0 \<and>
    second \<le> al_retryAfter (snd (memory_Allow l now k L)) \<and>
    al_allowed (snd (memory_Allow (fst (memory_Allow l now k L)) t k L))"
proof -
  let ?l = "fst (memory_Allow l now k L)" and ?H = "seen l now k L"
  have L: "\<not> limits_None L" using refused by (auto simp: memory_Allow_def allowed_result_def)
  have w0: "0 < wait l now k L" using refused L by (simp add: memory_Allow_allowed_iff)
  note r = memory_Allow_refused [OF L w0]
  have H: "past now ?H" by (rule seen_past [OF past])
  have t': "now \<le> t" "now + wait l now k L \<le> t"
    using t ceilToSecond_ge [of "wait l now k L"] w0 by (simp_all add: r(1))
  have hits: "h_hits (lookupHistory ?l k) = ?H" using lookup_upd [OF r(2), of k] by simp
  have H': "past t (h_hits (lookupHistory ?l k))" using H t'(1) hits by (simp add: past_mono)
  have "int (inWindow (seen ?l t k L) t (w_size w)) < w_limit w"
    if w: "w \<in> set (windows L)" "0 < w_limit w" for w
  proof -
    have "inWindow (seen ?l t k L) t (w_size w) \<le> inWindow ?H t (w_size w)"
      using inWindow_seen [of ?l k t L] H' hits by (simp add: past_def)
    moreover have "now + windowNeed ?H now w \<le> t" using wait_ge [OF H w(1)] t'(2) by simp
    ultimately show ?thesis using inWindow_after_wait [OF H w(2) t'(1)] by fastforce
  qed
  then have "wait ?l t k L \<le> 0" using wait_zero_iff [OF seen_past [OF H']] by simp
  then show ?thesis
    using ceilToSecond_pos ceilToSecond_multiple by (simp add: r(1) memory_Allow_allowed_iff [OF L])
qed

theorem memory_retry_admitted_witness:
  "\<not> al_allowed (snd (memory_Allow (fst (memory_Allow NewMemoryLimiter (100 * hour) ''p''
      (sample_limits\<lparr>PerMinute := 1\<rparr>))) (100 * hour + second) ''p'' (sample_limits\<lparr>PerMinute := 1\<rparr>))) \<and>
   al_allowed (snd (memory_Allow (fst (memory_Allow (fst (memory_Allow NewMemoryLimiter (100 * hour) ''p''
      (sample_limits\<lparr>PerMinute := 1\<rparr>))) (100 * hour + second) ''p'' (sample_limits\<lparr>PerMinute := 1\<rparr>)))
      (100 * hour + minute) ''p'' (sample_limits\<lparr>PerMinute := 1\<rparr>)))"
proof -
  let ?L = "sample_limits\<lparr>PerMinute := 1\<rparr>"
  let ?l = "fst (memory_Allow NewMemoryLimiter (100 * hour) ''p'' ?L)"
  have no: "\<not> al_allowed (snd (memory_Allow ?l (100 * hour + second) ''p'' ?L))"
    by (simp add: memory_eval sample_limits_def)
  moreover have "past (100 * hour + second) (h_hits (lookupHistory ?l ''p''))"
    by (simp add: memory_eval sample_limits_def past_def)
  moreover have "100 * hour + second + al_retryAfter (snd (memory_Allow ?l (100 * hour + second) ''p'' ?L))
      \<le> 100 * hour + minute"
    by (simp add: memory_eval sample_limits_def)
  ultimately show ?thesis
    using memory_retry_admitted [of "100 * hour + second" ?l "''p''" ?L "100 * hour + minute"] by blast
qed

end
