(* ===== verification/Backend_Config.thy ===== *)
theory Backend_Config
  imports Api_Types
begin

text \<open>
  The driver interface (\<^verbatim>\<open>internal/driver/driver.go\<close>, \<^verbatim>\<open>registry.go\<close>), the guard on Secret
  reads (\<^verbatim>\<open>internal/kubecache\<close>) and the resolution of a backend's spec and Secrets into a
  driver configuration (\<^verbatim>\<open>internal/controller/backend_resolver.go\<close>).  Reading an object from
  the API server or its cache is a function argument \<open>get\<close>.
\<close>

section \<open>Messages and drivers (driver.go)\<close>

abbreviation TypeSMTP :: string where "TypeSMTP \<equiv> ''smtp''"
abbreviation TypeMicrosoftGraph :: string where "TypeMicrosoftGraph \<equiv> ''microsoftGraph''"

record EndpointHealth =
  eh_Host :: string
  eh_Port :: int
  eh_Ready :: bool
  eh_Message :: string

record Address =
  ad_Name :: string
  ad_Address :: string

record Attachment =
  at_Filename :: string
  at_ContentType :: string
  at_Disposition :: string
  at_ContentID :: string
  at_Content :: bytes

record Body =
  bd_Text :: string
  bd_HTML :: string

record Message =
  ms_MessageID :: string
  ms_From :: Address
  ms_To :: "Address list"
  ms_Cc :: "Address list"
  ms_Bcc :: "Address list"
  ms_Subject :: string
  ms_Body :: Body
  ms_Attachments :: "Attachment list"
  ms_Headers :: labels

record SendResult =
  sr_UpstreamID :: string
  sr_AcceptedAt :: time

text \<open>The content ID of an inline part.\<close>

datatype content_id_error = ContentIDLength | ContentIDForm string

definition isDotAtomByte :: "char \<Rightarrow> bool" where
  "isDotAtomByte c \<longleftrightarrow> is_lower c \<or> is_upper c \<or> is_digit c \<or> c = CHR ''.'' \<or>
     IndexByte (''!#$%&'' @ CHR 0x27 # ''*+-/=?^_`{|}~'') c \<noteq> None"

definition isDotAtom :: "string \<Rightarrow> bool" where
  "isDotAtom s = (if s = [] \<or> hd s = CHR ''.'' \<or> last s = CHR ''.'' \<or> Contains s ''..'' then False
     else list_all isDotAtomByte s)"

definition ValidateContentID :: "string \<Rightarrow> content_id_error option" where
  "ValidateContentID i =
     (if i = [] \<or> length i > 250 then Some ContentIDLength
      else case Cut i CHR ''@'' of (left, right, ok) \<Rightarrow>
        if \<not> ok \<or> \<not> isDotAtom left \<or> \<not> isDotAtom right then Some (ContentIDForm i) else None)"

text \<open>
  The errors of \<^verbatim>\<open>Send\<close>.  \<^verbatim>\<open>errors.Is\<close> asks for the sentinels an error wraps, \<^verbatim>\<open>errors.As\<close> for
  the delay the upstream asked for; the message is the text of the error.
\<close>

record driver_error =
  de_NoReadyEndpoint :: bool
  de_Transient :: bool
  de_Permanent :: bool
  de_RecipientNotInEnvelope :: bool
  de_RetryAfter :: "duration option"
  de_Message :: string

abbreviation MaxRetryAfter :: duration where "MaxRetryAfter \<equiv> 10 * minute"

definition WithRetryAfter :: "driver_error option \<Rightarrow> duration \<Rightarrow> driver_error option" where
  "WithRetryAfter err after = (case err of None \<Rightarrow> None
     | Some e \<Rightarrow> if after \<le> 0 then Some e else Some (e\<lparr>de_RetryAfter := Some (min after MaxRetryAfter)\<rparr>))"

definition RetryAfter :: "driver_error \<Rightarrow> duration" where
  "RetryAfter e = (case de_RetryAfter e of Some d \<Rightarrow> d | None \<Rightarrow> 0)"

text \<open>A built driver; only a raw sender has \<^verbatim>\<open>SendRaw\<close>.\<close>

record driver =
  dr_Send :: "Message \<Rightarrow> driver_error + SendResult"
  dr_SendRaw :: "(string \<Rightarrow> string list \<Rightarrow> bytes \<Rightarrow> driver_error + SendResult) option"
  dr_HealthCheck :: "EndpointHealth list"
  dr_Capabilities :: "string list"

section \<open>Configuration and registry (registry.go)\<close>

record dSMTPEndpoint =
  de_Host :: string
  de_Port :: int
  de_TLS :: string
  de_InsecureSkipVerify :: bool

record GraphConfig =
  gc_TenantID :: string
  gc_ClientID :: string
  gc_ClientSecret :: string

text \<open>\<^verbatim>\<open>RootCAs\<close> is the PEM bundle added to the system roots, \<^term>\<open>None\<close> for the system roots.\<close>

record SMTPConfig =
  sc_Endpoints :: "dSMTPEndpoint list"
  sc_AuthType :: string
  sc_Username :: string
  sc_Password :: string
  sc_Timeout :: int
  sc_Helo :: string
  sc_RootCAs :: "bytes option"

record DConfig =
  dc_Type :: string
  dc_BackendKey :: string
  dc_SMTP :: "SMTPConfig option"
  dc_Graph :: "GraphConfig option"

type_synonym 'd registry = "string \<Rightarrow> (DConfig \<Rightarrow> string + 'd) option"

definition Register :: "'d registry \<Rightarrow> string \<Rightarrow> (DConfig \<Rightarrow> string + 'd) \<Rightarrow> 'd registry" where
  "Register reg t f = reg(t \<mapsto> f)"

definition New :: "'d registry \<Rightarrow> DConfig \<Rightarrow> string + 'd" where
  "New reg cfg = (case reg (dc_Type cfg) of
     None \<Rightarrow> Inl (''backend type '' @ dc_Type cfg @ '' is not implemented in this build'')
   | Some f \<Rightarrow> f cfg)"

definition Implemented :: "'d registry \<Rightarrow> string set" where
  "Implemented reg = dom reg"

definition IsImplemented :: "'d registry \<Rightarrow> string \<Rightarrow> bool" where
  "IsImplemented reg t \<longleftrightarrow> reg t \<noteq> None"

text \<open>The registry after the \<^verbatim>\<open>init\<close> functions of the two drivers.\<close>

definition initRegistry ::
    "(DConfig \<Rightarrow> string + 'd) \<Rightarrow> (DConfig \<Rightarrow> string + 'd) \<Rightarrow> 'd registry" where
  "initRegistry newSMTP newGraph =
     Register (Register Map.empty TypeSMTP newSMTP) TypeMicrosoftGraph newGraph"

section \<open>Secret namespaces (kubecache.go)\<close>

record Secret =
  sec_Name :: string
  sec_Namespace :: string
  sec_Data :: "string \<Rightarrow> bytes option"

datatype read_error =
  NotFound | SecretNamespaceError string string "string list" | ReadFailed string

type_synonym secret_reader = "string \<Rightarrow> string \<Rightarrow> read_error + Secret"

definition SecretNamespaces :: "string \<Rightarrow> string \<Rightarrow> string list" where
  "SecretNamespaces podNamespace lst =
     (let out = filter (\<lambda>ns. ns \<noteq> []) (map TrimSpace (Split lst CHR '','')) in
      if out = [] then (if podNamespace \<noteq> [] then [podNamespace] else out) else out)"

definition SecretNamespaceAllowed :: "string list \<Rightarrow> string \<Rightarrow> bool" where
  "SecretNamespaceAllowed namespaces ns \<longleftrightarrow> namespaces = [] \<or> ns \<in> set namespaces"

definition GuardSecretReads :: "secret_reader \<Rightarrow> string list \<Rightarrow> secret_reader" where
  "GuardSecretReads get namespaces = (if namespaces = [] then get
     else (\<lambda>ns name. if \<not> SecretNamespaceAllowed namespaces ns
        then Inl (SecretNamespaceError ns name namespaces) else get ns name))"

section \<open>Resolving a backend (backend_resolver.go)\<close>

datatype resolve_error =
    MissingSMTP | MissingCredentialsRef | MissingGraph | TypeNotImplemented string
  | CrossNamespace string string string
  | NamespaceRequired string
  | SecretNotFound string string string
  | SecretForbidden read_error
  | SecretLoadFailed string string string read_error
  | NoSuchKey string string string
  | NoPEM string string string

definition backendSecret ::
    "secret_reader \<Rightarrow> string \<Rightarrow> string \<Rightarrow> string \<Rightarrow> string \<Rightarrow> string \<Rightarrow> resolve_error + Secret" where
  "backendSecret get refPath what name refNs secretFallbackNs =
     (if secretFallbackNs \<noteq> [] \<and> refNs \<noteq> [] \<and> refNs \<noteq> secretFallbackNs
      then Inl (CrossNamespace refPath refNs secretFallbackNs)
      else let ns = (if secretFallbackNs \<noteq> [] then secretFallbackNs else refNs) in
        if ns = [] then Inl (NamespaceRequired refPath)
        else (case get ns name of
            Inr sec \<Rightarrow> Inr sec
          | Inl NotFound \<Rightarrow> Inl (SecretNotFound what ns name)
          | Inl (SecretNamespaceError a b c) \<Rightarrow> Inl (SecretForbidden (SecretNamespaceError a b c))
          | Inl e \<Rightarrow> Inl (SecretLoadFailed what ns name e)))"

definition credentialsSecret ::
    "secret_reader \<Rightarrow> string \<Rightarrow> SecretReference \<Rightarrow> string \<Rightarrow> resolve_error + Secret" where
  "credentialsSecret get fld ref secretFallbackNs =
     backendSecret get (fld @ ''.credentialsRef'') ''credentials'' (sref_Name ref) (sref_Namespace ref)
       secretFallbackNs"

text \<open>\<open>pemOK\<close> is \<^verbatim>\<open>CertPool.AppendCertsFromPEM\<close> of package \<^verbatim>\<open>crypto/x509\<close>.\<close>

definition caPool ::
    "(bytes \<Rightarrow> bool) \<Rightarrow> secret_reader \<Rightarrow> CASecretReference \<Rightarrow> string \<Rightarrow> resolve_error + bytes" where
  "caPool pemOK get ref secretFallbackNs =
     (case backendSecret get ''spec.smtp.caSecretRef'' ''CA'' (ca_Name ref) (ca_Namespace ref)
             secretFallbackNs of
        Inl e \<Rightarrow> Inl e
      | Inr sec \<Rightarrow>
          let key = (if ca_Key ref = [] then ''ca.crt'' else ca_Key ref) in
          (case sec_Data sec key of
             None \<Rightarrow> Inl (NoSuchKey (sec_Namespace sec) (sec_Name sec) key)
           | Some pem \<Rightarrow> if \<not> pemOK pem then Inl (NoPEM (sec_Namespace sec) (sec_Name sec) key)
                         else Inr pem))"

definition dataString :: "Secret \<Rightarrow> string \<Rightarrow> string" where
  "dataString sec key = (case sec_Data sec key of Some v \<Rightarrow> v | None \<Rightarrow> [])"

definition resolveEndpoint :: "SMTPEndpoint \<Rightarrow> dSMTPEndpoint" where
  "resolveEndpoint ep = \<lparr>de_Host = ep_Host ep, de_Port = ep_Port ep,
     de_TLS = (if ep_TLS ep = [] then SMTPTLSStartTLS else ep_TLS ep),
     de_InsecureSkipVerify = ep_InsecureSkipVerify ep\<rparr>"

definition resolveSMTP ::
    "(bytes \<Rightarrow> bool) \<Rightarrow> secret_reader \<Rightarrow> SMTPBackendSpec \<Rightarrow> string \<Rightarrow> resolve_error + SMTPConfig" where
  "resolveSMTP pemOK get smtp secretFallbackNs =
     (let auth = (if smtp_AuthType smtp = [] then SMTPAuthNone else smtp_AuthType smtp);
          cfg = \<lparr>sc_Endpoints = map resolveEndpoint (smtp_Endpoints smtp), sc_AuthType = auth,
                 sc_Username = [], sc_Password = [],
                 sc_Timeout = smtp_ConnectionTimeoutSeconds smtp, sc_Helo = smtp_HeloDomain smtp,
                 sc_RootCAs = None\<rparr>;
          withCreds = (if auth = SMTPAuthNone then Inr cfg
            else case smtp_CredentialsRef smtp of
                None \<Rightarrow> Inl MissingCredentialsRef
              | Some ref \<Rightarrow> (case credentialsSecret get ''spec.smtp'' ref secretFallbackNs of
                    Inl e \<Rightarrow> Inl e
                  | Inr sec \<Rightarrow> Inr (cfg\<lparr>sc_Username := dataString sec ''username'',
                                       sc_Password := dataString sec ''password''\<rparr>)))
      in case withCreds of Inl e \<Rightarrow> Inl e
         | Inr cfg \<Rightarrow> (case smtp_CASecretRef smtp of None \<Rightarrow> Inr cfg
             | Some ref \<Rightarrow> (case caPool pemOK get ref secretFallbackNs of
                 Inl e \<Rightarrow> Inl e | Inr pool \<Rightarrow> Inr (cfg\<lparr>sc_RootCAs := Some pool\<rparr>))))"

definition resolveGraph ::
    "secret_reader \<Rightarrow> MicrosoftGraphBackendSpec \<Rightarrow> string \<Rightarrow> resolve_error + GraphConfig" where
  "resolveGraph get g secretFallbackNs =
     (case credentialsSecret get ''spec.microsoftGraph'' (mg_CredentialsRef g) secretFallbackNs of
        Inl e \<Rightarrow> Inl e
      | Inr sec \<Rightarrow>
          if dataString sec ''client_secret'' = []
          then Inl (NoSuchKey (sec_Namespace sec) (sec_Name sec) ''client_secret'')
          else Inr \<lparr>gc_TenantID = mg_TenantID g, gc_ClientID = mg_ClientID g,
                    gc_ClientSecret = dataString sec ''client_secret''\<rparr>)"

definition ResolveBackendConfig ::
    "(bytes \<Rightarrow> bool) \<Rightarrow> secret_reader \<Rightarrow> string \<Rightarrow> BackendSpec \<Rightarrow> string \<Rightarrow> resolve_error + DConfig" where
  "ResolveBackendConfig pemOK get backendKey spec secretFallbackNs =
     (let cfg = \<lparr>dc_Type = bs_Type spec, dc_BackendKey = backendKey, dc_SMTP = None, dc_Graph = None\<rparr> in
      if bs_Type spec = BackendSMTP then
        (case bs_SMTP spec of None \<Rightarrow> Inl MissingSMTP
         | Some smtp \<Rightarrow> map_sum id (\<lambda>c. cfg\<lparr>dc_SMTP := Some c\<rparr>)
             (resolveSMTP pemOK get smtp secretFallbackNs))
      else if bs_Type spec = BackendMicrosoftGraph then
        (case bs_MicrosoftGraph spec of None \<Rightarrow> Inl MissingGraph
         | Some g \<Rightarrow> map_sum id (\<lambda>c. cfg\<lparr>dc_Graph := Some c\<rparr>)
             (resolveGraph get g secretFallbackNs))
      else Inl (TypeNotImplemented (bs_Type spec)))"

section \<open>Which Secrets a backend reads\<close>

text \<open>A reader agrees with another on the namespaces in \<open>N\<close>.\<close>

definition agree :: "string set \<Rightarrow> secret_reader \<Rightarrow> secret_reader \<Rightarrow> bool" where
  "agree N get1 get2 \<longleftrightarrow> (\<forall>ns\<in>N. \<forall>name. get1 ns name = get2 ns name)"

text \<open>The namespaces a backend with fallback namespace \<open>ns\<close> can reach.\<close>

definition reach :: "string \<Rightarrow> string set" where
  "reach ns = (if ns = [] then UNIV else {ns})"

lemma backendSecret_cong:
  "agree (reach ns) get1 get2 \<Longrightarrow>
   backendSecret get1 refPath what name refNs ns = backendSecret get2 refPath what name refNs ns"
  by (simp add: backendSecret_def agree_def reach_def Let_def split: if_splits)

lemma resolveSMTP_cong:
  "agree (reach ns) get1 get2 \<Longrightarrow> resolveSMTP pemOK get1 smtp ns = resolveSMTP pemOK get2 smtp ns"
  by (simp only: resolveSMTP_def credentialsSecret_def caPool_def backendSecret_cong)

lemma resolveGraph_cong:
  "agree (reach ns) get1 get2 \<Longrightarrow> resolveGraph get1 g ns = resolveGraph get2 g ns"
  by (simp only: resolveGraph_def credentialsSecret_def backendSecret_cong)

lemma ResolveBackendConfig_cong:
  "agree (reach ns) get1 get2 \<Longrightarrow>
   ResolveBackendConfig pemOK get1 key spec ns = ResolveBackendConfig pemOK get2 key spec ns"
  by (simp add: ResolveBackendConfig_def resolveSMTP_cong resolveGraph_cong Let_def
      split: option.split)

lemma agree_guard:
  "Ns \<noteq> [] \<Longrightarrow> agree (set Ns) get1 get2 \<Longrightarrow>
   agree N (GuardSecretReads get1 Ns) (GuardSecretReads get2 Ns)"
  by (simp add: agree_def GuardSecretReads_def SecretNamespaceAllowed_def)

section \<open>Properties\<close>

text \<open>C35. The configuration of a namespaced MailBackend depends only on the Secrets of its own
  namespace, whatever namespaces its references name; and with a list of readable namespaces,
  that of any backend depends only on the Secrets of those.\<close>

theorem backend_secret_isolation:
  assumes own: "ns \<noteq> []" "\<And>name. getA ns name = getB ns name"
    and listed: "Ns \<noteq> []" "\<And>n name. n \<in> set Ns \<Longrightarrow> getC n name = getD n name"
  shows "ResolveBackendConfig pemOK getA key spec ns = ResolveBackendConfig pemOK getB key spec ns \<and>
    ResolveBackendConfig pemOK (GuardSecretReads getC Ns) key spec fallback =
    ResolveBackendConfig pemOK (GuardSecretReads getD Ns) key spec fallback"
  using own listed
  by (intro conjI ResolveBackendConfig_cong agree_guard) (auto simp: agree_def reach_def)

definition sample_secret :: "string \<Rightarrow> string \<Rightarrow> string \<Rightarrow> Secret" where
  "sample_secret ns name pw = \<lparr>sec_Name = name, sec_Namespace = ns,
     sec_Data = [''username'' \<mapsto> ''u'', ''password'' \<mapsto> pw, ''client_secret'' \<mapsto> pw]\<rparr>"

definition sample_spec :: "string \<Rightarrow> BackendSpec" where
  "sample_spec refNs = \<lparr>bs_Type = BackendSMTP, bs_SMTP = Some \<lparr>
       smtp_Endpoints = [\<lparr>ep_Host = ''mx'', ep_Port = 587, ep_TLS = SMTPTLSStartTLS,
         ep_InsecureSkipVerify = False\<rparr>],
       smtp_AuthType = SMTPAuthPlain,
       smtp_CredentialsRef = Some \<lparr>sref_Name = ''creds'', sref_Namespace = refNs\<rparr>,
       smtp_ConnectionTimeoutSeconds = 10, smtp_HeloDomain = [], smtp_CASecretRef = None\<rparr>,
     bs_MicrosoftGraph = None, bs_HealthCheck = None, bs_AllowedSenders = None\<rparr>"

theorem backend_secret_isolation_witness:
  "ResolveBackendConfig (\<lambda>_. True) (\<lambda>ns n. Inr (sample_secret ns n (if ns = ''a'' then ''pw'' else ''x'')))
     ''a/b'' (sample_spec []) ''a'' =
   ResolveBackendConfig (\<lambda>_. True) (\<lambda>ns n. Inr (sample_secret ns n ''pw'')) ''a/b'' (sample_spec []) ''a'' \<and>
   (\<exists>cfg. ResolveBackendConfig (\<lambda>_. True) (\<lambda>ns n. Inr (sample_secret ns n ''pw'')) ''a/b''
     (sample_spec []) ''a'' = Inr cfg \<and> map_option sc_Password (dc_SMTP cfg) = Some ''pw'')"
proof -
  have "ResolveBackendConfig (\<lambda>_. True)
      (\<lambda>ns n. Inr (sample_secret ns n (if ns = ''a'' then ''pw'' else ''x''))) ''a/b'' (sample_spec []) ''a'' =
    ResolveBackendConfig (\<lambda>_. True) (\<lambda>ns n. Inr (sample_secret ns n ''pw'')) ''a/b'' (sample_spec []) ''a''"
    using backend_secret_isolation [where ns = "''a''" and Ns = "[''a'']" and getC = "\<lambda>_ _. Inl NotFound"
        and getD = "\<lambda>_ _. Inl NotFound" and pemOK = "\<lambda>_. True" and key = "''a/b''"
        and spec = "sample_spec []"
        and getA = "\<lambda>ns n. Inr (sample_secret ns n (if ns = ''a'' then ''pw'' else ''x''))"
        and getB = "\<lambda>ns n. Inr (sample_secret ns n ''pw'')"]
    by simp
  moreover have "\<exists>cfg. ResolveBackendConfig (\<lambda>_. True) (\<lambda>ns n. Inr (sample_secret ns n ''pw'')) ''a/b''
     (sample_spec []) ''a'' = Inr cfg \<and> map_option sc_Password (dc_SMTP cfg) = Some ''pw''"
    by (simp add: ResolveBackendConfig_def resolveSMTP_def sample_spec_def credentialsSecret_def
        backendSecret_def dataString_def sample_secret_def)
  ultimately show ?thesis by blast
qed

end
