(* ===== verification/Credential.thy ===== *)
theory Credential
  imports Go_Encoding Api_Types
begin

text \<open>
  \<^verbatim>\<open>internal/credential/credential.go\<close>: usernames, password hashes, rotation settings and the
  namespace exclusion list of mail credentials.  Cryptography is a parameter: \<open>sha\<close> is
  \<^verbatim>\<open>sha256.Sum256\<close>, \<open>idKey\<close> is \<^verbatim>\<open>argon2.IDKey\<close>; so are the duration syntax of package
  \<^verbatim>\<open>time\<close> (\<open>goDuration\<close>) and the label check of the Kubernetes libraries (\<open>labelErrs\<close>).
\<close>

section \<open>Usernames\<close>

definition Username :: "string \<Rightarrow> string \<Rightarrow> string" where
  "Username name namespace = name @ ''.'' @ namespace"

text \<open>Namespace and name.\<close>

definition ParseUsername :: "string \<Rightarrow> (string \<times> string) option" where
  "ParseUsername u = (case LastIndexByte u CHR ''.'' of None \<Rightarrow> None
     | Some i \<Rightarrow> if i = 0 \<or> i = length u - 1 then None else Some (drop (i + 1) u, take i u))"

section \<open>Generated passwords\<close>

text \<open>\<open>rnd\<close> is what \<^verbatim>\<open>rand.Read\<close> filled the 32 bytes with, \<^term>\<open>None\<close> if it failed.\<close>

definition GeneratePassword :: "bytes option \<Rightarrow> string option" where
  "GeneratePassword rnd = map_option (encode64 urlAlphabet []) rnd"

definition sha256Prefix :: string where "sha256Prefix = ''sha256:''"

definition HashGenerated :: "(bytes \<Rightarrow> bytes) \<Rightarrow> string \<Rightarrow> string" where
  "HashGenerated sha password = sha256Prefix @ hexEncode (sha password)"

definition IsGeneratedHash :: "string \<Rightarrow> bool" where
  "IsGeneratedHash hash = HasPrefix hash sha256Prefix"

definition VerifyGenerated :: "(bytes \<Rightarrow> bytes) \<Rightarrow> string \<Rightarrow> string \<Rightarrow> bool" where
  "VerifyGenerated sha hash password =
     (if \<not> IsGeneratedHash hash then False
      else case hexDecode (TrimPrefix hash sha256Prefix) of
        None \<Rightarrow> False
      | Some want \<Rightarrow> if length want \<noteq> 32 then False else want = sha password)"

section \<open>Bring-your-own argon2id hashes\<close>

abbreviation Argon2MinMemoryKiB :: nat where "Argon2MinMemoryKiB \<equiv> 7 * 1024"
abbreviation Argon2MaxMemoryKiB :: nat where "Argon2MaxMemoryKiB \<equiv> 64 * 1024"
abbreviation Argon2MinMemoryTimeKiB :: nat where "Argon2MinMemoryTimeKiB \<equiv> 35 * 1024"
abbreviation Argon2MaxTime :: nat where "Argon2MaxTime \<equiv> 10"
abbreviation Argon2MaxThreads :: nat where "Argon2MaxThreads \<equiv> 16"

record Argon2Params =
  ap_MemoryKiB :: nat
  ap_Time :: nat
  ap_Threads :: nat
  ap_Salt :: bytes
  ap_Key :: bytes

datatype argon2_error =
    NotPHC | MalformedPHC | UnsupportedAlgorithm string | UnsupportedVersion string
  | MalformedParameters string | MalformedParameter string | ParallelismRange nat
  | UnknownParameter string | ParametersRequired
  | MemoryRange nat | TimeRange nat | TooWeak | ThreadsRange nat | BadSalt | BadKey

definition TrimRight :: "string \<Rightarrow> char \<Rightarrow> string" where
  "TrimRight s c = rev (dropWhile (\<lambda>d. d = c) (rev s))"

definition decodeB64 :: "string \<Rightarrow> bytes option" where
  "decodeB64 s = decodeRaw64 stdAlphabet (TrimRight s CHR ''='')"

text \<open>The loop over the \<^verbatim>\<open>k=v\<close> parameters, with the keys seen so far.\<close>

fun argon2Params ::
    "string \<Rightarrow> string list \<Rightarrow> Argon2Params \<Rightarrow> string list \<Rightarrow> argon2_error + (Argon2Params \<times> string list)" where
  "argon2Params all [] p seen = Inr (p, seen)"
| "argon2Params all (kv # kvs) p seen =
     (case Cut kv CHR ''='' of (k, v, ok) \<Rightarrow>
        if \<not> ok \<or> k \<in> set seen then Inl (MalformedParameters all)
        else (case ParseUint v 32 of
            None \<Rightarrow> Inl (MalformedParameter kv)
          | Some n \<Rightarrow>
              if k = ''m'' then argon2Params all kvs (p\<lparr>ap_MemoryKiB := n\<rparr>) (k # seen)
              else if k = ''t'' then argon2Params all kvs (p\<lparr>ap_Time := n\<rparr>) (k # seen)
              else if k = ''p'' then
                (if n > 255 then Inl (ParallelismRange n)
                 else argon2Params all kvs (p\<lparr>ap_Threads := n\<rparr>) (k # seen))
              else Inl (UnknownParameter k)))"

definition argon2Bounds :: "Argon2Params \<Rightarrow> argon2_error option" where
  "argon2Bounds p =
     (if ap_MemoryKiB p < Argon2MinMemoryKiB \<or> ap_MemoryKiB p > Argon2MaxMemoryKiB
      then Some (MemoryRange (ap_MemoryKiB p))
      else if ap_Time p < 1 \<or> ap_Time p > Argon2MaxTime then Some (TimeRange (ap_Time p))
      else if ap_MemoryKiB p * ap_Time p < Argon2MinMemoryTimeKiB then Some TooWeak
      else if ap_Threads p < 1 \<or> ap_Threads p > Argon2MaxThreads then Some (ThreadsRange (ap_Threads p))
      else None)"

definition argon2Material :: "Argon2Params \<Rightarrow> string \<Rightarrow> string \<Rightarrow> argon2_error + Argon2Params" where
  "argon2Material p salt key =
     (case decodeB64 salt of None \<Rightarrow> Inl BadSalt
      | Some s \<Rightarrow> if length s < 8 then Inl BadSalt
          else (case decodeB64 key of None \<Rightarrow> Inl BadKey
            | Some k \<Rightarrow> if length k < 16 \<or> length k > 64 then Inl BadKey
                else Inr (p\<lparr>ap_Salt := s, ap_Key := k\<rparr>)))"

definition zeroArgon2 :: Argon2Params where
  "zeroArgon2 = \<lparr>ap_MemoryKiB = 0, ap_Time = 0, ap_Threads = 0, ap_Salt = [], ap_Key = []\<rparr>"

definition ParseArgon2id :: "string \<Rightarrow> argon2_error + Argon2Params" where
  "ParseArgon2id phc = (let parts = Split phc CHR ''$'' in
     if length parts \<noteq> 6 \<or> parts ! 0 \<noteq> [] then
       (if \<not> HasPrefix phc ''$'' then Inl NotPHC else Inl MalformedPHC)
     else if parts ! 1 \<noteq> ''argon2id'' then Inl (UnsupportedAlgorithm (parts ! 1))
     else if parts ! 2 \<noteq> ''v=19'' then Inl (UnsupportedVersion (parts ! 2))
     else (case argon2Params (parts ! 3) (Split (parts ! 3) CHR '','') zeroArgon2 [] of
         Inl e \<Rightarrow> Inl e
       | Inr (p, seen) \<Rightarrow>
           if \<not> (''m'' \<in> set seen \<and> ''t'' \<in> set seen \<and> ''p'' \<in> set seen) then Inl ParametersRequired
           else (case argon2Bounds p of Some e \<Rightarrow> Inl e
             | None \<Rightarrow> argon2Material p (parts ! 4) (parts ! 5))))"

text \<open>Arguments of \<open>idKey\<close>: password, salt, time, memory, threads, key length.\<close>

type_synonym argon2 = "bytes \<Rightarrow> bytes \<Rightarrow> nat \<Rightarrow> nat \<Rightarrow> nat \<Rightarrow> nat \<Rightarrow> bytes"

definition VerifyArgon2id :: "argon2 \<Rightarrow> string \<Rightarrow> string \<Rightarrow> argon2_error + bool" where
  "VerifyArgon2id idKey phc password = (case ParseArgon2id phc of Inl e \<Rightarrow> Inl e
     | Inr p \<Rightarrow> Inr (idKey password (ap_Salt p) (ap_Time p) (ap_MemoryKiB p) (ap_Threads p)
                      (length (ap_Key p)) = ap_Key p))"

definition HashArgon2id :: "argon2 \<Rightarrow> string \<Rightarrow> bytes \<Rightarrow> nat \<Rightarrow> nat \<Rightarrow> nat \<Rightarrow> string" where
  "HashArgon2id idKey password salt memoryKiB t threads =
     ''$argon2id$v=19$m='' @ nat_digits memoryKiB @ '',t='' @ nat_digits t @ '',p='' @ nat_digits threads
     @ ''$'' @ encode64 stdAlphabet [] salt
     @ ''$'' @ encode64 stdAlphabet [] (idKey password salt t memoryKiB threads 32)"

section \<open>Rotation\<close>

datatype duration_error = InvalidDuration string | NegativeDuration string

definition ParseDuration :: "(string \<Rightarrow> duration option) \<Rightarrow> string \<Rightarrow> duration_error + duration" where
  "ParseDuration goDuration s =
     (if s = [] then Inr 0
      else let parsed = (case CutSuffix s CHR ''d'' of
             (days, True) \<Rightarrow> map_option (\<lambda>n. int64 (int64 (int n * 24) * hour)) (ParseUint days 16)
           | (_, False) \<Rightarrow> goDuration s)
      in case parsed of None \<Rightarrow> Inl (InvalidDuration s)
         | Some d \<Rightarrow> if d < 0 then Inl (NegativeDuration s) else Inr d)"

abbreviation DefaultGracePeriod :: duration where "DefaultGracePeriod \<equiv> 24 * hour"
abbreviation MinRotationInterval :: duration where "MinRotationInterval \<equiv> hour"

datatype rotation_detail = BadDuration duration_error | TooShort

datatype RotationError = RotationError string string rotation_detail

definition rotationInterval ::
    "(string \<Rightarrow> duration option) \<Rightarrow> CredentialRotation \<Rightarrow> RotationError list \<times> duration" where
  "rotationInterval goDuration rot = (case ParseDuration goDuration (cr_Interval rot) of
     Inl e \<Rightarrow> ([RotationError ''interval'' (cr_Interval rot) (BadDuration e)], 0)
   | Inr d \<Rightarrow> if d \<noteq> 0 \<and> d < MinRotationInterval
       then ([RotationError ''interval'' (cr_Interval rot) TooShort], 0) else ([], d))"

definition rotationGrace ::
    "(string \<Rightarrow> duration option) \<Rightarrow> CredentialRotation \<Rightarrow> RotationError list \<times> duration" where
  "rotationGrace goDuration rot = (if cr_GracePeriod rot = [] then ([], DefaultGracePeriod)
     else case ParseDuration goDuration (cr_GracePeriod rot) of
       Inl e \<Rightarrow> ([RotationError ''gracePeriod'' (cr_GracePeriod rot) (BadDuration e)], DefaultGracePeriod)
     | Inr d \<Rightarrow> ([], d))"

text \<open>Interval and grace period, or the joined errors.\<close>

definition ParseRotation ::
    "(string \<Rightarrow> duration option) \<Rightarrow> CredentialRotation option \<Rightarrow> RotationError list + (duration \<times> duration)" where
  "ParseRotation goDuration rot = (case rot of None \<Rightarrow> Inr (0, DefaultGracePeriod)
     | Some r \<Rightarrow> (case (rotationInterval goDuration r, rotationGrace goDuration r) of
         ((e1, interval), (e2, grace)) \<Rightarrow>
           if e1 @ e2 \<noteq> [] then Inl (e1 @ e2) else Inr (interval, grace)))"

section \<open>Excluded namespaces\<close>

record Exclusions =
  ex_Patterns :: "string list"
  ex_ReleaseNamespace :: string

definition ParseExclusions :: "string \<Rightarrow> string \<Rightarrow> Exclusions" where
  "ParseExclusions lst releaseNamespace =
     \<lparr>ex_Patterns = filter (\<lambda>p. p \<noteq> []) (map TrimSpace (Split lst CHR '','')),
      ex_ReleaseNamespace = releaseNamespace\<rparr>"

definition exclusions_Validate :: "Exclusions \<Rightarrow> string option" where
  "exclusions_Validate e = List.find (\<lambda>p. Contains (TrimSuffix p ''*'') ''*'') (ex_Patterns e)"

definition patternExcludes :: "string \<Rightarrow> string \<Rightarrow> bool" where
  "patternExcludes ns p = (case CutSuffix p CHR ''*'' of
     (pre, True) \<Rightarrow> HasPrefix ns pre | (_, False) \<Rightarrow> ns = p)"

definition Excluded :: "Exclusions \<Rightarrow> string \<Rightarrow> bool" where
  "Excluded e ns =
     (if ex_ReleaseNamespace e \<noteq> [] \<and> ns = ex_ReleaseNamespace e then True
      else list_ex (patternExcludes ns) (ex_Patterns e))"

text \<open>Exact names and prefixes.\<close>

fun splitPatterns :: "string list \<Rightarrow> string list \<times> string list" where
  "splitPatterns [] = ([], [])"
| "splitPatterns (p # ps) = (case splitPatterns ps of (exact, pres) \<Rightarrow>
     (case CutSuffix p CHR ''*'' of (pre, True) \<Rightarrow> (exact, pre # pres)
                                  | (_, False) \<Rightarrow> (p # exact, pres)))"

definition GeneratedNameError :: "(string \<Rightarrow> string list) \<Rightarrow> string \<Rightarrow> string" where
  "GeneratedNameError labelErrs name = (if labelErrs name \<noteq> []
     then ''the name of a generated MailCredential becomes a label value of its Secret: ''
          @ Join (labelErrs name) ''; '' else [])"

section \<open>Lemmas\<close>

lemma ParseUsername_iff:
  "ParseUsername u = Some (ns, name) \<longleftrightarrow>
     u = Username name ns \<and> CHR ''.'' \<notin> set ns \<and> ns \<noteq> [] \<and> name \<noteq> []"
proof
  assume p: "ParseUsername u = Some (ns, name)"
  then obtain i where i: "LastIndexByte u CHR ''.'' = Some i" "i \<noteq> 0" "i \<noteq> length u - 1"
    "ns = drop (i + 1) u" "name = take i u"
    by (auto simp: ParseUsername_def split: option.splits if_splits)
  from LastIndexByte_split [OF i(1)] obtain l d
    where u: "u = l @ CHR ''.'' # d" "CHR ''.'' \<notin> set d" "length l = i" by blast
  then have "name = l" "ns = d" using i(4,5) by simp_all
  moreover have "d \<noteq> []" using i(3) u by auto
  moreover have "l \<noteq> []" using i(2) u(3) by auto
  ultimately show "u = Username name ns \<and> CHR ''.'' \<notin> set ns \<and> ns \<noteq> [] \<and> name \<noteq> []"
    using u by (simp add: Username_def)
next
  assume "u = Username name ns \<and> CHR ''.'' \<notin> set ns \<and> ns \<noteq> [] \<and> name \<noteq> []"
  then show "ParseUsername u = Some (ns, name)"
    by (simp add: ParseUsername_def Username_def LastIndexByte_append)
qed

lemma VerifyGenerated_Hash:
  assumes "length (sha p) = 32"
  shows "VerifyGenerated sha (HashGenerated sha p) q \<longleftrightarrow> sha q = sha p"
  using assms
  by (auto simp: VerifyGenerated_def HashGenerated_def IsGeneratedHash_def go_defs hexDecode_Encode)

lemma argon2Bounds_None:
  "argon2Bounds p = None \<longleftrightarrow> 7168 \<le> ap_MemoryKiB p \<and> ap_MemoryKiB p \<le> 65536 \<and>
     1 \<le> ap_Time p \<and> ap_Time p \<le> 10 \<and> 35840 \<le> ap_MemoryKiB p * ap_Time p \<and>
     1 \<le> ap_Threads p \<and> ap_Threads p \<le> 16"
  by (auto simp: argon2Bounds_def not_less Suc_le_eq)

lemma argon2Material_Inr:
  "argon2Material p s k = Inr q \<Longrightarrow> ap_MemoryKiB q = ap_MemoryKiB p \<and> ap_Time q = ap_Time p \<and>
     ap_Threads q = ap_Threads p \<and> 8 \<le> length (ap_Salt q) \<and> 16 \<le> length (ap_Key q) \<and> length (ap_Key q) \<le> 64"
  by (auto simp: argon2Material_def not_less split: option.splits if_splits)

lemma ParseArgon2id_Inr:
  assumes "ParseArgon2id phc = Inr q"
  shows "argon2Bounds q = None" "8 \<le> length (ap_Salt q)" "16 \<le> length (ap_Key q)" "length (ap_Key q) \<le> 64"
    "HasPrefix phc ''$''"
proof -
  obtain p s k where p: "argon2Bounds p = None" "argon2Material p s k = Inr q"
    and parts: "length (Split phc CHR ''$'') = 6" "Split phc CHR ''$'' ! 0 = []"
    using assms by (auto simp: ParseArgon2id_def Let_def split: if_splits sum.splits option.splits)
  from argon2Material_Inr [OF p(2)] p(1)
  show "argon2Bounds q = None" "8 \<le> length (ap_Salt q)" "16 \<le> length (ap_Key q)" "length (ap_Key q) \<le> 64"
    by (simp_all add: argon2Bounds_None)
  have "phc \<noteq> []" using parts(1) by auto
  moreover have "hd phc = CHR ''$''"
    using parts(2) calculation by (cases phc) (auto split: if_splits list.splits)
  ultimately show "HasPrefix phc ''$''" by (cases phc) (auto simp: go_defs)
qed

lemma Split_digits:
  "CHR '','' \<notin> set (nat_digits n)" "CHR ''$'' \<notin> set (nat_digits n)" "CHR ''='' \<notin> set (nat_digits n)"
  using nat_digits_digits [of n] by (auto simp: list_all_iff go_defs)

lemma encode64_set: "alphabet64 al \<Longrightarrow> set (encode64 al [] b) \<subseteq> set al"
proof (induction al "[] :: string" b rule: encode64.induct)
  case (1 al)
  then show ?case by simp
qed (auto simp: alphabet64_def byte_bounds intro!: nth_mem)

lemma decodeB64_encode: "decodeB64 (encode64 stdAlphabet [] b) = Some b"
proof -
  let ?e = "encode64 stdAlphabet [] b"
  have "CHR ''='' \<notin> set ?e"
    using encode64_set [OF alphabet64_std] alphabet64_std by (auto simp: alphabet64_def)
  then have "dropWhile (\<lambda>d. d = CHR ''='') (rev ?e) = rev ?e"
    by (cases "rev ?e") (auto dest: arg_cong [where f = set])
  then have "TrimRight ?e CHR ''='' = ?e" by (simp add: TrimRight_def)
  then show ?thesis by (simp add: decodeB64_def decode_encode_raw64 alphabet64_std)
qed

lemma ParseRotation_bounds:
  assumes "ParseRotation goDuration rot = Inr (interval, grace)"
  shows "(interval = 0 \<or> hour \<le> interval) \<and> 0 \<le> grace"
proof -
  have "0 \<le> d" if "ParseDuration goDuration s = Inr d" for s d
    using that by (auto simp: ParseDuration_def Let_def split: if_splits option.splits prod.splits bool.splits)
  then show ?thesis
    using assms
    by (auto simp: ParseRotation_def rotationInterval_def rotationGrace_def not_less
        split: option.splits if_splits sum.splits)
qed

lemma splitPatterns_excludes:
  "list_ex (patternExcludes ns) ps \<longleftrightarrow> ns \<in> set (fst (splitPatterns ps)) \<or>
     list_ex (HasPrefix ns) (snd (splitPatterns ps))"
  by (induction ps) (auto simp: patternExcludes_def CutSuffix_def split: prod.splits)

lemma Split_comma_params:
  "Split (''m='' @ nat_digits m @ '',t='' @ nat_digits t @ '',p='' @ nat_digits p) CHR '','' =
     [''m='' @ nat_digits m, ''t='' @ nat_digits t, ''p='' @ nat_digits p]"
proof -
  have "Split ((''m='' @ nat_digits m) @ CHR '','' # (''t='' @ nat_digits t) @ CHR '','' # ''p='' @ nat_digits p) CHR '',''
      = [''m='' @ nat_digits m, ''t='' @ nat_digits t, ''p='' @ nat_digits p]"
    by (subst Split_append, simp add: Split_digits, subst Split_append, simp add: Split_digits,
        subst Split_id) (simp_all add: Split_digits)
  then show ?thesis by simp
qed

lemma argon2Params_digits:
  assumes "m < 2 ^ 32" "t < 2 ^ 32" "p < 256"
  shows "argon2Params all [''m='' @ nat_digits m, ''t='' @ nat_digits t, ''p='' @ nat_digits p] zeroArgon2 [] =
    Inr (zeroArgon2\<lparr>ap_MemoryKiB := m, ap_Time := t, ap_Threads := p\<rparr>, [''p'', ''t'', ''m''])"
proof -
  have cut: "Cut (k # CHR ''='' # v) CHR ''='' = ([k], v, True)" if "k \<noteq> CHR ''=''" for k v
    using Cut_append [of "CHR ''=''" "[k]" v] that by simp
  show ?thesis using assms by (simp add: cut ParseUint_digits)
qed

lemma HashArgon2id_parts:
  assumes "alphabet64 stdAlphabet"
  shows "Split (HashArgon2id idKey pw salt m t p) CHR ''$'' =
    [[], ''argon2id'', ''v=19'', ''m='' @ nat_digits m @ '',t='' @ nat_digits t @ '',p='' @ nat_digits p,
     encode64 stdAlphabet [] salt, encode64 stdAlphabet [] (idKey pw salt t m p 32)]"
proof -
  have e: "CHR ''$'' \<notin> set (encode64 stdAlphabet [] b)" for b
    using encode64_set [OF assms, of b] by (auto simp: stdAlphabet_def)
  have h: "HashArgon2id idKey pw salt m t p = [] @ CHR ''$'' # ''argon2id'' @ CHR ''$'' # ''v=19'' @
      CHR ''$'' # (''m='' @ nat_digits m @ '',t='' @ nat_digits t @ '',p='' @ nat_digits p) @
      CHR ''$'' # encode64 stdAlphabet [] salt @
      CHR ''$'' # encode64 stdAlphabet [] (idKey pw salt t m p 32)"
    by (simp add: HashArgon2id_def)
  show ?thesis unfolding h
    by (subst Split_append, simp add: Split_digits e)+ (simp add: Split_id e)
qed

lemma ParseArgon2id_Hash:
  assumes "7168 \<le> m" "m \<le> 65536" "1 \<le> t" "t \<le> 10" "35840 \<le> m * t" "1 \<le> p" "p \<le> 16"
    "8 \<le> length salt" "length (idKey pw salt t m p 32) = 32"
  shows "ParseArgon2id (HashArgon2id idKey pw salt m t p) = Inr \<lparr>ap_MemoryKiB = m, ap_Time = t,
      ap_Threads = p, ap_Salt = salt, ap_Key = idKey pw salt t m p 32\<rparr>"
proof -
  let ?ps = "''m='' @ nat_digits m @ '',t='' @ nat_digits t @ '',p='' @ nat_digits p"
  let ?p = "zeroArgon2\<lparr>ap_MemoryKiB := m, ap_Time := t, ap_Threads := p\<rparr>"
  have ps: "argon2Params ?ps (Split ?ps CHR '','') zeroArgon2 [] = Inr (?p, [''p'', ''t'', ''m''])"
    unfolding Split_comma_params using assms by (intro argon2Params_digits) simp_all
  have b: "argon2Bounds ?p = None" using assms by (simp add: argon2Bounds_None)
  have "ParseArgon2id (HashArgon2id idKey pw salt m t p) =
      argon2Material ?p (encode64 stdAlphabet [] salt) (encode64 stdAlphabet [] (idKey pw salt t m p 32))"
    unfolding ParseArgon2id_def Let_def HashArgon2id_parts [OF alphabet64_std]
    by (simp add: ps [simplified] b)
  also have "\<dots> = Inr \<lparr>ap_MemoryKiB = m, ap_Time = t, ap_Threads = p, ap_Salt = salt,
      ap_Key = idKey pw salt t m p 32\<rparr>"
    using assms by (simp add: argon2Material_def decodeB64_encode zeroArgon2_def)
  finally show ?thesis .
qed

section \<open>Properties\<close>

text \<open>The username of a credential names it uniquely: parsing it gives back exactly its
  namespace and name when the namespace has no dot, and everything that parses is such a
  username.\<close>

theorem Username_roundtrip:
  "(ParseUsername u = Some (ns, name) \<longleftrightarrow>
     u = Username name ns \<and> CHR ''.'' \<notin> set ns \<and> ns \<noteq> [] \<and> name \<noteq> [])"
  by (rule ParseUsername_iff)

text \<open>A hash that \<^verbatim>\<open>ParseArgon2id\<close> accepts costs one login attempt at most 64 MiB, 10 passes and 16
  threads and is at least as strong as the lower bound; and the hash that \<^verbatim>\<open>HashArgon2id\<close> prints
  for parameters within the bounds is accepted, parses back to them and verifies exactly the
  passwords with the same argon2 key.\<close>

theorem argon2id_bounds_roundtrip:
  assumes phc: "ParseArgon2id phc = Inr q"
    and hash: "7168 \<le> m" "m \<le> 65536" "1 \<le> t" "t \<le> 10" "35840 \<le> m * t" "1 \<le> p" "p \<le> 16"
      "8 \<le> length salt" "length (idKey pw salt t m p 32) = 32"
  shows "ap_MemoryKiB q \<le> 64 * 1024 \<and> ap_Time q \<le> 10 \<and> ap_Threads q \<le> 16 \<and>
      35 * 1024 \<le> ap_MemoryKiB q * ap_Time q \<and> 8 \<le> length (ap_Salt q) \<and> length (ap_Key q) \<le> 64 \<and>
    ParseArgon2id (HashArgon2id idKey pw salt m t p) = Inr \<lparr>ap_MemoryKiB = m, ap_Time = t,
      ap_Threads = p, ap_Salt = salt, ap_Key = idKey pw salt t m p 32\<rparr> \<and>
    VerifyArgon2id idKey (HashArgon2id idKey pw salt m t p) pw' =
      Inr (idKey pw' salt t m p 32 = idKey pw salt t m p 32)"
  using ParseArgon2id_Inr [OF phc] hash(9) ParseArgon2id_Hash [of m t p salt idKey pw, OF hash]
  by (simp add: VerifyArgon2id_def argon2Bounds_None)

definition sample_idKey :: argon2 where
  "sample_idKey pw salt t m p n = take n (pw @ salt @ replicate n CHR ''k'')"

theorem argon2id_bounds_roundtrip_witness:
  "VerifyArgon2id sample_idKey (HashArgon2id sample_idKey ''pw'' ''saltsalt'' 19456 2 1) ''pw'' = Inr True"
proof -
  let ?phc = "HashArgon2id sample_idKey ''pw'' ''saltsalt'' 19456 2 1"
  have "ParseArgon2id ?phc = Inr \<lparr>ap_MemoryKiB = 19456, ap_Time = 2, ap_Threads = 1,
      ap_Salt = ''saltsalt'', ap_Key = sample_idKey ''pw'' ''saltsalt'' 2 19456 1 32\<rparr>"
    by (rule ParseArgon2id_Hash) (simp_all add: sample_idKey_def)
  from argon2id_bounds_roundtrip [OF this, of 19456 2 1 "''saltsalt''" sample_idKey "''pw''" "''pw''"]
  show ?thesis by (simp add: sample_idKey_def)
qed

end
