(* ===== verification/Credential_Verifier.thy ===== *)
theory Credential_Verifier
  imports Credential
begin

text \<open>
  \<^verbatim>\<open>internal/credential/verifier.go\<close>: checking an SMTP login against the MailCredential it
  names, and re-checking an open session.  The object store is the argument \<open>get\<close>.  The cache
  of successful argon2id checks is the LRU cache of an external library: its operations are
  the record \<open>lru\<close>, of which \<open>lru_ok\<close> states the documented behaviour (a lookup
  returns only what was added under that key).  Shown: who can log in, and that an open session
  ends when its password or its object is no longer good.
\<close>

section \<open>Data\<close>

datatype verify_error = ErrInvalid | ErrContext | ErrLookup string

record Result =
  r_Namespace :: string
  r_ServiceAccount :: string
  r_Username :: string
  r_Previous :: bool
  r_uid :: string
  r_hash :: string

datatype get_error = GetNotFound | GetFailed string

type_synonym credential_reader = "string \<Rightarrow> string \<Rightarrow> get_error + MailCredential"

record 'c lru =
  lru_Get :: "'c \<Rightarrow> bytes \<Rightarrow> 'c \<times> time option"
  lru_Add :: "'c \<Rightarrow> bytes \<Rightarrow> time \<Rightarrow> 'c"

definition lru_ok :: "'c lru \<Rightarrow> bool" where
  "lru_ok L \<longleftrightarrow>
     (\<forall>c k k' t. snd (lru_Get L (fst (lru_Get L c k)) k') = Some t \<longrightarrow> snd (lru_Get L c k') = Some t) \<and>
     (\<forall>c k v k' t. snd (lru_Get L (lru_Add L c k v) k') = Some t \<longrightarrow>
        k' = k \<and> t = v \<or> snd (lru_Get L c k') = Some t)"

section \<open>Usable credentials\<close>

text \<open>\<^verbatim>\<open>meta.FindStatusCondition\<close>: the condition of a type.\<close>

definition FindStatusCondition :: "Condition list \<Rightarrow> string \<Rightarrow> Condition option" where
  "FindStatusCondition conds t = List.find (\<lambda>c. cond_Type c = t) conds"

definition Usable :: "MailCredential \<Rightarrow> bool" where
  "Usable mc =
     (case FindStatusCondition (mst_Conditions (mc_Status mc)) ''Ready'' of
        None \<Rightarrow> False
      | Some ready \<Rightarrow>
          if cond_Status ready \<noteq> ''True'' \<or>
             mst_ServiceAccountName (mc_Status mc) \<noteq> mcs_ServiceAccountName (mc_Spec mc) then False
          else if \<not> Generated mc then
            (case mst_Current (mc_Status mc) of None \<Rightarrow> False
             | Some cur \<Rightarrow> ch_Hash cur = mcs_PasswordHash (mc_Spec mc))
          else True)"

section \<open>Login\<close>

definition Lookup :: "credential_reader \<Rightarrow> string \<Rightarrow> verify_error + MailCredential" where
  "Lookup get username = (case ParseUsername username of
     None \<Rightarrow> Inl ErrInvalid
   | Some (ns, name) \<Rightarrow> (case get ns name of
       Inl GetNotFound \<Rightarrow> Inl ErrInvalid
     | Inl (GetFailed e) \<Rightarrow> Inl (ErrLookup e)
     | Inr mc \<Rightarrow> if \<not> Usable mc \<or> mst_Username (mc_Status mc) \<noteq> username then Inl ErrInvalid else Inr mc))"

abbreviation argonCacheTTL :: duration where "argonCacheTTL \<equiv> 5 * minute"

definition argonKey :: "(bytes \<Rightarrow> bytes) \<Rightarrow> string \<Rightarrow> string \<Rightarrow> string \<Rightarrow> bytes" where
  "argonKey sha username phc password = sha (username @ NUL # phc @ NUL # password)"

text \<open>
  \<open>slot\<close> tells whether one of the bounded slots became free before the context ended.
\<close>

definition verifyArgon2id ::
    "(bytes \<Rightarrow> bytes) \<Rightarrow> argon2 \<Rightarrow> 'c lru \<Rightarrow> 'c \<Rightarrow> time \<Rightarrow> bool \<Rightarrow> string \<Rightarrow> string \<Rightarrow> string
     \<Rightarrow> 'c \<times> (verify_error + bool)" where
  "verifyArgon2id sha idKey L cache now slot username phc password =
     (let key = argonKey sha username phc password in
      case lru_Get L cache key of (cache1, hit) \<Rightarrow>
        if (case hit of Some exp \<Rightarrow> now < exp | None \<Rightarrow> False) then (cache1, Inr True)
        else if \<not> slot then (cache1, Inl ErrContext)
        else (case VerifyArgon2id idKey phc password of
            Inl _ \<Rightarrow> (cache1, Inr False)
          | Inr ok \<Rightarrow>
              (if ok then lru_Add L cache1 key (now + argonCacheTTL) else cache1, Inr ok)))"

definition checkGenerated ::
    "(bytes \<Rightarrow> bytes) \<Rightarrow> time \<Rightarrow> MailCredential \<Rightarrow> string \<Rightarrow> (string \<times> bool) option" where
  "checkGenerated sha now mc password =
     (if (case mst_Current (mc_Status mc) of None \<Rightarrow> False | Some cur \<Rightarrow> VerifyGenerated sha (ch_Hash cur) password)
      then Some (ch_Hash (the (mst_Current (mc_Status mc))), False)
      else (case mst_Previous (mc_Status mc) of None \<Rightarrow> None
        | Some prev \<Rightarrow> if now < pch_ValidUntil prev \<and> VerifyGenerated sha (pch_Hash prev) password
            then Some (pch_Hash prev, True) else None))"

definition Check ::
    "(bytes \<Rightarrow> bytes) \<Rightarrow> argon2 \<Rightarrow> 'c lru \<Rightarrow> 'c \<Rightarrow> time \<Rightarrow> bool \<Rightarrow> MailCredential \<Rightarrow> string
     \<Rightarrow> 'c \<times> (verify_error + Result)" where
  "Check sha idKey L cache now slot mc password =
     (if password = [] then (cache, Inl ErrInvalid)
      else let res = \<lparr>r_Namespace = mc_Namespace mc,
                 r_ServiceAccount = mcs_ServiceAccountName (mc_Spec mc),
                 r_Username = mst_Username (mc_Status mc), r_Previous = False,
                 r_uid = om_UID (mc_Meta mc), r_hash = []\<rparr> in
        if \<not> Generated mc then
          (case verifyArgon2id sha idKey L cache now slot (r_Username res)
                  (mcs_PasswordHash (mc_Spec mc)) password of
             (cache', Inl e) \<Rightarrow> (cache', Inl e)
           | (cache', Inr ok) \<Rightarrow>
               if \<not> ok then (cache', Inl ErrInvalid)
               else (cache', Inr (res\<lparr>r_hash := mcs_PasswordHash (mc_Spec mc)\<rparr>)))
        else (case checkGenerated sha now mc password of
             None \<Rightarrow> (cache, Inl ErrInvalid)
           | Some (h, previous) \<Rightarrow> (cache, Inr (res\<lparr>r_hash := h, r_Previous := previous\<rparr>))))"

definition Verify ::
    "(bytes \<Rightarrow> bytes) \<Rightarrow> argon2 \<Rightarrow> 'c lru \<Rightarrow> 'c \<Rightarrow> time \<Rightarrow> bool \<Rightarrow> credential_reader \<Rightarrow> string \<Rightarrow> string
     \<Rightarrow> 'c \<times> (verify_error + Result)" where
  "Verify sha idKey L cache now slot get username password = (case Lookup get username of
     Inl e \<Rightarrow> (cache, Inl e) | Inr mc \<Rightarrow> Check sha idKey L cache now slot mc password)"

section \<open>Open sessions\<close>

definition credNameOf :: "string \<Rightarrow> string" where
  "credNameOf username = (case ParseUsername username of Some (_, name) \<Rightarrow> name | None \<Rightarrow> [])"

definition StillValid :: "credential_reader \<Rightarrow> time \<Rightarrow> Result \<Rightarrow> verify_error + bool" where
  "StillValid get now r = (case get (r_Namespace r) (credNameOf (r_Username r)) of
     Inl GetNotFound \<Rightarrow> Inl ErrInvalid
   | Inl (GetFailed e) \<Rightarrow> Inl (ErrLookup e)
   | Inr mc \<Rightarrow>
       if om_UID (mc_Meta mc) \<noteq> r_uid r \<or> \<not> Usable mc \<or>
          mcs_ServiceAccountName (mc_Spec mc) \<noteq> r_ServiceAccount r then Inl ErrInvalid
       else if \<not> Generated mc then
         (if mcs_PasswordHash (mc_Spec mc) = r_hash r then Inr False else Inl ErrInvalid)
       else if \<not> IsGeneratedHash (r_hash r) then Inl ErrInvalid
       else if (case mst_Current (mc_Status mc) of Some cur \<Rightarrow> ch_Hash cur = r_hash r | None \<Rightarrow> False)
         then Inr False
       else if (case mst_Previous (mc_Status mc) of
                  Some prev \<Rightarrow> pch_Hash prev = r_hash r \<and> now < pch_ValidUntil prev | None \<Rightarrow> False)
         then Inr True
       else Inl ErrInvalid)"

section \<open>The cache of successful checks\<close>

text \<open>
  A login is a username, a password hash and a password.  The cache is used by a set \<open>T\<close> of logins; what is
  assumed of SHA-256 is that it has no collision among the keys of these logins, whose usernames and hashes have
  no NUL byte.
\<close>

type_synonym login = "string \<times> string \<times> string"

definition loginText :: "login \<Rightarrow> bytes" where
  "loginText l = (case l of (u, phc, pw) \<Rightarrow> u @ NUL # phc @ NUL # pw)"

definition logins_ok :: "(bytes \<Rightarrow> bytes) \<Rightarrow> login set \<Rightarrow> bool" where
  "logins_ok sha T \<longleftrightarrow> (\<forall>(u, phc, pw)\<in>T. NUL \<notin> set u \<and> NUL \<notin> set phc) \<and> inj_on sha (loginText ` T)"

text \<open>The caches that the logins of \<open>T\<close> leave, from an empty one.\<close>

inductive argon_runs :: "(bytes \<Rightarrow> bytes) \<Rightarrow> argon2 \<Rightarrow> 'c lru \<Rightarrow> login set \<Rightarrow> 'c \<Rightarrow> bool" for sha idKey L T where
  start: "(\<And>k. snd (lru_Get L c k) = None) \<Longrightarrow> argon_runs sha idKey L T c"
| login: "argon_runs sha idKey L T c \<Longrightarrow> (u, phc, pw) \<in> T \<Longrightarrow>
    argon_runs sha idKey L T (fst (verifyArgon2id sha idKey L c now slot u phc pw))"

text \<open>Every cached key stands for a login that argon2id accepted.\<close>

definition cache_sound :: "(bytes \<Rightarrow> bytes) \<Rightarrow> argon2 \<Rightarrow> 'c lru \<Rightarrow> login set \<Rightarrow> 'c \<Rightarrow> bool" where
  "cache_sound sha idKey L T c \<longleftrightarrow> (\<forall>k t. snd (lru_Get L c k) = Some t \<longrightarrow>
     (\<exists>u phc pw. (u, phc, pw) \<in> T \<and> k = argonKey sha u phc pw \<and> VerifyArgon2id idKey phc pw = Inr True))"

lemma argonKey_inj:
  assumes "logins_ok sha T" "(u, phc, pw) \<in> T" "(u', phc', pw') \<in> T" "argonKey sha u phc pw = argonKey sha u' phc' pw'"
  shows "u = u' \<and> phc = phc' \<and> pw = pw'"
proof -
  have n: "NUL \<notin> set u" "NUL \<notin> set u'" "NUL \<notin> set phc" "NUL \<notin> set phc'"
    using assms(1-3) by (auto simp: logins_ok_def)
  have "loginText (u, phc, pw) = loginText (u', phc', pw')"
  proof (rule inj_onD [of sha "loginText ` T"])
    show "inj_on sha (loginText ` T)" using assms(1) by (simp add: logins_ok_def)
    show "sha (loginText (u, phc, pw)) = sha (loginText (u', phc', pw'))"
      using assms(4) by (simp add: argonKey_def loginText_def)
  qed (use assms(2,3) in \<open>blast intro: imageI\<close>)+
  then have eq: "u @ NUL # phc @ NUL # pw = u' @ NUL # phc' @ NUL # pw'" by (simp add: loginText_def)
  have split: "a = c \<and> b = d" if "a @ NUL # b = c @ NUL # d" "NUL \<notin> set a" "NUL \<notin> set c" for a b c d
    using that by (metis Cut_append prod.inject)
  from split [OF eq] n have "u = u'" "phc @ NUL # pw = phc' @ NUL # pw'" by simp_all
  with split [OF this(2)] n show ?thesis by simp
qed

lemma cache_sound_Get:
  "lru_ok L \<Longrightarrow> cache_sound sha idKey L T c \<Longrightarrow> cache_sound sha idKey L T (fst (lru_Get L c k))"
  unfolding cache_sound_def lru_ok_def by meson

lemma cache_sound_Add:
  assumes "lru_ok L" "cache_sound sha idKey L T c" "(u, phc, pw) \<in> T" "VerifyArgon2id idKey phc pw = Inr True"
  shows "cache_sound sha idKey L T (lru_Add L c (argonKey sha u phc pw) t)"
proof -
  have "\<exists>u' phc' pw'. (u', phc', pw') \<in> T \<and> k' = argonKey sha u' phc' pw' \<and> VerifyArgon2id idKey phc' pw' = Inr True"
    if "snd (lru_Get L (lru_Add L c (argonKey sha u phc pw) t) k') = Some t'" for k' t'
  proof -
    have "k' = argonKey sha u phc pw \<or> snd (lru_Get L c k') = Some t'"
      using assms(1) that unfolding lru_ok_def by blast
    then show ?thesis using assms(2-4) unfolding cache_sound_def by blast
  qed
  then show ?thesis unfolding cache_sound_def by blast
qed

lemma verifyArgon2id_sound:
  assumes "lru_ok L" "cache_sound sha idKey L T c" "(u, phc, pw) \<in> T"
  shows "cache_sound sha idKey L T (fst (verifyArgon2id sha idKey L c now slot u phc pw))"
proof -
  obtain c1 hit where g: "lru_Get L c (argonKey sha u phc pw) = (c1, hit)" by force
  have c1: "cache_sound sha idKey L T c1"
    using cache_sound_Get [OF assms(1,2), of "argonKey sha u phc pw"] g by simp
  show ?thesis
    using c1 cache_sound_Add [OF assms(1) c1 assms(3)] g
    by (auto simp: verifyArgon2id_def Let_def split: sum.splits option.splits)
qed

lemma argon_runs_sound: "argon_runs sha idKey L T c \<Longrightarrow> lru_ok L \<Longrightarrow> cache_sound sha idKey L T c"
proof (induction rule: argon_runs.induct)
  case (start c)
  then show ?case by (simp add: cache_sound_def)
next
  case (login c u phc pw now slot)
  then show ?case by (intro verifyArgon2id_sound) simp_all
qed

lemma verifyArgon2id_exact:
  assumes "logins_ok sha T" "cache_sound sha idKey L T c" "(u, phc, pw) \<in> T"
  shows "snd (verifyArgon2id sha idKey L c now True u phc pw) = Inr (VerifyArgon2id idKey phc pw = Inr True)"
    and "snd (verifyArgon2id sha idKey L c now slot u phc pw) = Inr True \<Longrightarrow> VerifyArgon2id idKey phc pw = Inr True"
proof -
  have hit: "VerifyArgon2id idKey phc pw = Inr True" if g: "snd (lru_Get L c (argonKey sha u phc pw)) = Some t" for t
  proof -
    obtain u' phc' pw' where "(u', phc', pw') \<in> T" "argonKey sha u phc pw = argonKey sha u' phc' pw'"
      "VerifyArgon2id idKey phc' pw' = Inr True"
      using assms(2) g unfolding cache_sound_def by blast
    then show ?thesis using argonKey_inj [OF assms(1,3)] by metis
  qed
  show "snd (verifyArgon2id sha idKey L c now True u phc pw) = Inr (VerifyArgon2id idKey phc pw = Inr True)"
    using hit by (cases "snd (lru_Get L c (argonKey sha u phc pw))")
      (auto simp: verifyArgon2id_def Let_def split: sum.splits prod.splits)
  show "VerifyArgon2id idKey phc pw = Inr True" if "snd (verifyArgon2id sha idKey L c now slot u phc pw) = Inr True"
    using hit that by (cases "snd (lru_Get L c (argonKey sha u phc pw))")
      (auto simp: verifyArgon2id_def Let_def split: sum.splits prod.splits if_splits)
qed

text \<open>A generated hash is determined by the password that verifies against it, up to the case of
  its digits.\<close>

lemma VerifyGenerated_prefix: "VerifyGenerated sha h pw \<Longrightarrow> IsGeneratedHash h"
  by (simp add: VerifyGenerated_def split: if_splits)

lemma argon2_not_generated: "VerifyArgon2id idKey h pw = Inr b \<Longrightarrow> \<not> IsGeneratedHash h"
proof
  assume "VerifyArgon2id idKey h pw = Inr b" "IsGeneratedHash h"
  then obtain q where "ParseArgon2id h = Inr q" by (auto simp: VerifyArgon2id_def split: sum.splits)
  from ParseArgon2id_Inr(5) [OF this] \<open>IsGeneratedHash h\<close> show False
    by (cases h) (simp_all add: IsGeneratedHash_def sha256Prefix_def go_defs)
qed

text \<open>What a credential object answers to a password: the hash it matches and whether that is the previous one.\<close>

definition matches :: "(bytes \<Rightarrow> bytes) \<Rightarrow> argon2 \<Rightarrow> time \<Rightarrow> MailCredential \<Rightarrow> string \<Rightarrow> string \<Rightarrow> bool \<Rightarrow> bool" where
  "matches sha idKey now mc pw h previous \<longleftrightarrow>
     (if Generated mc then
        (if \<exists>cur. mst_Current (mc_Status mc) = Some cur \<and> VerifyGenerated sha (ch_Hash cur) pw
         then \<not> previous \<and> (\<exists>cur. mst_Current (mc_Status mc) = Some cur \<and> h = ch_Hash cur)
         else previous \<and> (\<exists>prev. mst_Previous (mc_Status mc) = Some prev \<and> h = pch_Hash prev \<and>
           now < pch_ValidUntil prev \<and> VerifyGenerated sha (pch_Hash prev) pw))
      else \<not> previous \<and> h = mcs_PasswordHash (mc_Spec mc) \<and> VerifyArgon2id idKey h pw = Inr True)"

definition describes :: "MailCredential \<Rightarrow> Result \<Rightarrow> bool" where
  "describes mc r \<longleftrightarrow> r_Namespace r = mc_Namespace mc \<and> r_ServiceAccount r = mcs_ServiceAccountName (mc_Spec mc) \<and>
     r_Username r = mst_Username (mc_Status mc) \<and> r_uid r = om_UID (mc_Meta mc)"

definition loginAllowed ::
    "(bytes \<Rightarrow> bytes) \<Rightarrow> argon2 \<Rightarrow> time \<Rightarrow> credential_reader \<Rightarrow> string \<Rightarrow> string \<Rightarrow> Result \<Rightarrow> bool" where
  "loginAllowed sha idKey now get username pw r \<longleftrightarrow> pw \<noteq> [] \<and>
     (\<exists>ns name mc. ParseUsername username = Some (ns, name) \<and> get ns name = Inr mc \<and> Usable mc \<and>
        mst_Username (mc_Status mc) = username \<and> describes mc r \<and> matches sha idKey now mc pw (r_hash r) (r_Previous r))"

lemma checkGenerated_matches:
  "Generated mc \<Longrightarrow> checkGenerated sha now mc pw = Some (h, previous) \<longleftrightarrow> matches sha idKey now mc pw h previous"
  by (auto simp: checkGenerated_def matches_def split: option.splits if_splits)

lemma Result_eq: "r = r' \<longleftrightarrow> r_Namespace r = r_Namespace r' \<and> r_ServiceAccount r = r_ServiceAccount r' \<and>
    r_Username r = r_Username r' \<and> r_Previous r = r_Previous r' \<and> r_uid r = r_uid r' \<and> r_hash r = r_hash r'"
  for r r' :: Result
  by (cases r; cases r') auto

lemma Check_Generated:
  assumes "Generated mc"
  shows "snd (Check sha idKey L c now slot mc pw) = Inr r \<longleftrightarrow>
    pw \<noteq> [] \<and> describes mc r \<and> matches sha idKey now mc pw (r_hash r) (r_Previous r)"
  using assms checkGenerated_matches [OF assms, of sha now pw _ _ idKey, symmetric]
  by (auto simp: Check_def describes_def Result_eq split: option.splits)

lemma Check_Argon:
  assumes "\<not> Generated mc"
  shows "snd (Check sha idKey L c now slot mc pw) = Inr r \<longleftrightarrow> pw \<noteq> [] \<and> describes mc r \<and> \<not> r_Previous r \<and>
    r_hash r = mcs_PasswordHash (mc_Spec mc) \<and>
    snd (verifyArgon2id sha idKey L c now slot (mst_Username (mc_Status mc)) (mcs_PasswordHash (mc_Spec mc)) pw) = Inr True"
  using assms by (auto simp: Check_def describes_def Result_eq Let_def split: sum.splits prod.splits if_splits)

lemma Check_exact:
  assumes "logins_ok sha T" "lru_ok L" "argon_runs sha idKey L T c"
    and "\<not> Generated mc \<Longrightarrow> (mst_Username (mc_Status mc), mcs_PasswordHash (mc_Spec mc), pw) \<in> T"
  shows "snd (Check sha idKey L c now slot mc pw) = Inr r \<Longrightarrow>
      pw \<noteq> [] \<and> describes mc r \<and> matches sha idKey now mc pw (r_hash r) (r_Previous r)"
    and "snd (Check sha idKey L c now True mc pw) = Inr r \<longleftrightarrow>
      pw \<noteq> [] \<and> describes mc r \<and> matches sha idKey now mc pw (r_hash r) (r_Previous r)"
proof -
  note e = verifyArgon2id_exact [OF assms(1) argon_runs_sound [OF assms(3,2)] assms(4)]
  show "pw \<noteq> [] \<and> describes mc r \<and> matches sha idKey now mc pw (r_hash r) (r_Previous r)"
    if "snd (Check sha idKey L c now slot mc pw) = Inr r"
  proof (cases "Generated mc")
    case True
    then show ?thesis using that unfolding Check_Generated [OF True] by simp
  next
    case False
    then show ?thesis using that e(2) [OF False, of now slot] unfolding Check_Argon [OF False]
      by (auto simp: matches_def)
  qed
  show "snd (Check sha idKey L c now True mc pw) = Inr r \<longleftrightarrow>
      pw \<noteq> [] \<and> describes mc r \<and> matches sha idKey now mc pw (r_hash r) (r_Previous r)"
  proof (cases "Generated mc")
    case True
    then show ?thesis unfolding Check_Generated [OF True] by simp
  next
    case False
    then show ?thesis using e(1) [OF False, of now] unfolding Check_Argon [OF False]
      by (auto simp: matches_def)
  qed
qed

lemma matches_proven:
  "matches sha idKey now mc pw h previous \<Longrightarrow> VerifyArgon2id idKey h pw = Inr True \<or> VerifyGenerated sha h pw"
  by (auto simp: matches_def split: if_splits)

section \<open>Properties\<close>

text \<open>The cache of argon2id checks does not change who can log in: if SHA-256 has no collision among
  the keys of the logins that used it, a login with the cache that earlier ones filled has the result of the plain
  argon2id check.\<close>

theorem argon_cache_transparent:
  assumes "logins_ok sha T" "lru_ok L" "argon_runs sha idKey L T c" "(u, phc, pw) \<in> T"
  shows "snd (verifyArgon2id sha idKey L c now True u phc pw) =
      Inr (case VerifyArgon2id idKey phc pw of Inl e \<Rightarrow> False | Inr ok \<Rightarrow> ok)"
  using verifyArgon2id_exact(1) [OF assms(1) argon_runs_sound [OF assms(3,2)] assms(4)]
  by (auto split: sum.split)

text \<open>C19. Revocation ends open sessions: a session that \<^verbatim>\<open>StillValid\<close> keeps alive still has the password it
  logged in with.  The credential object is the same one, is Ready for the same ServiceAccount, and
  that password verifies against its hash: a generated one as the current password or, exactly if the session
  is reported so, as the previous one within its grace period; otherwise the hash given in the object, with
  argon2id (or, should the object hold a generated hash there, as that).  Assumed: the LRU
  library returns only what was added, the logins \<open>T\<close> that used the cache have no NUL in username and hash,
  and SHA-256 has no collision among their cache keys.\<close>

theorem StillValid_could_login:
  assumes "logins_ok sha T" "lru_ok L" "argon_runs sha idKey L T c"
    and "\<not> Generated mc \<Longrightarrow> (mst_Username (mc_Status mc), mcs_PasswordHash (mc_Spec mc), pw) \<in> T"
    and "snd (Check sha idKey L c now slot mc pw) = Inr r"
    and "StillValid get later r = Inr previous"
  shows "\<exists>m. get (r_Namespace r) (credNameOf (r_Username r)) = Inr m \<and> Usable m \<and>
    om_UID (mc_Meta m) = om_UID (mc_Meta mc) \<and>
    mcs_ServiceAccountName (mc_Spec m) = mcs_ServiceAccountName (mc_Spec mc) \<and>
    (if Generated m
     then (if previous
           then \<exists>prev. mst_Previous (mc_Status m) = Some prev \<and> later < pch_ValidUntil prev \<and>
             VerifyGenerated sha (pch_Hash prev) pw
           else \<exists>cur. mst_Current (mc_Status m) = Some cur \<and> VerifyGenerated sha (ch_Hash cur) pw)
     else \<not> previous \<and> (if IsGeneratedHash (mcs_PasswordHash (mc_Spec m))
       then VerifyGenerated sha (mcs_PasswordHash (mc_Spec m)) pw
       else VerifyArgon2id idKey (mcs_PasswordHash (mc_Spec m)) pw = Inr True))"
proof -
  have c: "describes mc r" "VerifyArgon2id idKey (r_hash r) pw = Inr True \<or> VerifyGenerated sha (r_hash r) pw"
    using Check_exact(1) [OF assms(1-4) assms(5)] matches_proven by blast+
  obtain m where m: "get (r_Namespace r) (credNameOf (r_Username r)) = Inr m"
    using assms(6) by (auto simp: StillValid_def split: sum.splits get_error.splits)
  have u: "om_UID (mc_Meta m) = r_uid r" "Usable m" "mcs_ServiceAccountName (mc_Spec m) = r_ServiceAccount r"
    using assms(6) m by (auto simp: StillValid_def split: if_splits)
  have d: "om_UID (mc_Meta m) = om_UID (mc_Meta mc)" "mcs_ServiceAccountName (mc_Spec m) = mcs_ServiceAccountName (mc_Spec mc)"
    using c(1) u by (simp_all add: describes_def)
  show ?thesis
  proof (cases "Generated m")
    case True
    then have "IsGeneratedHash (r_hash r)" and
      h: "(if previous then \<exists>prev. mst_Previous (mc_Status m) = Some prev \<and> later < pch_ValidUntil prev \<and> pch_Hash prev = r_hash r
          else \<exists>cur. mst_Current (mc_Status m) = Some cur \<and> ch_Hash cur = r_hash r)"
      using assms(6) m u by (auto simp: StillValid_def split: if_splits option.splits)
    then have "VerifyGenerated sha (r_hash r) pw" using c(2) argon2_not_generated by blast
    then have "if previous
        then \<exists>prev. mst_Previous (mc_Status m) = Some prev \<and> later < pch_ValidUntil prev \<and>
          VerifyGenerated sha (pch_Hash prev) pw
        else \<exists>cur. mst_Current (mc_Status m) = Some cur \<and> VerifyGenerated sha (ch_Hash cur) pw"
      using h by (auto split: if_splits)
    then show ?thesis using m u d True by auto
  next
    case False
    then have h: "\<not> previous" "mcs_PasswordHash (mc_Spec m) = r_hash r"
      using assms(6) m u by (auto simp: StillValid_def split: if_splits)
    have "if IsGeneratedHash (r_hash r) then VerifyGenerated sha (r_hash r) pw else VerifyArgon2id idKey (r_hash r) pw = Inr True"
      using c(2) argon2_not_generated VerifyGenerated_prefix by (auto split: if_splits)
    then show ?thesis using m u d False h by auto
  qed
qed

text \<open>C37. Who can log in, exactly: the credential object that the name in the username designates is
  there, is Ready and published that very username; the password is not empty and matches: the current one of a
  generated credential, or else its previous one before the end of the grace period, and for an own hash
  the password that argon2id accepts.  The result names that object and the hash that matched.  A login that finds no free
  slot may fail but is never let in otherwise.  Assumed: the LRU library returns only what was
  added, the logins \<open>T\<close> that used the cache have no NUL in username and hash, and SHA-256 has no collision among
  their cache keys.\<close>

theorem Verify_accepts:
  assumes "logins_ok sha T" "lru_ok L" "argon_runs sha idKey L T c"
    and "\<And>ns name mc. get ns name = Inr mc \<Longrightarrow> \<not> Generated mc \<Longrightarrow> (username, mcs_PasswordHash (mc_Spec mc), pw) \<in> T"
  shows "(snd (Verify sha idKey L c now True get username pw) = Inr r \<longleftrightarrow> loginAllowed sha idKey now get username pw r) \<and>
    (snd (Verify sha idKey L c now slot get username pw) = Inr r \<longrightarrow> loginAllowed sha idKey now get username pw r)"
proof -
  have v: "snd (Verify sha idKey L c now slot get username pw) = Inr r \<longleftrightarrow> (\<exists>ns name mc. ParseUsername username = Some (ns, name) \<and>
      get ns name = Inr mc \<and> Usable mc \<and> mst_Username (mc_Status mc) = username \<and> snd (Check sha idKey L c now slot mc pw) = Inr r)" for slot
    by (auto simp: Verify_def Lookup_def split: sum.splits option.splits get_error.splits)
  have e: "(snd (Check sha idKey L c now True mc pw) = Inr r \<longleftrightarrow>
        pw \<noteq> [] \<and> describes mc r \<and> matches sha idKey now mc pw (r_hash r) (r_Previous r)) \<and>
      (snd (Check sha idKey L c now slot mc pw) = Inr r \<longrightarrow>
        pw \<noteq> [] \<and> describes mc r \<and> matches sha idKey now mc pw (r_hash r) (r_Previous r))"
    if "get ns name = Inr mc" "mst_Username (mc_Status mc) = username" for ns name mc
  proof -
    have "\<not> Generated mc \<Longrightarrow> (mst_Username (mc_Status mc), mcs_PasswordHash (mc_Spec mc), pw) \<in> T"
      using assms(4) [OF that(1)] that(2) by simp
    from Check_exact [OF assms(1-3) this] show ?thesis by blast
  qed
  show ?thesis unfolding v loginAllowed_def using e by blast
qed

section \<open>Witnesses\<close>

definition sample_lru :: "(bytes \<Rightarrow> time option) lru" where
  "sample_lru = \<lparr>lru_Get = (\<lambda>c k. (c, c k)), lru_Add = (\<lambda>c k v. c(k \<mapsto> v))\<rparr>"

lemma sample_lru_ok: "lru_ok sample_lru"
  by (auto simp: lru_ok_def sample_lru_def split: if_splits)

text \<open>A function to 32 bytes that tells the sample password from other texts.\<close>

definition sample_sha :: "bytes \<Rightarrow> bytes" where
  "sample_sha b = replicate 32 (if b = ''pw'' then CHR ''x'' else CHR ''y'')"

lemma sample_runs: "argon_runs sha idKey sample_lru T (\<lambda>_. None)"
  by (rule argon_runs.start) (simp add: sample_lru_def)

lemma sample_logins: "NUL \<notin> set u \<Longrightarrow> NUL \<notin> set phc \<Longrightarrow> logins_ok sha {(u, phc, pw)}"
  by (simp add: logins_ok_def)

theorem argon_cache_transparent_witness:
  "snd (verifyArgon2id sample_sha sample_idKey sample_lru (\<lambda>_. None) 0 True ''ns.app'' ''$x'' ''pw'') =
     Inr (case VerifyArgon2id sample_idKey ''$x'' ''pw'' of Inl e \<Rightarrow> False | Inr ok \<Rightarrow> ok)"
  by (rule argon_cache_transparent [OF sample_logins sample_lru_ok sample_runs]) simp_all

definition sample_credential :: MailCredential where
  "sample_credential = \<lparr>
     mc_Meta = \<lparr>om_Name = ''app'', om_Namespace = ''ns'', om_UID = ''u'', om_Generation = 1, om_Labels = [],
       om_Annotations = [], om_DeletionTimestamp = None\<rparr>,
     mc_Spec = \<lparr>mcs_ServiceAccountName = ''sa'', mcs_SecretName = ''s'', mcs_Rotation = None, mcs_PasswordHash = []\<rparr>,
     mc_Status = \<lparr>mst_Username = Username ''app'' ''ns'', mst_SecretName = ''s'', mst_ServiceAccountName = ''sa'',
       mst_Current = Some \<lparr>ch_Hash = HashGenerated sample_sha ''pw'', ch_CreatedAt = 0\<rparr>, mst_Previous = None,
       mst_LastRotateRequest = [],
       mst_Conditions = [\<lparr>cond_Type = ''Ready'', cond_Status = ''True'', cond_ObservedGeneration = 1,
         cond_LastTransitionTime = 0, cond_Reason = [], cond_Message = []\<rparr>], mst_ObservedGeneration = 1\<rparr>\<rparr>"

definition sample_login :: Result where
  "sample_login = \<lparr>r_Namespace = ''ns'', r_ServiceAccount = ''sa'', r_Username = Username ''app'' ''ns'',
     r_Previous = False, r_uid = ''u'', r_hash = HashGenerated sample_sha ''pw''\<rparr>"

lemma sample_verifies: "VerifyGenerated sample_sha (HashGenerated sample_sha ''pw'') ''pw''"
proof -
  have "length (sample_sha ''pw'') = 32" by (simp add: sample_sha_def)
  from VerifyGenerated_Hash [of sample_sha "''pw''" "''pw''", OF this] show ?thesis by simp
qed

lemma sample_Check:
  "snd (Check sample_sha sample_idKey sample_lru c 0 True sample_credential ''pw'') = Inr sample_login"
  using sample_verifies
  by (simp add: Check_def checkGenerated_def sample_credential_def sample_login_def Generated_def)

theorem StillValid_could_login_witness:
  "snd (Check sample_sha sample_idKey sample_lru (\<lambda>_. None) 0 True sample_credential ''pw'') = Inr sample_login \<and>
   StillValid (\<lambda>_ _. Inr sample_credential) 1 sample_login = Inr False \<and> Usable sample_credential \<and>
   (\<exists>cur. mst_Current (mc_Status sample_credential) = Some cur \<and> VerifyGenerated sample_sha (ch_Hash cur) ''pw'')"
proof -
  have g: "Generated sample_credential" by (simp add: sample_credential_def Generated_def)
  have u: "Usable sample_credential"
    by (simp add: Usable_def FindStatusCondition_def sample_credential_def Generated_def)
  have l: "logins_ok sample_sha {(mst_Username (mc_Status sample_credential), mcs_PasswordHash (mc_Spec sample_credential), ''pw'')}"
    by (rule sample_logins) (simp_all add: sample_credential_def Username_def)
  have h: "IsGeneratedHash (HashGenerated sample_sha ''pw'')" using sample_verifies by (rule VerifyGenerated_prefix)
  have s: "StillValid (\<lambda>_ _. Inr sample_credential) 1 sample_login = Inr False"
    using u g h by (simp add: StillValid_def) (simp add: sample_credential_def sample_login_def)
  from StillValid_could_login [OF l sample_lru_ok sample_runs _ sample_Check s] obtain m where
    "Inr sample_credential = (Inr m :: get_error + MailCredential)"
    "if Generated m then \<exists>cur. mst_Current (mc_Status m) = Some cur \<and> VerifyGenerated sample_sha (ch_Hash cur) ''pw'' else True"
    by (auto split: if_splits)
  then show ?thesis using sample_Check s u g by simp
qed

theorem Verify_accepts_witness:
  "snd (Verify sample_sha sample_idKey sample_lru (\<lambda>_. None) 0 True (\<lambda>_ _. Inr sample_credential)
     (Username ''app'' ''ns'') ''pw'') = Inr sample_login \<and>
   (\<exists>ns name. ParseUsername (Username ''app'' ''ns'') = Some (ns, name)) \<and> Usable sample_credential"
proof -
  have u: "Usable sample_credential"
    by (simp add: Usable_def FindStatusCondition_def sample_credential_def Generated_def)
  have "ParseUsername (Username ''app'' ''ns'') = Some (''ns'', ''app'')"
    by (simp add: ParseUsername_iff)
  then have v: "snd (Verify sample_sha sample_idKey sample_lru (\<lambda>_. None) 0 True (\<lambda>_ _. Inr sample_credential)
      (Username ''app'' ''ns'') ''pw'') = Inr sample_login"
    using u sample_Check by (simp add: Verify_def Lookup_def) (simp add: sample_credential_def)
  have l: "logins_ok sample_sha {(Username ''app'' ''ns'', mcs_PasswordHash (mc_Spec sample_credential), ''pw'')}"
    by (rule sample_logins) (simp_all add: sample_credential_def Username_def)
  have "snd (Verify sample_sha sample_idKey sample_lru (\<lambda>_. None) 0 True (\<lambda>_ _. Inr sample_credential)
      (Username ''app'' ''ns'') ''pw'') = Inr sample_login \<longleftrightarrow>
    loginAllowed sample_sha sample_idKey 0 (\<lambda>_ _. Inr sample_credential) (Username ''app'' ''ns'') ''pw'' sample_login"
    by (rule conjunct1 [OF Verify_accepts [OF l sample_lru_ok sample_runs]]) simp
  with v have "loginAllowed sample_sha sample_idKey 0 (\<lambda>_ _. Inr sample_credential) (Username ''app'' ''ns'') ''pw'' sample_login"
    by blast
  then have "\<exists>ns name. ParseUsername (Username ''app'' ''ns'') = Some (ns, name)" unfolding loginAllowed_def by blast
  with v u show ?thesis by blast
qed

end
