(* ===== verification/Credential_Guard.thy ===== *)
theory Credential_Guard
  imports Credential
begin

text \<open>
  \<^verbatim>\<open>internal/credential/guard.go\<close>: the admission policy that bounds which Secrets the
  controller's ServiceAccount may write, and the check that the installed policy is that one.
  The CEL expressions of the policy are shallowly embedded: each is a predicate on the write
  request under the same name, over the variables the policy declares.  In the policy object
  an expression is a constructor of \<open>cel\<close>; those that depend on the configuration carry the value that
  \<^verbatim>\<open>celJSON\<close> prints.
\<close>

section \<open>Write requests\<close>

abbreviation OAuthTokenLabel :: string where "OAuthTokenLabel \<equiv> ''sigillum.dev/oauth-token''"
abbreviation OAuthTokenUIDAnnotation :: string where
  "OAuthTokenUIDAnnotation \<equiv> ''sigillum.dev/oauth-token-uid''"

record OwnerReference =
  or_APIVersion :: string
  or_Kind :: string
  or_Name :: string
  or_UID :: string
  or_Controller :: bool

text \<open>The parts of a Secret the expressions read; absent maps are \<^term>\<open>None\<close>.\<close>

record secret_object =
  so_Labels :: "(string \<rightharpoonup> string) option"
  so_Annotations :: "(string \<rightharpoonup> string) option"
  so_OwnerReferences :: "OwnerReference list option"
  so_Type :: "string option"
  so_DataKeys :: "string list option"

record write_request =
  wr_Operation :: string
  wr_Namespace :: string
  wr_Username :: string
  wr_Object :: secret_object
  wr_OldObject :: secret_object

record Guard =
  gd_Name :: string
  gd_ControllerUsername :: string
  gd_Exclusions :: Exclusions

section \<open>The expressions\<close>

definition celEntry :: "(string \<rightharpoonup> string) option \<Rightarrow> string \<Rightarrow> string" where
  "celEntry m k = (case m of None \<Rightarrow> [] | Some f \<Rightarrow> (case f k of None \<Rightarrow> [] | Some v \<Rightarrow> v))"

definition celCredentialVar :: "write_request \<Rightarrow> string" where
  "celCredentialVar rq = celEntry (so_Labels (wr_Object rq)) CredentialLabel"

definition celUIDVar :: "write_request \<Rightarrow> string" where
  "celUIDVar rq = celEntry (so_Annotations (wr_Object rq)) CredentialUIDAnnotation"

definition celOAuthBackendVar :: "write_request \<Rightarrow> string" where
  "celOAuthBackendVar rq = celEntry (so_Labels (wr_Object rq)) OAuthTokenLabel"

definition celOAuthUIDVar :: "write_request \<Rightarrow> string" where
  "celOAuthUIDVar rq = celEntry (so_Annotations (wr_Object rq)) OAuthTokenUIDAnnotation"

definition celIsCredentialVar :: "write_request \<Rightarrow> bool" where
  "celIsCredentialVar rq \<longleftrightarrow> celCredentialVar rq \<noteq> [] \<and> celUIDVar rq \<noteq> [] \<and>
     celOAuthBackendVar rq = [] \<and> celOAuthUIDVar rq = []"

definition celIsOAuthVar :: "write_request \<Rightarrow> bool" where
  "celIsOAuthVar rq \<longleftrightarrow> celOAuthBackendVar rq \<noteq> [] \<and> celOAuthUIDVar rq \<noteq> [] \<and>
     celCredentialVar rq = [] \<and> celUIDVar rq = []"

definition celLabelled :: "write_request \<Rightarrow> bool" where
  "celLabelled rq \<longleftrightarrow> celIsCredentialVar rq \<or> celIsOAuthVar rq"

definition ownerMatches :: "write_request \<Rightarrow> OwnerReference \<Rightarrow> bool" where
  "ownerMatches rq r \<longleftrightarrow> HasPrefix (or_APIVersion r) ''sigillum.dev/'' \<and> or_Controller r \<and>
     (if celIsCredentialVar rq
      then or_Kind r = ''MailCredential'' \<and> or_Name r = celCredentialVar rq \<and> or_UID r = celUIDVar rq
      else (or_Kind r = ''MailBackend'' \<or> or_Kind r = ''ClusterMailBackend'') \<and>
        or_Name r = celOAuthBackendVar rq \<and> or_UID r = celOAuthUIDVar rq)"

definition celOwned :: "write_request \<Rightarrow> bool" where
  "celOwned rq = (case so_OwnerReferences (wr_Object rq) of None \<Rightarrow> False
     | Some refs \<Rightarrow> list_ex (ownerMatches rq) refs)"

definition celHas :: "(string \<rightharpoonup> string) option \<Rightarrow> string \<Rightarrow> string \<Rightarrow> bool" where
  "celHas m k v = (case m of None \<Rightarrow> False | Some f \<Rightarrow> f k = Some v)"

definition celSameOwner :: "write_request \<Rightarrow> bool" where
  "celSameOwner rq \<longleftrightarrow> wr_Operation rq \<noteq> ''UPDATE'' \<or>
     (if celIsCredentialVar rq
      then celHas (so_Labels (wr_OldObject rq)) CredentialLabel (celCredentialVar rq) \<and>
        celHas (so_Annotations (wr_OldObject rq)) CredentialUIDAnnotation (celUIDVar rq)
      else celHas (so_Labels (wr_OldObject rq)) OAuthTokenLabel (celOAuthBackendVar rq) \<and>
        celHas (so_Annotations (wr_OldObject rq)) OAuthTokenUIDAnnotation (celOAuthUIDVar rq))"

definition celOpaque :: "write_request \<Rightarrow> bool" where
  "celOpaque rq \<longleftrightarrow> so_Type (wr_Object rq) = Some ''Opaque''"

definition credentialKeys :: "string list" where
  "credentialKeys = [''username'', ''password'', ''host'', ''port'']"

definition oauthKeys :: "string list" where
  "oauthKeys = [''refresh_token'', ''access_token'', ''expires_at'']"

definition celDataKeys :: "write_request \<Rightarrow> bool" where
  "celDataKeys rq = (case so_DataKeys (wr_Object rq) of None \<Rightarrow> True
     | Some ks \<Rightarrow> list_all (\<lambda>k. if celIsCredentialVar rq then k \<in> set credentialKeys else k \<in> set oauthKeys) ks)"

definition celNamespace :: "string \<Rightarrow> string list \<Rightarrow> string list \<Rightarrow> write_request \<Rightarrow> bool" where
  "celNamespace releaseNamespace excludedNames excludedPrefixes rq \<longleftrightarrow>
     celIsOAuthVar rq \<and> wr_Namespace rq = releaseNamespace \<or>
     wr_Namespace rq \<noteq> releaseNamespace \<and> wr_Namespace rq \<notin> set excludedNames \<and>
     \<not> list_ex (HasPrefix (wr_Namespace rq)) excludedPrefixes"

section \<open>The policy object\<close>

datatype cel =
    ControllerOnly string
  | StringLit string | ListLit "string list"
  | CredentialVar | UIDVar | OAuthBackendVar | OAuthUIDVar | IsCredentialVar | IsOAuthVar
  | Labelled | Owned | SameOwner | Opaque | DataKeys | NamespaceRule
  | OtherExpression string

record resource_rule =
  rule_Operations :: "string list"
  rule_APIGroups :: "string list"
  rule_APIVersions :: "string list"
  rule_Resources :: "string list"
  rule_ResourceNames :: "string list"
  rule_Scope :: "string option"

record match_resources =
  mr_ResourceRules :: "resource_rule list"
  mr_ExcludeResourceRules :: "resource_rule list"
  mr_NamespaceSelector :: "LabelSelectorSubject option"
  mr_ObjectSelector :: "LabelSelectorSubject option"
  mr_MatchPolicy :: "string option"

record policy_spec =
  vs_FailurePolicy :: "string option"
  vs_ParamKind :: "string option"
  vs_MatchConstraints :: "match_resources option"
  vs_MatchConditions :: "(string \<times> cel) list"
  vs_Variables :: "(string \<times> cel) list"
  vs_Validations :: "(cel \<times> string) list"

record binding_spec =
  vb_PolicyName :: string
  vb_ParamRef :: "string option"
  vb_ValidationActions :: "string list"
  vb_MatchResources :: "match_resources option"

definition guardRule :: resource_rule where
  "guardRule = \<lparr>rule_Operations = [''CREATE'', ''UPDATE''], rule_APIGroups = [''''], rule_APIVersions = [''v1''],
     rule_Resources = [''secrets''], rule_ResourceNames = [], rule_Scope = None\<rparr>"

text \<open>The messages, which \<^verbatim>\<open>Verify\<close> ignores, are left empty.\<close>

definition Policy :: "Guard \<Rightarrow> policy_spec" where
  "Policy g = (case splitPatterns (ex_Patterns (gd_Exclusions g)) of (exact, pres) \<Rightarrow>
     \<lparr>vs_FailurePolicy = Some ''Fail'', vs_ParamKind = None,
      vs_MatchConstraints = Some \<lparr>mr_ResourceRules = [guardRule], mr_ExcludeResourceRules = [],
        mr_NamespaceSelector = None, mr_ObjectSelector = None, mr_MatchPolicy = None\<rparr>,
      vs_MatchConditions = [(''controller-only'', ControllerOnly (gd_ControllerUsername g))],
      vs_Variables = [
        (''releaseNamespace'', StringLit (ex_ReleaseNamespace (gd_Exclusions g))),
        (''excludedNames'', ListLit exact), (''excludedPrefixes'', ListLit pres),
        (''credential'', CredentialVar), (''uid'', UIDVar), (''oauthBackend'', OAuthBackendVar),
        (''oauthUID'', OAuthUIDVar), (''isCredential'', IsCredentialVar), (''isOAuth'', IsOAuthVar)],
      vs_Validations = [(Labelled, []), (Owned, []), (SameOwner, []), (Opaque, []), (DataKeys, []),
        (NamespaceRule, [])]\<rparr>)"

definition Binding :: "Guard \<Rightarrow> binding_spec" where
  "Binding g = \<lparr>vb_PolicyName = gd_Name g, vb_ParamRef = None, vb_ValidationActions = [''Deny''],
     vb_MatchResources = None\<rparr>"

text \<open>What the policy decides on a request (\<^term>\<open>True\<close>: admitted).\<close>

definition guardAdmits :: "Guard \<Rightarrow> write_request \<Rightarrow> bool" where
  "guardAdmits g rq \<longleftrightarrow> wr_Username rq \<noteq> gd_ControllerUsername g \<or>
     celLabelled rq \<and> celOwned rq \<and> celSameOwner rq \<and> celOpaque rq \<and> celDataKeys rq \<and>
     (case splitPatterns (ex_Patterns (gd_Exclusions g)) of (exact, pres) \<Rightarrow>
        celNamespace (ex_ReleaseNamespace (gd_Exclusions g)) exact pres rq)"

section \<open>Checking the installed policy\<close>

datatype guard_error =
    FailurePolicyChanged string | UnexpectedParamKind | MatchConstraintsMissing | MatchConstraintsNarrowed
  | MatchPolicyChanged string | ResourceRulesChanged | MatchConditionsChanged | VariablesChanged
  | ValidationsChanged | ValidationChanged nat
  | PolicyNameChanged string | UnexpectedParamRef | NoDeny "string list" | BindingNarrowed

definition emptySelector :: "LabelSelectorSubject option \<Rightarrow> bool" where
  "emptySelector s = (case s of None \<Rightarrow> True | Some l \<Rightarrow> ls_MatchLabels l = [] \<and> ls_MatchExpressions l = [])"

definition ruleChanged :: "resource_rule \<Rightarrow> resource_rule \<Rightarrow> bool" where
  "ruleChanged gr wr \<longleftrightarrow> rule_ResourceNames gr \<noteq> [] \<or> rule_Operations gr \<noteq> rule_Operations wr \<or>
     rule_APIGroups gr \<noteq> rule_APIGroups wr \<or> rule_APIVersions gr \<noteq> rule_APIVersions wr \<or>
     rule_Resources gr \<noteq> rule_Resources wr \<or>
     (case rule_Scope gr of None \<Rightarrow> False | Some s \<Rightarrow> s \<noteq> ''*'' \<and> s \<noteq> ''Namespaced'')"

fun validationChanged :: "nat \<Rightarrow> (cel \<times> string) list \<Rightarrow> (cel \<times> string) list \<Rightarrow> guard_error option" where
  "validationChanged i (g # got) (w # want) =
     (if fst g \<noteq> fst w then Some (ValidationChanged i) else validationChanged (i + 1) got want)"
| "validationChanged i _ _ = None"

definition verifyConstraints :: "match_resources option \<Rightarrow> guard_error option" where
  "verifyConstraints m = (case m of None \<Rightarrow> Some MatchConstraintsMissing
     | Some mc \<Rightarrow>
        if mr_ExcludeResourceRules mc \<noteq> [] \<or> \<not> emptySelector (mr_NamespaceSelector mc) \<or>
           \<not> emptySelector (mr_ObjectSelector mc) then Some MatchConstraintsNarrowed
        else if mr_MatchPolicy mc \<noteq> None \<and> mr_MatchPolicy mc \<noteq> Some ''Equivalent''
          then Some (MatchPolicyChanged (the (mr_MatchPolicy mc)))
        else (case mr_ResourceRules mc of
            [gr] \<Rightarrow> if ruleChanged gr guardRule then Some ResourceRulesChanged else None
          | _ \<Rightarrow> Some ResourceRulesChanged))"

definition verifyPolicy :: "Guard \<Rightarrow> policy_spec \<Rightarrow> guard_error option" where
  "verifyPolicy g got = (let want = Policy g in
     if vs_FailurePolicy got \<noteq> None \<and> vs_FailurePolicy got \<noteq> Some ''Fail''
       then Some (FailurePolicyChanged (the (vs_FailurePolicy got)))
     else if vs_ParamKind got \<noteq> None then Some UnexpectedParamKind
     else (case verifyConstraints (vs_MatchConstraints got) of Some e \<Rightarrow> Some e
       | None \<Rightarrow>
          if vs_MatchConditions got \<noteq> vs_MatchConditions want then Some MatchConditionsChanged
          else if vs_Variables got \<noteq> vs_Variables want then Some VariablesChanged
          else if length (vs_Validations got) \<noteq> length (vs_Validations want) then Some ValidationsChanged
          else validationChanged 0 (vs_Validations got) (vs_Validations want)))"

definition verifyBinding :: "Guard \<Rightarrow> binding_spec \<Rightarrow> guard_error option" where
  "verifyBinding g got =
     (if vb_PolicyName got \<noteq> gd_Name g then Some (PolicyNameChanged (vb_PolicyName got))
      else if vb_ParamRef got \<noteq> None then Some UnexpectedParamRef
      else if ''Deny'' \<notin> set (vb_ValidationActions got) then Some (NoDeny (vb_ValidationActions got))
      else (case vb_MatchResources got of None \<Rightarrow> None
        | Some mr \<Rightarrow> if mr_ResourceRules mr \<noteq> [] \<or> mr_ExcludeResourceRules mr \<noteq> [] \<or>
            \<not> emptySelector (mr_NamespaceSelector mr) \<or> \<not> emptySelector (mr_ObjectSelector mr)
            then Some BindingNarrowed else None))"

datatype guard_verify_error = GuardLookup string | ErrGuardChanged guard_error

definition guard_Verify ::
    "Guard \<Rightarrow> (string \<Rightarrow> string + policy_spec) \<Rightarrow> (string \<Rightarrow> string + binding_spec) \<Rightarrow> guard_verify_error option" where
  "guard_Verify g getPolicy getBinding = (case getPolicy (gd_Name g) of
     Inl e \<Rightarrow> Some (GuardLookup e)
   | Inr vap \<Rightarrow> (case getBinding (gd_Name g) of
       Inl e \<Rightarrow> Some (GuardLookup e)
     | Inr vapb \<Rightarrow> (case verifyPolicy g vap of
         Some e \<Rightarrow> Some (ErrGuardChanged e)
       | None \<Rightarrow> map_option ErrGuardChanged (verifyBinding g vapb))))"

section \<open>Lemmas\<close>

lemma validationChanged_None:
  "length got = length want \<Longrightarrow> validationChanged i got want = None \<longleftrightarrow> map fst got = map fst want"
  by (induction i got want rule: validationChanged.induct) auto

lemma shapes_exclusive: "\<not> (celIsCredentialVar rq \<and> celIsOAuthVar rq)"
  by (simp add: celIsCredentialVar_def celIsOAuthVar_def)

lemma celNamespace_Excluded:
  assumes "wr_Namespace rq \<noteq> []" "celIsCredentialVar rq"
  shows "celNamespace (ex_ReleaseNamespace e) (fst (splitPatterns (ex_Patterns e))) (snd (splitPatterns (ex_Patterns e))) rq
    \<longleftrightarrow> \<not> Excluded e (wr_Namespace rq)"
  using assms shapes_exclusive [of rq] splitPatterns_excludes [of "wr_Namespace rq" "ex_Patterns e"]
  by (auto simp: celNamespace_def Excluded_def)

section \<open>Properties\<close>

text \<open>For a generated credential's Secret, the CEL of the guard and the controller's own check agree on every
  namespace: the guard's namespace rule admits exactly the namespaces that \<^verbatim>\<open>Excluded\<close> does not
  exclude.\<close>

theorem guard_namespace_agrees:
  assumes "wr_Namespace rq \<noteq> []" "celIsCredentialVar rq"
    and "celOwned rq" "celSameOwner rq" "celOpaque rq" "celDataKeys rq" "wr_Username rq = gd_ControllerUsername g"
  shows "guardAdmits g rq \<longleftrightarrow> \<not> Excluded (gd_Exclusions g) (wr_Namespace rq)"
  using assms celNamespace_Excluded [OF assms(1,2), of "gd_Exclusions g"]
  by (simp add: guardAdmits_def celLabelled_def split_beta)

text \<open>
  What a write for one kind of generated Secret has to look like, said of the objects themselves: the new Secret
  carries the label and the annotation of its kind and neither of the other kind, an owner reference to the
  controlling Sigillum object of that name and UID, only the keys of its kind; and an update is of a
  Secret that carried the same label and annotation before.
\<close>

definition mapEntry :: "(string \<rightharpoonup> string) option \<Rightarrow> string \<Rightarrow> string option" where
  "mapEntry m k = (case m of None \<Rightarrow> None | Some f \<Rightarrow> f k)"

definition ownedWrite :: "write_request \<Rightarrow> string list \<Rightarrow> string list \<Rightarrow> string \<Rightarrow> string \<Rightarrow> string \<Rightarrow> string \<Rightarrow> bool" where
  "ownedWrite rq kinds keys label annotation otherLabel otherAnnotation \<longleftrightarrow> (\<exists>name uid refs r.
     name \<noteq> [] \<and> uid \<noteq> [] \<and>
     mapEntry (so_Labels (wr_Object rq)) label = Some name \<and> mapEntry (so_Annotations (wr_Object rq)) annotation = Some uid \<and>
     mapEntry (so_Labels (wr_Object rq)) otherLabel \<in> {None, Some []} \<and>
     mapEntry (so_Annotations (wr_Object rq)) otherAnnotation \<in> {None, Some []} \<and>
     so_OwnerReferences (wr_Object rq) = Some refs \<and> r \<in> set refs \<and> HasPrefix (or_APIVersion r) ''sigillum.dev/'' \<and>
     or_Controller r \<and> or_Kind r \<in> set kinds \<and> or_Name r = name \<and> or_UID r = uid \<and>
     (case so_DataKeys (wr_Object rq) of None \<Rightarrow> True | Some ks \<Rightarrow> set ks \<subseteq> set keys) \<and>
     (if wr_Operation rq = ''UPDATE'' then mapEntry (so_Labels (wr_OldObject rq)) label = Some name \<and>
        mapEntry (so_Annotations (wr_OldObject rq)) annotation = Some uid else True))"

lemma mapEntry_cel:
  "v \<noteq> [] \<Longrightarrow> mapEntry m k = Some v \<longleftrightarrow> celEntry m k = v"
  "mapEntry m k \<in> {None, Some []} \<longleftrightarrow> celEntry m k = []"
  "mapEntry m k = Some v \<longleftrightarrow> celHas m k v"
  by (auto simp: mapEntry_def celEntry_def celHas_def split: option.splits)

lemma ownedWrite_cel:
  "ownedWrite rq kinds keys label annotation otherLabel otherAnnotation \<longleftrightarrow> (\<exists>name uid refs r.
     name \<noteq> [] \<and> uid \<noteq> [] \<and>
     celEntry (so_Labels (wr_Object rq)) label = name \<and> celEntry (so_Annotations (wr_Object rq)) annotation = uid \<and>
     celEntry (so_Labels (wr_Object rq)) otherLabel = [] \<and>
     celEntry (so_Annotations (wr_Object rq)) otherAnnotation = [] \<and>
     so_OwnerReferences (wr_Object rq) = Some refs \<and> r \<in> set refs \<and> HasPrefix (or_APIVersion r) ''sigillum.dev/'' \<and>
     or_Controller r \<and> or_Kind r \<in> set kinds \<and> or_Name r = name \<and> or_UID r = uid \<and>
     (case so_DataKeys (wr_Object rq) of None \<Rightarrow> True | Some ks \<Rightarrow> list_all (\<lambda>k. k \<in> set keys) ks) \<and>
     (if wr_Operation rq = ''UPDATE'' then celHas (so_Labels (wr_OldObject rq)) label name \<and>
        celHas (so_Annotations (wr_OldObject rq)) annotation uid else True))"
  unfolding ownedWrite_def mapEntry_cel(2) list_all_iff subset_iff [symmetric] using mapEntry_cel(1) mapEntry_cel(3)
  by (intro iff_exI conj_cong refl) (auto simp: subset_iff split: option.splits)

lemma ownedWrite_credential:
  "ownedWrite rq [''MailCredential''] credentialKeys CredentialLabel CredentialUIDAnnotation OAuthTokenLabel OAuthTokenUIDAnnotation
   \<longleftrightarrow> celIsCredentialVar rq \<and> celOwned rq \<and> celSameOwner rq \<and> celDataKeys rq"
proof (cases "celIsCredentialVar rq")
  case True
  then show ?thesis unfolding ownedWrite_cel celOwned_def celSameOwner_def celDataKeys_def ownerMatches_def list_ex_iff
    by (auto simp: celIsCredentialVar_def celCredentialVar_def celUIDVar_def celOAuthBackendVar_def celOAuthUIDVar_def
      split: option.splits)
next
  case False
  then show ?thesis unfolding ownedWrite_cel
    by (auto simp: celIsCredentialVar_def celCredentialVar_def celUIDVar_def celOAuthBackendVar_def celOAuthUIDVar_def)
qed

lemma ownedWrite_oauth:
  "ownedWrite rq [''MailBackend'', ''ClusterMailBackend''] oauthKeys OAuthTokenLabel OAuthTokenUIDAnnotation CredentialLabel CredentialUIDAnnotation
   \<longleftrightarrow> celIsOAuthVar rq \<and> celOwned rq \<and> celSameOwner rq \<and> celDataKeys rq"
proof (cases "celIsOAuthVar rq")
  case True
  then have "\<not> celIsCredentialVar rq" using shapes_exclusive by blast
  then show ?thesis using True unfolding ownedWrite_cel celOwned_def celSameOwner_def celDataKeys_def ownerMatches_def list_ex_iff
    by (auto simp: celIsOAuthVar_def celCredentialVar_def celUIDVar_def celOAuthBackendVar_def celOAuthUIDVar_def
      split: option.splits)
next
  case False
  then show ?thesis unfolding ownedWrite_cel
    by (auto simp: celIsOAuthVar_def celCredentialVar_def celUIDVar_def celOAuthBackendVar_def celOAuthUIDVar_def)
qed

text \<open>C36. What the guard leaves of the controller's right to write Secrets, exactly: a write of the
  controller is admitted if and only if it is of an Opaque Secret and either a generated credential,
  outside the excluded namespaces, or OAuth tokens, in the release namespace or outside the excluded
  ones; in both cases with the keys of its kind only, controlled by the very Sigillum object (API group,
  kind, name and UID) that its label and annotation name, and an update only of a Secret that already
  belonged to that object.  It is stated for requests that have a namespace, as those for Secrets do.\<close>

theorem guard_confines_controller:
  assumes "wr_Username rq = gd_ControllerUsername g" "wr_Namespace rq \<noteq> []"
  shows "guardAdmits g rq \<longleftrightarrow> so_Type (wr_Object rq) = Some ''Opaque'' \<and>
    (ownedWrite rq [''MailCredential''] [''username'', ''password'', ''host'', ''port''] CredentialLabel CredentialUIDAnnotation
        OAuthTokenLabel OAuthTokenUIDAnnotation \<and> \<not> Excluded (gd_Exclusions g) (wr_Namespace rq) \<or>
     ownedWrite rq [''MailBackend'', ''ClusterMailBackend''] [''refresh_token'', ''access_token'', ''expires_at''] OAuthTokenLabel
        OAuthTokenUIDAnnotation CredentialLabel CredentialUIDAnnotation \<and>
        (wr_Namespace rq = ex_ReleaseNamespace (gd_Exclusions g) \<or> \<not> Excluded (gd_Exclusions g) (wr_Namespace rq)))"
proof -
  let ?e = "gd_Exclusions g"
  let ?ns = "celNamespace (ex_ReleaseNamespace ?e) (fst (splitPatterns (ex_Patterns ?e))) (snd (splitPatterns (ex_Patterns ?e))) rq"
  have c: "celIsCredentialVar rq \<Longrightarrow> ?ns \<longleftrightarrow> \<not> Excluded ?e (wr_Namespace rq)"
    by (rule celNamespace_Excluded [OF assms(2)])
  have o: "celIsOAuthVar rq \<Longrightarrow> ?ns \<longleftrightarrow> wr_Namespace rq = ex_ReleaseNamespace ?e \<or> \<not> Excluded ?e (wr_Namespace rq)"
    using splitPatterns_excludes [of "wr_Namespace rq" "ex_Patterns ?e"] assms(2)
    by (auto simp: celNamespace_def Excluded_def)
  have "guardAdmits g rq \<longleftrightarrow> celLabelled rq \<and> celOwned rq \<and> celSameOwner rq \<and> celOpaque rq \<and> celDataKeys rq \<and> ?ns"
    using assms(1) by (simp add: guardAdmits_def split_beta)
  then show ?thesis
    unfolding ownedWrite_credential [unfolded credentialKeys_def] ownedWrite_oauth [unfolded oauthKeys_def]
      celLabelled_def celOpaque_def using c o by blast
qed

text \<open>The check of the installed guard accepts exactly the guard: the policy this configuration
  describes passes, and a policy and binding that pass have its conditions, variables and
  expressions, fail closed, deny, and are narrowed by no selector, resource name, exclusion or
  parameter.\<close>

theorem guard_Verify_exact:
  "guard_Verify g (\<lambda>_. Inr (Policy g)) (\<lambda>_. Inr (Binding g)) = None \<and>
   (guard_Verify g (\<lambda>_. Inr p) (\<lambda>_. Inr b) = None \<longleftrightarrow>
     (vs_FailurePolicy p = None \<or> vs_FailurePolicy p = Some ''Fail'') \<and> vs_ParamKind p = None \<and>
     (\<exists>mc gr. vs_MatchConstraints p = Some mc \<and> mr_ResourceRules mc = [gr] \<and> \<not> ruleChanged gr guardRule \<and>
        mr_ExcludeResourceRules mc = [] \<and> emptySelector (mr_NamespaceSelector mc) \<and>
        emptySelector (mr_ObjectSelector mc) \<and> (mr_MatchPolicy mc = None \<or> mr_MatchPolicy mc = Some ''Equivalent'')) \<and>
     vs_MatchConditions p = vs_MatchConditions (Policy g) \<and> vs_Variables p = vs_Variables (Policy g) \<and>
     map fst (vs_Validations p) = map fst (vs_Validations (Policy g)) \<and>
     vb_PolicyName b = gd_Name g \<and> vb_ParamRef b = None \<and> ''Deny'' \<in> set (vb_ValidationActions b) \<and>
     (case vb_MatchResources b of None \<Rightarrow> True | Some mr \<Rightarrow> mr_ResourceRules mr = [] \<and>
        mr_ExcludeResourceRules mr = [] \<and> emptySelector (mr_NamespaceSelector mr) \<and>
        emptySelector (mr_ObjectSelector mr)))"
proof -
  have v: "verifyConstraints m = None \<longleftrightarrow> (\<exists>mc gr. m = Some mc \<and> mr_ResourceRules mc = [gr] \<and>
      \<not> ruleChanged gr guardRule \<and> mr_ExcludeResourceRules mc = [] \<and> emptySelector (mr_NamespaceSelector mc) \<and>
      emptySelector (mr_ObjectSelector mc) \<and> (mr_MatchPolicy mc = None \<or> mr_MatchPolicy mc = Some ''Equivalent''))" for m
    by (auto simp: verifyConstraints_def split: option.splits list.splits if_splits)
  have p: "verifyPolicy g p = None \<longleftrightarrow>
      (vs_FailurePolicy p = None \<or> vs_FailurePolicy p = Some ''Fail'') \<and> vs_ParamKind p = None \<and>
      verifyConstraints (vs_MatchConstraints p) = None \<and>
      vs_MatchConditions p = vs_MatchConditions (Policy g) \<and> vs_Variables p = vs_Variables (Policy g) \<and>
      map fst (vs_Validations p) = map fst (vs_Validations (Policy g))" for p
    using validationChanged_None [of "vs_Validations p" "vs_Validations (Policy g)" 0]
      map_eq_imp_length_eq [of fst "vs_Validations p" fst "vs_Validations (Policy g)"]
    by (auto simp: verifyPolicy_def Let_def split: option.splits)
  have b: "verifyBinding g b = None \<longleftrightarrow> vb_PolicyName b = gd_Name g \<and> vb_ParamRef b = None \<and>
      ''Deny'' \<in> set (vb_ValidationActions b) \<and>
      (case vb_MatchResources b of None \<Rightarrow> True | Some mr \<Rightarrow> mr_ResourceRules mr = [] \<and>
        mr_ExcludeResourceRules mr = [] \<and> emptySelector (mr_NamespaceSelector mr) \<and>
        emptySelector (mr_ObjectSelector mr))" for b
    by (auto simp: verifyBinding_def split: option.splits)
  have own: "verifyPolicy g (Policy g) = None" "verifyBinding g (Binding g) = None"
    unfolding p b v by (auto simp: Policy_def Binding_def ruleChanged_def guardRule_def emptySelector_def split_beta)
  have "guard_Verify g (\<lambda>_. Inr p) (\<lambda>_. Inr b) = None \<longleftrightarrow> verifyPolicy g p = None \<and> verifyBinding g b = None" for p b
    by (auto simp: guard_Verify_def split: option.splits)
  then show ?thesis using own unfolding p b v by simp
qed

section \<open>Witnesses\<close>

definition sample_guard :: Guard where
  "sample_guard = \<lparr>gd_Name = ''guard'', gd_ControllerUsername = ''ctl'',
     gd_Exclusions = \<lparr>ex_Patterns = [''kube-*''], ex_ReleaseNamespace = ''sigillum''\<rparr>\<rparr>"

definition sample_write :: "string \<Rightarrow> write_request" where
  "sample_write ns = \<lparr>wr_Operation = ''CREATE'', wr_Namespace = ns, wr_Username = ''ctl'',
     wr_Object = \<lparr>so_Labels = Some [CredentialLabel \<mapsto> ''app''],
       so_Annotations = Some [CredentialUIDAnnotation \<mapsto> ''u''],
       so_OwnerReferences = Some [\<lparr>or_APIVersion = ''sigillum.dev/v1alpha1'', or_Kind = ''MailCredential'',
         or_Name = ''app'', or_UID = ''u'', or_Controller = True\<rparr>],
       so_Type = Some ''Opaque'', so_DataKeys = Some [''username'', ''password'']\<rparr>,
     wr_OldObject = \<lparr>so_Labels = None, so_Annotations = None, so_OwnerReferences = None, so_Type = None,
       so_DataKeys = None\<rparr>\<rparr>"

lemmas guard_eval = celIsCredentialVar_def celIsOAuthVar_def celCredentialVar_def celUIDVar_def celOAuthBackendVar_def
  celOAuthUIDVar_def celEntry_def celOwned_def ownerMatches_def celSameOwner_def celOpaque_def celDataKeys_def
  credentialKeys_def sample_write_def sample_guard_def go_defs

theorem guard_namespace_agrees_witness:
  "guardAdmits sample_guard (sample_write ''team'') \<and> \<not> Excluded (gd_Exclusions sample_guard) ''team'' \<and>
   \<not> guardAdmits sample_guard (sample_write ''kube-system'') \<and> Excluded (gd_Exclusions sample_guard) ''kube-system''"
proof -
  have "guardAdmits sample_guard (sample_write ns) \<longleftrightarrow> \<not> Excluded (gd_Exclusions sample_guard) ns" if "ns \<noteq> []" for ns
    using guard_namespace_agrees [of "sample_write ns" sample_guard] that by (simp add: guard_eval)
  moreover have "\<not> Excluded (gd_Exclusions sample_guard) ''team''" "Excluded (gd_Exclusions sample_guard) ''kube-system''"
    by (simp_all add: Excluded_def patternExcludes_def sample_guard_def CutSuffix_def go_defs suffix_def)
  ultimately show ?thesis by simp
qed

theorem guard_confines_controller_witness:
  "ownedWrite (sample_write ''team'') [''MailCredential''] [''username'', ''password'', ''host'', ''port''] CredentialLabel
     CredentialUIDAnnotation OAuthTokenLabel OAuthTokenUIDAnnotation \<and> guardAdmits sample_guard (sample_write ''team'')"
proof -
  have a: "guardAdmits sample_guard (sample_write ''team'')"
    by (simp add: guardAdmits_def celLabelled_def celNamespace_def CutSuffix_def guard_eval)
  moreover have "wr_Username (sample_write ''team'') = gd_ControllerUsername sample_guard" "wr_Namespace (sample_write ''team'') \<noteq> []"
    by (simp_all add: sample_write_def sample_guard_def)
  moreover have "mapEntry (so_Labels (wr_Object (sample_write ''team''))) OAuthTokenLabel = None"
    by (simp add: sample_write_def mapEntry_def)
  ultimately show ?thesis using guard_confines_controller [of "sample_write ''team''" sample_guard]
    by (auto simp: ownedWrite_def)
qed

end
