(* ===== verification/Webhook.thy ===== *)
theory Webhook
  imports Policy_Engine Backend_Config Credential
begin

text \<open>
  \<^verbatim>\<open>internal/webhook\<close>: the admission rules of the custom resources, which the gateway applies
  again before it uses an object, and \<^verbatim>\<open>ValidatePlainAddress\<close> of
  \<^verbatim>\<open>internal/policy/address.go\<close>.  Code outside the repository is the record \<open>externals\<close>:
  the label selectors, DNS name and UUID checks of the Kubernetes and UUID libraries and the
  address parser of \<^verbatim>\<open>net/mail\<close> (display name and address, or an error).  A field error
  keeps its kind, its path and, for an invalid value, the value.
\<close>

section \<open>Data\<close>

record externals =
  x_unicode :: unicode_tables
  x_asSelector :: as_selector
  x_IsDNS1123Subdomain :: "string \<Rightarrow> string list"
  x_uuidParse :: "string \<Rightarrow> bool"
  x_ParseAddress :: "string \<Rightarrow> (string \<times> string) option"
  x_labelErrs :: "string \<Rightarrow> string list"
  x_goDuration :: "string \<Rightarrow> duration option"

type_synonym path = "string list"

datatype field_error =
  Required path | Forbidden path | NotSupported path string | Invalid path string

definition Child :: "path \<Rightarrow> string \<Rightarrow> path" where
  "Child p s = p @ [s]"

definition Index :: "path \<Rightarrow> nat \<Rightarrow> path" where
  "Index p i = p @ [''['' @ nat_digits i @ '']'']"

text \<open>A loop over a list with its indices.\<close>

fun indexed :: "nat \<Rightarrow> (nat \<Rightarrow> 'a \<Rightarrow> 'e list) \<Rightarrow> 'a list \<Rightarrow> 'e list" where
  "indexed i f [] = []"
| "indexed i f (x # xs) = f i x @ indexed (i + 1) f xs"

section \<open>Address entries\<close>

datatype plain_error = ParseFailed | NotPlain string | BadMailbox address_error

definition ValidatePlainAddress :: "externals \<Rightarrow> string \<Rightarrow> plain_error option" where
  "ValidatePlainAddress X s = (case x_ParseAddress X s of None \<Rightarrow> Some ParseFailed
     | Some (name, address) \<Rightarrow>
         if name \<noteq> [] \<or> address \<noteq> s then Some (NotPlain s)
         else map_option BadMailbox (ValidateMailbox address))"

datatype entry_error =
  EntryNotPlain plain_error | EntryForm | EntryWildcardDomain | EntryBareDomain | EntryEmptyLocal
| EntryRouting | EntryBadGlob

definition addressEntryError :: "externals \<Rightarrow> string \<Rightarrow> entry_error option" where
  "addressEntryError X e =
     (if \<not> ContainsAny e ''*?['' then map_option EntryNotPlain (ValidatePlainAddress X e)
      else case Cut e CHR ''@'' of (local, domain, ok) \<Rightarrow>
        if \<not> ok \<or> Contains domain ''@'' then Some EntryForm
        else if ContainsAny domain ''*?['' then Some EntryWildcardDomain
        else if x_IsDNS1123Subdomain X (ToLower (x_unicode X) domain) \<noteq> [] then Some EntryBareDomain
        else if local = [] then Some EntryEmptyLocal
        else if ContainsAny local (''%!'' @ CHR 0x22 # ''<>() ,;:'') then Some EntryRouting
        else if pathMatch e [] = None then Some EntryBadGlob
        else None)"

text \<open>\<^verbatim>\<open>recipientEntryError\<close> only adds a hint to the message of a wildcard domain.\<close>

definition validateRecipients :: "externals \<Rightarrow> path \<Rightarrow> string list \<Rightarrow> field_error list" where
  "validateRecipients X p entries = indexed 0 (\<lambda>i e.
     if addressEntryError X e \<noteq> None then [Invalid (Index p i) e] else []) entries"

definition validateDomains :: "externals \<Rightarrow> path \<Rightarrow> string list \<Rightarrow> field_error list" where
  "validateDomains X p domains = indexed 0 (\<lambda>i d.
     if ContainsAny d ''@*?['' then [Invalid (Index p i) d]
     else map (\<lambda>_. Invalid (Index p i) d) (x_IsDNS1123Subdomain X (ToLower (x_unicode X) d))) domains"

section \<open>MailPolicy\<close>

definition validateSelector :: "externals \<Rightarrow> path \<Rightarrow> LabelSelectorSubject \<Rightarrow> field_error list" where
  "validateSelector X p sel =
     (if ls_MatchLabels sel = [] \<and> ls_MatchExpressions sel = [] then [Required p]
      else if x_asSelector X sel = None then [Invalid p []] else [])"

definition validateSubject :: "externals \<Rightarrow> path \<Rightarrow> PolicySubject \<Rightarrow> field_error list" where
  "validateSubject X p s =
     (let sa = (case ps_ServiceAccount s of None \<Rightarrow> []
            | Some a \<Rightarrow> if sas_Name a = [] then [Required (Child (Child p ''serviceAccount'') ''name'')] else []);
          sel = (case ps_ServiceAccountSelector s of None \<Rightarrow> []
            | Some l \<Rightarrow> validateSelector X (Child p ''serviceAccountSelector'') l);
          pod = (case ps_PodSelector s of None \<Rightarrow> []
            | Some l \<Rightarrow> validateSelector X (Child p ''podSelector'') l);
          set = (if ps_ServiceAccount s \<noteq> None then 1 else 0)
              + (if ps_ServiceAccountSelector s \<noteq> None then 1 else 0)
              + (if ps_PodSelector s \<noteq> None then 1 else (0 :: nat))
      in sa @ sel @ pod @ (if set = 0 then [Required p] else []) @ (if set > 1 then [Forbidden p] else []))"

datatype warning =
    SenderEntryWarning nat string | MemoryDailyCap | NeverAllowed string string "string list"
  | CleartextEndpoint nat | SecretNamespaceWarning path string | UselessCA | EmptyAllowedSenders

definition validateBackendRef :: "BackendRef \<Rightarrow> field_error list" where
  "validateBackendRef r =
     (if br_Name r = [] then [Required [''spec'', ''backendRef'', ''name'']] else []) @
     (if br_Kind r \<in> {[], KindClusterMailBackend, KindMailBackend} then []
      else [NotSupported [''spec'', ''backendRef'', ''kind''] (br_Kind r)])"

definition policySenderWarnings :: "externals \<Rightarrow> MailPolicy \<Rightarrow> warning list" where
  "policySenderWarnings X mp = (case ps_SenderRestrictions (mp_Spec mp) of None \<Rightarrow> []
     | Some sr \<Rightarrow> indexed 0 (\<lambda>i s. if s = [] then []
         else if addressEntryError X s \<noteq> None then [SenderEntryWarning i s] else []) (sr_AllowedSenders sr))"

definition policySenderErrors :: "MailPolicy \<Rightarrow> field_error list" where
  "policySenderErrors mp = (case ps_SenderRestrictions (mp_Spec mp) of None \<Rightarrow> []
     | Some sr \<Rightarrow> indexed 0 (\<lambda>i s. if s = []
         then [Required (Index [''spec'', ''senderRestrictions'', ''allowedSenders''] i)] else [])
         (sr_AllowedSenders sr))"

definition policyErrors :: "externals \<Rightarrow> MailPolicy \<Rightarrow> field_error list" where
  "policyErrors X mp =
     (if ps_Subjects (mp_Spec mp) = [] then [Required [''spec'', ''subjects'']] else []) @
     indexed 0 (\<lambda>i. validateSubject X (Index [''spec'', ''subjects''] i)) (ps_Subjects (mp_Spec mp)) @
     validateBackendRef (ps_BackendRef (mp_Spec mp)) @
     policySenderErrors mp @
     (case ps_RecipientRestrictions (mp_Spec mp) of None \<Rightarrow> []
      | Some rr \<Rightarrow>
          validateDomains X [''spec'', ''recipientRestrictions'', ''allowedDomains''] (rr_AllowedDomains rr) @
          validateDomains X [''spec'', ''recipientRestrictions'', ''blockedDomains''] (rr_BlockedDomains rr) @
          validateRecipients X [''spec'', ''recipientRestrictions'', ''allowedRecipients'']
            (rr_AllowedRecipients rr))"

text \<open>Warnings, and the error list of a rejected object (empty: admitted).\<close>

definition policy_validate :: "externals \<Rightarrow> MailPolicy \<Rightarrow> warning list \<times> field_error list" where
  "policy_validate X mp = (policySenderWarnings X mp, policyErrors X mp)"

definition ValidateMailPolicy :: "externals \<Rightarrow> MailPolicy \<Rightarrow> field_error list" where
  "ValidateMailPolicy X mp = snd (policy_validate X mp)"

subsection \<open>Warnings about the referenced backend (policy_warnings.go)\<close>

definition domainPart :: "string \<Rightarrow> string" where
  "domainPart e = (case Cut e CHR ''@'' of (_, d, _) \<Rightarrow> TrimSpace d)"

definition neverAllowedBy :: "externals \<Rightarrow> string \<Rightarrow> string \<Rightarrow> bool" where
  "neverAllowedBy X e b =
     (if \<not> ContainsAny e ''*?['' then \<not> AddressMatches (x_unicode X) e b
      else if \<not> ContainsAny b ''*?['' then \<not> AddressMatches (x_unicode X) b e
      else if addressEntryError X b \<noteq> None then False
      else \<not> EqualFold (x_unicode X) (domainPart e) (domainPart b))"

definition senderNeverAllowed :: "externals \<Rightarrow> string \<Rightarrow> string list \<Rightarrow> bool" where
  "senderNeverAllowed X e backend =
     (if ContainsAny e ''*?['' \<and> addressEntryError X e \<noteq> None then False
      else list_all (neverAllowedBy X e) backend)"

text \<open>\<open>lookup\<close> reads the spec of a backend by kind, namespace and name.\<close>

definition backendWarnings ::
    "externals \<Rightarrow> (BackendKind \<Rightarrow> string \<Rightarrow> string \<Rightarrow> BackendSpec option) option \<Rightarrow> MailPolicy \<Rightarrow> warning list" where
  "backendWarnings X reader mp =
     (case (reader, ps_SenderRestrictions (mp_Spec mp)) of
        (Some lookup, Some sr) \<Rightarrow>
          let ref = ps_BackendRef (mp_Spec mp) in
          if br_Name ref = [] then []
          else if br_Kind ref \<notin> {[], KindClusterMailBackend, KindMailBackend} then []
          else
            let kind = (if br_Kind ref = KindMailBackend then KindMailBackend else KindClusterMailBackend);
                ns = (if br_Kind ref = KindMailBackend then mp_Namespace mp else []) in
            (case lookup kind ns (br_Name ref) of None \<Rightarrow> []
             | Some spec \<Rightarrow> (case bs_AllowedSenders spec of None \<Rightarrow> []
                 | Some allowed \<Rightarrow>
                     let never = filter (\<lambda>e. e \<noteq> [] \<and> senderNeverAllowed X e allowed) (sr_AllowedSenders sr) in
                     if never = [] then [] else [NeverAllowed kind (br_Name ref) never]))
      | _ \<Rightarrow> [])"

definition validateWithWarnings ::
    "externals \<Rightarrow> (BackendKind \<Rightarrow> string \<Rightarrow> string \<Rightarrow> BackendSpec option) option \<Rightarrow> string \<Rightarrow> MailPolicy
     \<Rightarrow> warning list \<times> field_error list" where
  "validateWithWarnings X reader rateLimitBackend mp = (case policy_validate X mp of
     (ws, errs) \<Rightarrow> if errs \<noteq> [] then (ws, errs)
       else (ws @ (case ps_RateLimits (mp_Spec mp) of None \<Rightarrow> []
                   | Some rl \<Rightarrow> if rl_MessagesPerDay rl > 0 \<and> rateLimitBackend = ''memory''
                       then [MemoryDailyCap] else [])
                @ backendWarnings X reader mp, []))"

section \<open>MailBackend and ClusterMailBackend\<close>

definition validateCredentialsRef :: "bool \<Rightarrow> path \<Rightarrow> string \<Rightarrow> string \<Rightarrow> field_error list" where
  "validateCredentialsRef clusterScoped p refNs selfNs =
     (if clusterScoped \<and> refNs = [] then [Required (Child p ''namespace'')]
      else if \<not> clusterScoped \<and> refNs \<noteq> [] \<and> refNs \<noteq> selfNs then [Invalid (Child p ''namespace'') refNs]
      else [])"

definition secretNamespaceWarning ::
    "bool \<Rightarrow> string list \<Rightarrow> path \<Rightarrow> string \<Rightarrow> string \<Rightarrow> warning list" where
  "secretNamespaceWarning clusterScoped secretNamespaces p refNs selfNs =
     (let ns = (if \<not> clusterScoped then selfNs else refNs) in
      if ns = [] \<or> SecretNamespaceAllowed secretNamespaces ns then [] else [SecretNamespaceWarning p ns])"

definition anyTLSEndpoint :: "SMTPEndpoint list \<Rightarrow> bool" where
  "anyTLSEndpoint eps = list_ex (\<lambda>ep. ep_TLS ep \<noteq> SMTPTLSNone) eps"

definition validateEndpoint :: "path \<Rightarrow> SMTPEndpoint \<Rightarrow> field_error list" where
  "validateEndpoint p ep =
     (if ep_Host ep = [] then [Required (Child p ''host'')] else []) @
     (if ep_Port ep = 0 then [Required (Child p ''port'')] else []) @
     (if ep_InsecureSkipVerify ep then [Forbidden (Child p ''insecureSkipVerify'')] else [])"

definition smtpAuth :: "SMTPBackendSpec \<Rightarrow> bool" where
  "smtpAuth smtp \<longleftrightarrow> smtp_AuthType smtp \<noteq> [] \<and> smtp_AuthType smtp \<noteq> SMTPAuthNone"

definition validateSMTP :: "bool \<Rightarrow> string \<Rightarrow> SMTPBackendSpec \<Rightarrow> field_error list" where
  "validateSMTP clusterScoped selfNs smtp =
     (let p = [''spec'', ''smtp''] in
      (if smtp_Endpoints smtp = [] then [Required (Child p ''endpoints'')] else []) @
      indexed 0 (\<lambda>i. validateEndpoint (Index (Child p ''endpoints'') i)) (smtp_Endpoints smtp) @
      (if smtpAuth smtp \<and> smtp_CredentialsRef smtp = None then [Required (Child p ''credentialsRef'')] else []) @
      (case smtp_CredentialsRef smtp of None \<Rightarrow> []
       | Some ref \<Rightarrow> validateCredentialsRef clusterScoped (Child p ''credentialsRef'') (sref_Namespace ref) selfNs) @
      (case smtp_CASecretRef smtp of None \<Rightarrow> []
       | Some ref \<Rightarrow> validateCredentialsRef clusterScoped (Child p ''caSecretRef'') (ca_Namespace ref) selfNs))"

definition smtpWarnings :: "bool \<Rightarrow> string list \<Rightarrow> string \<Rightarrow> SMTPBackendSpec \<Rightarrow> warning list" where
  "smtpWarnings clusterScoped secretNamespaces selfNs smtp =
     (let p = [''spec'', ''smtp''] in
      (if smtpAuth smtp then indexed 0 (\<lambda>i ep. if ep_TLS ep = SMTPTLSNone then [CleartextEndpoint i] else [])
         (smtp_Endpoints smtp) else []) @
      (case smtp_CredentialsRef smtp of None \<Rightarrow> []
       | Some ref \<Rightarrow> secretNamespaceWarning clusterScoped secretNamespaces (Child p ''credentialsRef'')
           (sref_Namespace ref) selfNs) @
      (case smtp_CASecretRef smtp of None \<Rightarrow> []
       | Some ref \<Rightarrow> secretNamespaceWarning clusterScoped secretNamespaces (Child p ''caSecretRef'')
           (ca_Namespace ref) selfNs @
           (if \<not> anyTLSEndpoint (smtp_Endpoints smtp) then [UselessCA] else [])))"

definition senderList :: "BackendSpec \<Rightarrow> string list" where
  "senderList spec = (case bs_AllowedSenders spec of None \<Rightarrow> [] | Some l \<Rightarrow> l)"

definition validateGraph :: "externals \<Rightarrow> bool \<Rightarrow> BackendSpec \<Rightarrow> string \<Rightarrow> field_error list" where
  "validateGraph X clusterScoped spec selfNs =
     (let p = [''spec'', ''microsoftGraph''] in
      (case bs_MicrosoftGraph spec of None \<Rightarrow> [Required p]
       | Some g \<Rightarrow>
          (if x_IsDNS1123Subdomain X (mg_TenantID g) \<noteq> [] then [Invalid (Child p ''tenantID'') (mg_TenantID g)] else []) @
          (if \<not> x_uuidParse X (mg_ClientID g) \<or> length (mg_ClientID g) \<noteq> 36
           then [Invalid (Child p ''clientID'') (mg_ClientID g)] else []) @
          validateCredentialsRef clusterScoped (Child p ''credentialsRef'') (sref_Namespace (mg_CredentialsRef g)) selfNs) @
      (if senderList spec = [] then [Required [''spec'', ''allowedSenders'']] else []) @
      (if bs_SMTP spec \<noteq> None then [Forbidden [''spec'', ''smtp'']] else []))"

text \<open>\<open>implemented\<close> is \<^verbatim>\<open>driver.IsImplemented\<close>.\<close>

definition backend_validate ::
    "externals \<Rightarrow> (string \<Rightarrow> bool) \<Rightarrow> bool \<Rightarrow> string list \<Rightarrow> string \<Rightarrow> BackendSpec
     \<Rightarrow> warning list \<times> field_error list" where
  "backend_validate X implemented clusterScoped secretNamespaces selfNs spec =
     ((if bs_Type spec = BackendSMTP then
         (case bs_SMTP spec of None \<Rightarrow> [] | Some smtp \<Rightarrow> smtpWarnings clusterScoped secretNamespaces selfNs smtp)
       else []) @
      (if bs_Type spec = BackendMicrosoftGraph then
         (case bs_MicrosoftGraph spec of None \<Rightarrow> []
          | Some g \<Rightarrow> secretNamespaceWarning clusterScoped secretNamespaces
              [''spec'', ''microsoftGraph'', ''credentialsRef''] (sref_Namespace (mg_CredentialsRef g)) selfNs)
       else []) @
      (if bs_AllowedSenders spec = Some [] then [EmptyAllowedSenders] else []),
      (if \<not> implemented (bs_Type spec) then [NotSupported [''spec'', ''type''] (bs_Type spec)] else []) @
      (if bs_Type spec = BackendSMTP then
         (case bs_SMTP spec of None \<Rightarrow> [Required [''spec'', ''smtp'']]
          | Some smtp \<Rightarrow> validateSMTP clusterScoped selfNs smtp) @
         (if bs_MicrosoftGraph spec \<noteq> None then [Forbidden [''spec'', ''microsoftGraph'']] else [])
       else []) @
      (if bs_Type spec = BackendMicrosoftGraph then validateGraph X clusterScoped spec selfNs else []) @
      indexed 0 (\<lambda>i e. if addressEntryError X e \<noteq> None
        then [Invalid (Index [''spec'', ''allowedSenders''] i) e] else []) (senderList spec))"

definition ValidateMailBackend :: "externals \<Rightarrow> (string \<Rightarrow> bool) \<Rightarrow> MailBackend \<Rightarrow> field_error list" where
  "ValidateMailBackend X implemented mb =
     snd (backend_validate X implemented False [] (om_Namespace (mb_Meta mb)) (mb_Spec mb))"

definition ValidateClusterMailBackend ::
    "externals \<Rightarrow> (string \<Rightarrow> bool) \<Rightarrow> ClusterMailBackend \<Rightarrow> field_error list" where
  "ValidateClusterMailBackend X implemented cmb =
     snd (backend_validate X implemented True [] [] (cmb_Spec cmb))"

section \<open>MailCredential\<close>

definition credential_validate :: "externals \<Rightarrow> Exclusions \<Rightarrow> bool \<Rightarrow> MailCredential \<Rightarrow> field_error list" where
  "credential_validate X exclusions generatedEnabled mc =
     (let spec = mc_Spec mc in
      (if Excluded exclusions (mc_Namespace mc) then [Forbidden [''metadata'', ''namespace'']] else []) @
      (if mcs_ServiceAccountName spec = [] then [Required [''spec'', ''serviceAccountName'']]
       else map (\<lambda>_. Invalid [''spec'', ''serviceAccountName''] (mcs_ServiceAccountName spec))
              (x_IsDNS1123Subdomain X (mcs_ServiceAccountName spec))) @
      (if mcs_PasswordHash spec \<noteq> [] then
         (if mcs_SecretName spec \<noteq> [] then [Forbidden [''spec'', ''secretName'']] else []) @
         (if mcs_Rotation spec \<noteq> None then [Forbidden [''spec'', ''rotation'']] else []) @
         (case ParseArgon2id (mcs_PasswordHash spec) of
            Inl _ \<Rightarrow> [Invalid [''spec'', ''passwordHash''] ''(redacted)''] | Inr _ \<Rightarrow> [])
       else if mcs_SecretName spec = [] then [Required [''spec'', ''secretName'']]
       else
         (if \<not> generatedEnabled then [Forbidden [''spec'', ''secretName'']] else []) @
         (if GeneratedNameError (x_labelErrs X) (mc_Name mc) \<noteq> []
          then [Invalid [''metadata'', ''name''] (mc_Name mc)] else []) @
         map (\<lambda>_. Invalid [''spec'', ''secretName''] (mcs_SecretName spec))
           (x_IsDNS1123Subdomain X (mcs_SecretName spec)) @
         (case ParseRotation (x_goDuration X) (mcs_Rotation spec) of
            Inr _ \<Rightarrow> []
          | Inl es \<Rightarrow> map (\<lambda>e. case e of RotationError f v _ \<Rightarrow> Invalid [''spec'', ''rotation'', f] v) es)))"

section \<open>What an accepted entry is\<close>

text \<open>
  \<^verbatim>\<open>IsDNS1123Subdomain\<close> accepts lower case letters, digits, hyphens and dots only.
\<close>

definition dns_names :: "externals \<Rightarrow> bool" where
  "dns_names X \<longleftrightarrow> (\<forall>d. x_IsDNS1123Subdomain X d = [] \<longrightarrow> host_bytes d)"

lemma indexed_Nil_iff: "indexed i f xs = [] \<longleftrightarrow> (\<forall>j<length xs. f (i + j) (xs ! j) = [])"
proof (induction xs arbitrary: i)
  case (Cons x xs)
  have "(\<forall>j<length (x # xs). f (i + j) ((x # xs) ! j) = []) \<longleftrightarrow>
      f i x = [] \<and> (\<forall>j<length xs. f (i + 1 + j) (xs ! j) = [])"
    by (auto simp: less_Suc_eq_0_disj)
  then show ?case using Cons.IH [of "i + 1"] by simp
qed simp

lemma indexed_if_Nil_iff:
  "indexed i (\<lambda>j x. if P x then [g j x] else []) xs = [] \<longleftrightarrow> (\<forall>x\<in>set xs. \<not> P x)"
  by (auto simp: indexed_Nil_iff all_set_conv_all_nth)

lemma host_bytes_lower: "host_bytes (map ascii_lower d) \<Longrightarrow> host_bytes d"
proof -
  have "label_byte c \<or> c = CHR ''.''" if "label_byte (ascii_lower c) \<or> ascii_lower c = CHR ''.''" for c
    using that by (auto simp: label_byte_def go_defs split: if_splits)
  then show "host_bytes (map ascii_lower d) \<Longrightarrow> host_bytes d"
    by (simp add: host_bytes_def list_all_iff)
qed

lemma addressEntryError_anchor:
  assumes X: "dns_names X" and ok: "addressEntryError X e = None" and a: "list_all is_ascii e"
  shows "\<exists>l d. e = l @ CHR ''@'' # d \<and> l \<noteq> [] \<and> CHR ''@'' \<notin> set l \<and> host_bytes d"
proof (cases "ContainsAny e ''*?[''")
  case False
  then have "ValidateMailbox e = None"
    using ok by (auto simp: addressEntryError_def ValidatePlainAddress_def split: option.splits if_splits)
  then obtain l d where e: "e = l @ CHR ''@'' # d" "dot_atom l" "ValidateDomain d = None"
    by (auto simp: ValidateMailbox_None_iff)
  then have "CHR ''@'' \<notin> set l" "l \<noteq> []" by (auto simp: dot_atom_def list_all_iff dest: localPartByte_not)
  then show ?thesis using e ValidateDomain_host by blast
next
  case True
  obtain l d b where c: "Cut e CHR ''@'' = (l, d, b)" by (cases "Cut e CHR ''@''") auto
  with True ok have b: "b" "l \<noteq> []" "x_IsDNS1123Subdomain X (ToLower (x_unicode X) d) = []"
    by (auto simp: addressEntryError_def split: if_splits)
  from Cut_TrueD [of e "CHR ''@''" l d] c b have e: "e = l @ CHR ''@'' # d" "CHR ''@'' \<notin> set l" by auto
  have "list_all is_ascii d" using a e by simp
  then have "host_bytes (map ascii_lower d)"
    using b X ToLower_ascii [of d "x_unicode X"] by (simp add: dns_names_def)
  then show ?thesis using e b host_bytes_lower by blast
qed

lemma strip_seqs_Nil [simp]: "strip_seqs ws [] = []"
  using strip_seqs_suffix [of ws "[]"] by simp

lemma domainPart_anchor:
  assumes "CHR ''@'' \<notin> set l" "host_bytes d"
  shows "domainPart (l @ CHR ''@'' # d) = d"
proof -
  have "\<not> space_byte c" if "c \<in> set d" for c using space_byte_domain [OF assms(2) that] .
  then have "TrimSpace d = d"
  proof (cases d)
    case (Cons c d')
    have *: "\<not> space_byte c" "d' = [] \<or> \<not> space_byte (last d')"
      using \<open>\<And>c. c \<in> set d \<Longrightarrow> \<not> space_byte c\<close> Cons last_in_set [of d'] by auto
    show ?thesis using TrimSpace_anchor [OF *, of "[]"] Cons by simp
  qed (simp add: TrimSpace_def)
  then show ?thesis using assms(1) by (simp add: domainPart_def)
qed

subsection \<open>Entries beyond ASCII\<close>

text \<open>A byte that continues no encoding starts a new rune, so lower-casing works on the parts before and after it.\<close>

lemma decode_rune_append_start:
  assumes "p \<noteq> []" "\<not> is_cont c"
  shows "decode_rune (p @ c # d) = decode_rune p"
proof -
  have c: "is_cont c = False" "byte_in (if Q then 0xA0 else 0x80) (if R then 0x9F else 0xBF) c = False"
    "byte_in (if Q then 0x90 else 0x80) (if R then 0x8F else 0xBF) c = False" for Q R
    using assms(2) by (auto simp: go_defs is_cont_def)
  obtain b0 p1 where p: "p = b0 # p1" using assms(1) by (cases p) auto
  consider "p1 = []" | b1 where "p1 = [b1]" | b1 b2 where "p1 = [b1, b2]"
    | b1 b2 b3 p4 where "p1 = b1 # b2 # b3 # p4"
    by (metis list.exhaust)
  then show ?thesis
  proof cases
    case 1
    then show ?thesis unfolding p by (cases d; cases "tl d") (simp_all add: c)
  next
    case 2
    then show ?thesis unfolding p by (cases d) (simp_all add: c)
  next
    case 3
    then show ?thesis unfolding p by (simp add: c)
  next
    case 4
    then show ?thesis unfolding p by simp
  qed
qed

lemma runes_append:
  "q = [] \<or> \<not> is_cont (hd q) \<Longrightarrow> runes (p @ q) = runes p @ runes q"
proof (induction "length p" arbitrary: p rule: less_induct)
  case less
  show ?case
  proof (cases "p = [] \<or> q = []")
    case False
    then obtain c q' where q: "q = c # q'" "\<not> is_cont c" using less.prems by (cases q) auto
    obtain r n where rn: "decode_rune p = (r, n)" by force
    then have n: "0 < n" "n \<le> length p"
      using decode_rune_pos [of r n p] decode_rune_width_le [of p] False by auto
    have "decode_rune (p @ q) = (r, n)" using decode_rune_append_start q False rn by simp
    then have "runes (p @ q) = r # runes (drop n p @ q)"
      using False n by (subst runes.simps) simp
    also have "runes (drop n p @ q) = runes (drop n p) @ runes q"
      using less False n by simp
    also have "r # (runes (drop n p) @ runes q) = runes p @ runes q"
      using False rn by (simp add: runes.simps [of p])
    finally show ?thesis .
  qed auto
qed

lemma ToLower_runes: "ToLower U s = concat (map (encode_rune \<circ> to_lower_rune U) (runes s))"
proof (cases "list_all is_ascii s")
  case True
  have "concat (map (encode_rune \<circ> to_lower_rune U) (map byte s)) = map ascii_lower s"
    using True by (induction s) (auto simp: encode_lower_ascii)
  then show ?thesis using True by (simp add: ToLower_def runes_ascii)
qed (simp add: ToLower_def)

lemma ToLower_append: "q = [] \<or> \<not> is_cont (hd q) \<Longrightarrow> ToLower U (p @ q) = ToLower U p @ ToLower U q"
  by (simp add: ToLower_runes runes_append)

lemma ToLower_at: "ToLower U (p @ CHR ''@'' # d) = ToLower U p @ CHR ''@'' # ToLower U d"
proof -
  have "ToLower U (p @ CHR ''@'' # d) = ToLower U p @ ToLower U (CHR ''@'' # d)"
    by (rule ToLower_append) (simp add: is_cont_def go_defs)
  moreover have "ToLower U ([CHR ''@''] @ d) = ToLower U [CHR ''@''] @ ToLower U d"
    by (simp add: ToLower_runes is_ascii_def)
  ultimately show ?thesis by (simp add: ToLower_ascii go_defs)
qed

text \<open>What trimming leaves of the domain of an entry.\<close>

definition trimEnd :: "string \<Rightarrow> string" where
  "trimEnd d = rev (strip_seqs (map rev space_seqs) (rev d))"

lemma TrimSpace_at: "TrimSpace (l @ CHR ''@'' # d) = strip_seqs space_seqs l @ CHR ''@'' # trimEnd d"
proof -
  have c: "\<forall>w\<in>set space_seqs. CHR ''@'' \<notin> set w" using space_byte_at by (auto simp: space_byte_def)
  then have c': "\<forall>w\<in>set (map rev space_seqs). CHR ''@'' \<notin> set w" by simp
  show ?thesis unfolding TrimSpace_def trimEnd_def strip_seqs_append [OF c]
    using strip_seqs_append [OF c', of "rev d"] by simp
qed

lemma strip_seqs_rest:
  assumes "\<And>w. w \<in> set ws \<Longrightarrow> w \<noteq> [] \<and> \<not> is_cont (last w)"
  shows "\<exists>v. s = v @ strip_seqs ws s \<and> (v = [] \<or> \<not> is_cont (last v))"
proof (induction "length s" arbitrary: s rule: less_induct)
  case less
  show ?case
  proof (cases "match_seq ws s")
    case None
    then show ?thesis by (simp add: strip_seqs.simps)
  next
    case (Some w)
    then have w: "w \<noteq> []" "prefix w s" "w \<in> set ws" by (auto simp: match_seq_def dest: find_SomeD)
    then obtain t where t: "s = w @ t" by (auto simp: prefix_def)
    then obtain v where v: "t = v @ strip_seqs ws t" "v = [] \<or> \<not> is_cont (last v)"
      using less [of t] w(1) by auto
    have "strip_seqs ws s = strip_seqs ws t" using Some t by (subst strip_seqs.simps) simp
    moreover have "\<not> is_cont (last (w @ v))" using assms [OF w(3)] v(2) by (cases "v = []") auto
    ultimately show ?thesis using t v(1) by (intro exI [of _ "w @ v"]) simp
  qed
qed

lemma trimEnd_rest: "\<exists>w. d = trimEnd d @ w \<and> (w = [] \<or> \<not> is_cont (hd w))"
proof -
  have "w \<noteq> [] \<and> \<not> is_cont (last w)" if "w \<in> set (map rev space_seqs)" for w
    using that by (auto simp: is_cont_def go_defs)
  from strip_seqs_rest [of "map rev space_seqs" "rev d", OF this] obtain v where
    v: "rev d = v @ strip_seqs (map rev space_seqs) (rev d)" "v = [] \<or> \<not> is_cont (last v)" by blast
  from v(1) have "d = trimEnd d @ rev v" unfolding trimEnd_def by (metis rev_append rev_rev_ident)
  then show ?thesis using v(2) by (metis hd_rev rev_is_Nil_conv)
qed

lemma host_bytes_ascii_lower: "host_bytes d \<Longrightarrow> host_bytes (map ascii_lower d)"
proof -
  have "label_byte (ascii_lower c) \<or> ascii_lower c = CHR ''.''" if "label_byte c \<or> c = CHR ''.''" for c
    using that by (auto simp: label_byte_def go_defs split: if_splits)
  then show "host_bytes d \<Longrightarrow> host_bytes (map ascii_lower d)" by (simp add: host_bytes_def list_all_iff)
qed

text \<open>An accepted entry, of whatever characters, ends in \<^verbatim>\<open>@\<close> and a domain that is a host name in lower case.\<close>

lemma addressEntryError_domain:
  assumes X: "dns_names X" and ok: "addressEntryError X e = None"
  shows "\<exists>l d. e = l @ CHR ''@'' # d \<and> CHR ''@'' \<notin> set d \<and> host_bytes (ToLower (x_unicode X) d)"
proof (cases "ContainsAny e ''*?[''")
  case False
  then have "ValidateMailbox e = None"
    using ok by (auto simp: addressEntryError_def ValidatePlainAddress_def split: option.splits if_splits)
  then obtain l d where e: "e = l @ CHR ''@'' # d" "ValidateDomain d = None"
    by (auto simp: ValidateMailbox_None_iff)
  note h = ValidateDomain_host [OF e(2)]
  have "host_bytes (ToLower (x_unicode X) d)"
    using host_bytes_ascii_lower [OF h] ToLower_ascii [OF host_bytes_ascii [OF h]] by simp
  then show ?thesis using e(1) host_bytes_no_at [OF h] by blast
next
  case True
  obtain l d b where c: "Cut e CHR ''@'' = (l, d, b)" by (cases "Cut e CHR ''@''") auto
  with True ok have b: "b" "\<not> Contains d ''@''" "x_IsDNS1123Subdomain X (ToLower (x_unicode X) d) = []"
    by (auto simp: addressEntryError_def split: if_splits)
  from Cut_TrueD [of e "CHR ''@''" l d] c b have e: "e = l @ CHR ''@'' # d" by auto
  have "CHR ''@'' \<notin> set d" using b(2) by (auto simp: Contains_iff in_set_conv_decomp)
  then show ?thesis using e b X by (auto simp: dns_names_def)
qed

lemma host_literal: "host_bytes d \<Longrightarrow> list_all literal_byte d"
  by (auto simp: list_all_iff dest!: host_bytesD [THEN label_byte_cases])

lemma host_globSlash: "host_bytes d \<Longrightarrow> globSlash (p @ CHR ''@'' # d) = globSlash p @ CHR ''@'' # d"
proof -
  assume d: "host_bytes d"
  have "c \<noteq> CHR ''/''" if "c \<in> set d" for c using label_byte_cases [OF host_bytesD [OF d that]] by simp
  then show ?thesis by (simp add: globSlash_def map_idI)
qed

text \<open>An address that an accepted entry matches is in the entry's domain, in lower case and trimmed as the
  comparison does.\<close>

lemma entry_bounds_domain:
  assumes X: "dns_names X" and e: "addressEntryError X e = None"
    and m: "AddressMatches (x_unicode X) a e" and a: "ValidateMailbox a = None"
  shows "domainOf (x_unicode X) (TrimSpace e) = domainOf (x_unicode X) a"
proof -
  let ?U = "x_unicode X"
  from addressEntryError_domain [OF X e] obtain l d
    where d: "e = l @ CHR ''@'' # d" "CHR ''@'' \<notin> set d" "host_bytes (ToLower ?U d)" by blast
  obtain w where w: "d = trimEnd d @ w" "w = [] \<or> \<not> is_cont (hd w)" using trimEnd_rest by blast
  have "ToLower ?U d = ToLower ?U (trimEnd d) @ ToLower ?U w" using ToLower_append [OF w(2)] w(1) by metis
  then have h: "host_bytes (ToLower ?U (trimEnd d))" using d(3) by (simp add: host_bytes_def)
  have no: "CHR ''@'' \<notin> set (trimEnd d)" using d(2) w(1) by (metis Un_iff set_append)
  from a obtain k f where k: "a = k @ CHR ''@'' # f" "ValidateDomain f = None"
    by (auto simp: ValidateMailbox_None_iff)
  note f = ValidateDomain_host [OF k(2)]
  let ?e = "CHR ''@'' # ToLower ?U (trimEnd d)" and ?P = "ToLower ?U (strip_seqs space_seqs l)"
    and ?L = "ToLower ?U (strip_seqs space_seqs k)"
  have pat: "ToLower ?U (TrimSpace e) = ?P @ ?e" unfolding d(1) TrimSpace_at ToLower_at ..
  have adr: "ToLower ?U (TrimSpace a) = ?L @ CHR ''@'' # map ascii_lower f"
    using lowered_anchor [OF f] k(1) by simp
  have lit: "list_all literal_byte ?e" using host_literal [OF h] by (simp add: literal_byte_def)
  have "?P @ ?e = ?L @ CHR ''@'' # map ascii_lower f \<or>
      pathMatch (globSlash ?P @ ?e) (globSlash ?L @ CHR ''@'' # map ascii_lower f) = Some True"
    using m unfolding AddressMatches_def Let_def pat adr globSlash_anchor [OF f] host_globSlash [OF h]
    by (simp split: if_splits option.splits)
  then have "\<exists>x y. x @ ?e = y @ CHR ''@'' # map ascii_lower f"
  proof
    assume "pathMatch (globSlash ?P @ ?e) (globSlash ?L @ CHR ''@'' # map ascii_lower f) = Some True"
    from pathMatch_ends [OF this lit] show ?thesis by (auto simp only: suffix_def dest: sym)
  qed blast
  then obtain x y where "x @ ?e = y @ CHR ''@'' # map ascii_lower f" by (elim exE)
  from split_last_unique [OF host_bytes_no_at [OF h] host_bytes_no_at [OF host_bytes_ascii_lower [OF f]] this]
  have "ToLower ?U (trimEnd d) = map ascii_lower f" by simp
  then show ?thesis
    using domainOf_append [OF no, of ?U "strip_seqs space_seqs l"]
      domainOf_append [OF ValidateDomain_no_at [OF k(2)], of ?U k]
      ToLower_ascii [OF host_bytes_ascii [OF f]] d(1) k(1) by (simp add: TrimSpace_at)
qed

lemma lower_wildcards: "list_all is_ascii s \<Longrightarrow> \<not> ContainsAny s ''*?['' \<Longrightarrow>
   \<not> ContainsAny (ToLower U (TrimSpace s)) ''*?[''"
proof -
  assume s: "list_all is_ascii s" "\<not> ContainsAny s ''*?[''"
  obtain u v where uv: "s = u @ TrimSpace s @ v" using TrimSpace_sublist [of s] by blast
  then have sub: "set (TrimSpace s) \<subseteq> set s" by (metis Un_iff set_append subsetI)
  then have t: "list_all is_ascii (TrimSpace s)" using s(1) by (auto simp: list_all_iff)
  have "ascii_lower c \<notin> {CHR ''*'', CHR ''?'', CHR ''[''}" if "c \<notin> {CHR ''*'', CHR ''?'', CHR ''[''}" for c
    using that ascii_lower_eq_iff_not_alpha [of "CHR ''*''" c] ascii_lower_eq_iff_not_alpha [of "CHR ''?''" c]
      ascii_lower_eq_iff_not_alpha [of "CHR ''[''" c] by (simp add: go_defs)
  moreover have "c \<notin> {CHR ''*'', CHR ''?'', CHR ''[''}" if "c \<in> set (TrimSpace s)" for c
    using s(2) sub that by (auto simp: ContainsAny_def list_ex_iff)
  ultimately show ?thesis
    by (simp add: ToLower_ascii [OF t] ContainsAny_def list_ex_iff)
qed

lemma AddressMatches_plain:
  "list_all is_ascii e \<Longrightarrow> \<not> ContainsAny e ''*?['' \<Longrightarrow>
     AddressMatches U a e \<longleftrightarrow> ToLower U (TrimSpace e) = ToLower U (TrimSpace a)"
  using lower_wildcards [of e U] by (simp add: AddressMatches_def Let_def)

lemma AddressMatches_cong:
  "ToLower U (TrimSpace a) = ToLower U (TrimSpace b) \<Longrightarrow> AddressMatches U a e = AddressMatches U b e"
  by (simp add: AddressMatches_def)

text \<open>Admission and resolution agree on the references of a backend.\<close>

definition secret_error :: "resolve_error \<Rightarrow> bool" where
  "secret_error e \<longleftrightarrow> (case e of
     SecretNotFound _ _ _ \<Rightarrow> True | SecretForbidden _ \<Rightarrow> True | SecretLoadFailed _ _ _ _ \<Rightarrow> True
   | NoSuchKey _ _ _ \<Rightarrow> True | NoPEM _ _ _ \<Rightarrow> True | _ \<Rightarrow> False)"

lemma backendSecret_error:
  assumes "validateCredentialsRef (ns = []) p refNs ns = []" "backendSecret get path what name refNs ns = Inl e"
  shows "secret_error e"
  using assms
  by (auto simp: validateCredentialsRef_def backendSecret_def secret_error_def Let_def
      split: if_splits sum.splits read_error.splits)

lemma credentialsSecret_error:
  assumes "validateCredentialsRef (ns = []) p (sref_Namespace ref) ns = []"
    "credentialsSecret get fld ref ns = Inl e"
  shows "secret_error e"
  using backendSecret_error [OF assms(1)] assms(2) by (auto simp: credentialsSecret_def)

lemma caPool_error:
  assumes "validateCredentialsRef (ns = []) p (ca_Namespace ref) ns = []" "caPool pemOK get ref ns = Inl e"
  shows "secret_error e"
  using backendSecret_error [OF assms(1)] assms(2)
  by (auto simp: caPool_def Let_def secret_error_def [of "NoSuchKey _ _ _"] secret_error_def [of "NoPEM _ _ _"]
      split: sum.splits option.splits if_splits)

lemma validateSMTP_refs:
  assumes "validateSMTP cs ns smtp = []"
  shows "smtpAuth smtp \<Longrightarrow> smtp_CredentialsRef smtp \<noteq> None"
    "smtp_CredentialsRef smtp = Some ref \<Longrightarrow>
      validateCredentialsRef cs [''spec'', ''smtp'', ''credentialsRef''] (sref_Namespace ref) ns = []"
    "smtp_CASecretRef smtp = Some ca \<Longrightarrow>
      validateCredentialsRef cs [''spec'', ''smtp'', ''caSecretRef''] (ca_Namespace ca) ns = []"
  using assms by (simp_all add: validateSMTP_def Let_def Child_def split: if_splits)

lemma resolveSMTP_admitted:
  assumes "validateSMTP (ns = []) ns smtp = []"
  shows "case resolveSMTP pemOK get smtp ns of Inl e \<Rightarrow> secret_error e
    | Inr cfg \<Rightarrow> sc_Endpoints cfg = map resolveEndpoint (smtp_Endpoints smtp)"
proof -
  note refs = validateSMTP_refs [OF assms]
  have cred: "secret_error e" if "smtp_CredentialsRef smtp = Some ref"
      "credentialsSecret get ''spec.smtp'' ref ns = Inl e" for ref e
    using credentialsSecret_error refs(2) that by blast
  have ca: "secret_error e" if "smtp_CASecretRef smtp = Some ref" "caPool pemOK get ref ns = Inl e" for ref e
    using caPool_error refs(3) that by blast
  show ?thesis
    using refs(1) cred ca
    by (auto simp: resolveSMTP_def Let_def smtpAuth_def split: option.split sum.split)
qed

lemma validateSMTP_endpoints:
  assumes "validateSMTP cs ns smtp = []"
  shows "smtp_Endpoints smtp \<noteq> [] \<and>
    (\<forall>ep\<in>set (smtp_Endpoints smtp). ep_Host ep \<noteq> [] \<and> ep_Port ep \<noteq> 0 \<and> \<not> ep_InsecureSkipVerify ep)"
proof -
  have "\<forall>j<length (smtp_Endpoints smtp). validateEndpoint (Index [''spec'', ''smtp'', ''endpoints''] j)
      (smtp_Endpoints smtp ! j) = []"
    using assms by (simp add: validateSMTP_def Let_def Child_def indexed_Nil_iff split: if_splits)
  then show ?thesis
    using assms by (auto simp: validateEndpoint_def validateSMTP_def Let_def all_set_conv_all_nth split: if_splits)
qed

lemma resolveGraph_admitted:
  assumes "validateGraph X (ns = []) spec ns = []" "bs_MicrosoftGraph spec = Some g"
    "resolveGraph get g ns = Inl e"
  shows "secret_error e"
  using assms backendSecret_error
  by (auto simp: resolveGraph_def validateGraph_def Let_def credentialsSecret_def secret_error_def
      split: if_splits sum.splits)

section \<open>Properties\<close>

text \<open>C9. A policy that admission accepts bounds its recipients by domain: if it lists allowed
  domains or allowed recipients, every recipient and Reply-To address of an admitted message is
  in one of the allowed domains or in the domain of an allowed entry (the entry trimmed and in lower case, as
  it is compared), whatever globs and characters the entries use.  (Assumed of
  \<^verbatim>\<open>IsDNS1123Subdomain\<close>: it accepts only host name characters.)\<close>

theorem admitted_policy_bounds_recipients:
  assumes "dns_names X" and "ValidateMailPolicy X mp = []"
    and "ps_RecipientRestrictions (mp_Spec mp) = Some r"
    and "rr_AllowedDomains r \<noteq> [] \<or> rr_AllowedRecipients r \<noteq> []"
    and "dc_Allowed (Evaluate (x_unicode X) (Some mp) m)"
    and "a \<in> set (mv_Recipients m) \<union> set (mv_ReplyTo m)"
  shows "(\<exists>d\<in>set (rr_AllowedDomains r). EqualFold (x_unicode X) d (domainOf (x_unicode X) a)) \<or>
    (\<exists>e\<in>set (rr_AllowedRecipients r). domainOf (x_unicode X) (TrimSpace e) = domainOf (x_unicode X) a)"
proof -
  have a: "ValidateMailbox a = None" "recipientAllowed (x_unicode X) a (Some r)"
    using assms by (auto simp: Evaluate_allowed_iff evaluateAddresses_None_iff recipientRefused_def)
  have ok: "\<forall>e\<in>set (rr_AllowedRecipients r). addressEntryError X e = None"
    using assms(2,3) unfolding ValidateMailPolicy_def policy_validate_def policyErrors_def
      validateRecipients_def by (simp add: indexed_if_Nil_iff)
  from a(2) assms(4) consider (dom) d where "d \<in> set (rr_AllowedDomains r)"
      "EqualFold (x_unicode X) d (domainOf (x_unicode X) a)"
    | (entry) e where "e \<in> set (rr_AllowedRecipients r)" "AddressMatches (x_unicode X) a e"
    by (auto simp: recipientAllowed_def Let_def list_ex_iff split: if_splits)
  then show ?thesis
  proof cases
    case entry
    then have "addressEntryError X e = None" using ok by simp
    from entry_bounds_domain [OF assms(1) this entry(2) a(1)] show ?thesis using entry(1) by (intro disjI2 bexI)
  qed blast
qed

text \<open>The warning that a backend never allows a sender entry is right: when
  \<^verbatim>\<open>senderNeverAllowed\<close> says so of ASCII entries, no mailbox that the policy entry matches is
  allowed by the backend's list.\<close>

theorem senderNeverAllowed_sound:
  assumes X: "dns_names X" and never: "senderNeverAllowed X e backend"
    and ascii: "list_all is_ascii e" "list_all (list_all is_ascii) backend"
    and a: "ValidateMailbox a = None" "AddressMatches (x_unicode X) a e"
  shows "\<not> senderAllowed (x_unicode X) a backend"
proof
  let ?U = "x_unicode X"
  assume "senderAllowed ?U a backend"
  then obtain b where b: "b \<in> set backend" "AddressMatches ?U a b"
    by (auto simp: senderAllowed_def list_ex_iff)
  then have n: "neverAllowedBy X e b" and ba: "list_all is_ascii b"
    using never ascii by (auto simp: senderNeverAllowed_def list_all_iff split: if_splits)
  consider (plain) "\<not> ContainsAny e ''*?[''" | (backend) "ContainsAny e ''*?[''" "\<not> ContainsAny b ''*?[''"
    | (globs) "ContainsAny e ''*?[''" "ContainsAny b ''*?[''" by blast
  then show False
  proof cases
    case plain
    then have "AddressMatches ?U e b"
      using a(2) b(2) AddressMatches_plain [OF ascii(1)] AddressMatches_cong [of ?U e a b] by simp
    then show False using n plain by (simp add: neverAllowedBy_def)
  next
    case backend
    then have "AddressMatches ?U b e"
      using a(2) b(2) AddressMatches_plain [OF ba] AddressMatches_cong [of ?U b a e] by simp
    then show False using n backend by (simp add: neverAllowedBy_def)
  next
    case globs
    then have ok: "addressEntryError X e = None" "addressEntryError X b = None"
      using never n by (auto simp: senderNeverAllowed_def neverAllowedBy_def split: if_splits)
    from addressEntryError_anchor [OF X ok(1) ascii(1)] obtain l d
      where d: "e = l @ CHR ''@'' # d" "CHR ''@'' \<notin> set l" "host_bytes d" by blast
    from addressEntryError_anchor [OF X ok(2) ba] obtain k f
      where f: "b = k @ CHR ''@'' # f" "CHR ''@'' \<notin> set k" "host_bytes f" by blast
    from a(1) obtain i g where g: "a = i @ CHR ''@'' # g" "ValidateDomain g = None"
      by (auto simp: ValidateMailbox_None_iff)
    have "map ascii_lower g = map ascii_lower d"
      using AddressMatches_domain [of ?U i g l d] a(2) d g ValidateDomain_host by simp
    moreover have "map ascii_lower g = map ascii_lower f"
      using AddressMatches_domain [of ?U i g k f] b(2) f g ValidateDomain_host by simp
    ultimately have "EqualFold ?U d f"
      using EqualFold_ascii [OF host_bytes_ascii [OF d(3)] host_bytes_ascii [OF f(3)]] by simp
    then show False
      using n globs ok domainPart_anchor [OF d(2,3)] domainPart_anchor [OF f(2,3)] d(1) f(1)
      by (simp add: neverAllowedBy_def)
  qed
qed

text \<open>C34. Admission and resolution agree: the configuration of a backend that admission accepts
  cannot be refused for its own content, only for the Secrets it names; and when it is resolved,
  it has at least one endpoint, and every endpoint has a host and verifies certificates.\<close>

theorem admitted_backend_resolves:
  assumes "snd (backend_validate X implemented (ns = []) secretNamespaces ns spec) = []"
    and "\<And>t. implemented t \<Longrightarrow> t = BackendSMTP \<or> t = BackendMicrosoftGraph"
  shows "case ResolveBackendConfig pemOK get key spec ns of Inl e \<Rightarrow> secret_error e
    | Inr cfg \<Rightarrow> dc_Type cfg = bs_Type spec \<and> (dc_SMTP cfg = None \<longleftrightarrow> dc_Graph cfg \<noteq> None) \<and>
        (case dc_SMTP cfg of None \<Rightarrow> True | Some c \<Rightarrow> sc_Endpoints c \<noteq> [] \<and>
          list_all (\<lambda>ep. de_Host ep \<noteq> [] \<and> de_Port ep \<noteq> 0 \<and> \<not> de_InsecureSkipVerify ep) (sc_Endpoints c))"
proof -
  have t: "bs_Type spec = BackendSMTP \<or> bs_Type spec = BackendMicrosoftGraph"
    using assms by (auto simp: backend_validate_def split: if_splits)
  show ?thesis
  proof (cases "bs_Type spec = BackendSMTP")
    case True
    with assms(1) obtain smtp where smtp: "bs_SMTP spec = Some smtp" "validateSMTP (ns = []) ns smtp = []"
      by (auto simp: backend_validate_def split: if_splits option.splits)
    show ?thesis
      using resolveSMTP_admitted [OF smtp(2), of pemOK get] validateSMTP_endpoints [OF smtp(2)] True smtp(1)
      by (auto simp: ResolveBackendConfig_def Let_def list_all_iff resolveEndpoint_def split: sum.splits)
  next
    case False
    with t have g: "bs_Type spec = BackendMicrosoftGraph" by simp
    with assms(1) False have v: "validateGraph X (ns = []) spec ns = []"
      by (auto simp: backend_validate_def split: if_splits)
    then obtain gr where "bs_MicrosoftGraph spec = Some gr"
      by (auto simp: validateGraph_def Let_def split: option.splits)
    then show ?thesis
      using resolveGraph_admitted [OF v, of gr get] g
      by (cases "resolveGraph get gr ns") (auto simp: ResolveBackendConfig_def Let_def)
  qed
qed

definition sample_externals :: externals where
  "sample_externals = \<lparr>x_unicode = sample_tables, x_asSelector = (\<lambda>_. None),
     x_IsDNS1123Subdomain = (\<lambda>d. if host_bytes d then [] else [''not a host name'']),
     x_uuidParse = (\<lambda>_. True), x_ParseAddress = (\<lambda>s. Some ([], s)), x_labelErrs = (\<lambda>_. []),
     x_goDuration = (\<lambda>_. None)\<rparr>"

lemma sample_dns_names: "dns_names sample_externals"
  by (simp add: dns_names_def sample_externals_def)

theorem admitted_backend_resolves_witness:
  "snd (backend_validate sample_externals (\<lambda>t. t = BackendSMTP) (''a'' = []) [] ''a'' (sample_spec ''a'')) = [] \<and>
   (case ResolveBackendConfig (\<lambda>_. True) (\<lambda>ns n. Inr (sample_secret ns n ''pw'')) ''a/b'' (sample_spec ''a'') ''a'' of
      Inl e \<Rightarrow> False | Inr cfg \<Rightarrow> dc_Type cfg = BackendSMTP \<and> dc_SMTP cfg \<noteq> None)"
proof -
  have v: "snd (backend_validate sample_externals (\<lambda>t. t = BackendSMTP) (''a'' = []) [] ''a'' (sample_spec ''a'')) = []"
    by (simp add: backend_validate_def sample_spec_def validateSMTP_def Let_def validateEndpoint_def
        validateCredentialsRef_def senderList_def)
  have "\<exists>cfg. ResolveBackendConfig (\<lambda>_. True) (\<lambda>ns n. Inr (sample_secret ns n ''pw'')) ''a/b''
      (sample_spec ''a'') ''a'' = Inr cfg \<and> dc_SMTP cfg \<noteq> None"
    by (simp add: ResolveBackendConfig_def resolveSMTP_def sample_spec_def credentialsSecret_def
        backendSecret_def Let_def)
  then show ?thesis
    using v admitted_backend_resolves [OF v, where pemOK = "\<lambda>_. True" and key = "''a/b''" and
        get = "\<lambda>ns n. Inr (sample_secret ns n ''pw'')"]
    by (auto simp: sample_spec_def)
qed

definition sample_restricted :: MailPolicy where
  "sample_restricted = sample_policy ''a'' 5 ''app'' \<lparr>mp_Spec := mp_Spec (sample_policy ''a'' 5 ''app'')
     \<lparr>ps_RecipientRestrictions := Some \<lparr>rr_AllowedDomains = [], rr_AllowedRecipients = [''*@ok.com''],
        rr_BlockedDomains = []\<rparr>\<rparr>\<rparr>"

lemma sample_entry: "addressEntryError sample_externals ''*@ok.com'' = None"
proof -
  have "Cut ''*@ok.com'' CHR ''@'' = (''*'', ''ok.com'', True)"
    using Cut_append [of "CHR ''@''" "''*''" "''ok.com''"] by simp
  moreover have "pathMatch ''*@ok.com'' [] \<noteq> None"
    by (simp add: pathMatch.simps scanChunk_def matchChunk.simps restValid.simps)
  moreover have "host_bytes (ToLower sample_tables ''ok.com'')"
    by (simp add: host_bytes_def label_byte_def ToLower_def go_defs)
  ultimately show ?thesis
    by (simp add: addressEntryError_def sample_externals_def go_defs)
qed

lemmas glob_eval = AddressMatches_def TrimSpace_def strip_seqs.simps match_seq_def space_seqs_def
  ToLower_def go_defs globSlash_def pathMatch.simps scanChunk_def matchChunk.simps

theorem admitted_policy_bounds_recipients_witness:
  "dc_Allowed (Evaluate sample_tables (Some sample_restricted) (sample_view [''x@ok.com''])) \<and>
   domainOf sample_tables (TrimSpace ''*@ok.com'') = domainOf sample_tables ''x@ok.com''"
proof -
  have v: "ValidateMailPolicy sample_externals sample_restricted = []"
    using sample_entry
    by (simp add: ValidateMailPolicy_def policy_validate_def policyErrors_def sample_restricted_def
        sample_policy_def validateSubject_def validateBackendRef_def policySenderErrors_def
        validateDomains_def validateRecipients_def Let_def)
  have "AddressMatches sample_tables ''App@ex.com'' ''*@ex.com''" by (simp add: glob_eval)
  moreover have "AddressMatches sample_tables ''x@ok.com'' ''*@ok.com''" by (simp add: glob_eval)
  moreover have "ValidateMailbox ''x@ok.com'' = None" by (simp add: mailbox_eval)
  ultimately have ok: "dc_Allowed (Evaluate sample_tables (Some sample_restricted) (sample_view [''x@ok.com'']))"
    by (simp add: Evaluate_allowed_iff evaluateLimits_None_iff evaluateSenders_None_iff
        evaluateAddresses_None_iff recipientRefused_def senderAllowed_def recipientAllowed_def
        sample_restricted_def sample_policy_def sample_view_def senders_def int32_def)
  show ?thesis
    using admitted_policy_bounds_recipients [OF sample_dns_names v, where m = "sample_view [''x@ok.com'']"
        and a = "''x@ok.com''"] ok
    by (simp add: sample_restricted_def sample_externals_def sample_view_def is_ascii_def)
qed

theorem senderNeverAllowed_sound_witness:
  "senderNeverAllowed sample_externals ''app@ok.com'' [''*@ex.com''] \<and>
   \<not> senderAllowed sample_tables ''App@ok.com'' [''*@ex.com'']"
proof -
  have never: "senderNeverAllowed sample_externals ''app@ok.com'' [''*@ex.com'']"
    by (simp add: senderNeverAllowed_def neverAllowedBy_def sample_externals_def glob_eval)
  have "AddressMatches sample_tables ''App@ok.com'' ''app@ok.com''" by (simp add: glob_eval)
  moreover have "ValidateMailbox ''App@ok.com'' = None" by (simp add: mailbox_eval)
  ultimately show ?thesis
    using never senderNeverAllowed_sound [OF sample_dns_names never, where a = "''App@ok.com''"]
    by (simp add: sample_externals_def is_ascii_def)
qed

end
