(* ===== verification/Gateway.thy ===== *)
theory Gateway
  imports Webhook Rate_Window "HOL-Library.AList" "HOL-Library.Multiset"
begin

text \<open>
  \<^verbatim>\<open>internal/gateway\<close> and \<^verbatim>\<open>internal/audit\<close>: the send pipeline both transports share.  The
  state is the validity cache, the limiter and the trace of what the pipeline did to the
  outside: audit records, limiter calls and sends, in order.  The environment holds what the
  pipeline reads: the objects of the cluster, the limiter's operations and the driver
  factory.  Logs, metrics and trace spans do not affect it and are left out.
\<close>

section \<open>Audit records (audit.go)\<close>

datatype audit_decision = DecisionNone | DecisionAccept | DecisionReject

record Event =
  ev_Stream :: string
  ev_Timestamp :: "time option"
  ev_MessageID :: string
  ev_Namespace :: string
  ev_ServiceAccount :: string
  ev_AuthMethod :: string
  ev_Credential :: string
  ev_CredentialPrevious :: bool
  ev_Cluster :: string
  ev_Transport :: string
  ev_From :: string
  ev_To :: "string list option"
  ev_Policy :: string
  ev_Backend :: string
  ev_Decision :: audit_decision
  ev_Reason :: string

text \<open>
  A logger turns a record into what it writes: \<^verbatim>\<open>marshal\<close> is \<^verbatim>\<open>json.Marshal\<close>, \<^term>\<open>None\<close> an
  error.  The absent timestamp is Go's zero time, the absent \<^verbatim>\<open>To\<close> a nil slice.
\<close>

datatype audit_logger = Discard | JSONLogger string | clusterLogger audit_logger string

definition json_Record :: "(Event \<Rightarrow> string option) \<Rightarrow> time \<Rightarrow> Event \<Rightarrow> string" where
  "json_Record marshal now e =
     (let e = e\<lparr>ev_Stream := ''audit''\<rparr>;
          e = (if ev_Timestamp e = None then e\<lparr>ev_Timestamp := Some now\<rparr> else e);
          e = (if ev_To e = None then e\<lparr>ev_To := Some []\<rparr> else e)
      in case marshal e of None \<Rightarrow> [] | Some b \<Rightarrow> b @ [LF])"

text \<open>What \<^verbatim>\<open>Record\<close> appends to which sink.\<close>

fun Record :: "(Event \<Rightarrow> string option) \<Rightarrow> time \<Rightarrow> audit_logger \<Rightarrow> Event \<Rightarrow> (string \<times> string) list" where
  "Record marshal now Discard e = []"
| "Record marshal now (JSONLogger w) e =
     (if json_Record marshal now e = [] then [] else [(w, json_Record marshal now e)])"
| "Record marshal now (clusterLogger l cluster) e = Record marshal now l (e\<lparr>ev_Cluster := cluster\<rparr>)"

definition WithCluster :: "audit_logger \<Rightarrow> string \<Rightarrow> audit_logger" where
  "WithCluster l cluster = (if cluster = [] then l else clusterLogger l cluster)"

text \<open>\<open>openable\<close> tells whether \<^verbatim>\<open>os.OpenFile\<close> succeeds; \<^term>\<open>None\<close> is its error.\<close>

definition FromFlag :: "(string \<Rightarrow> bool) \<Rightarrow> string \<Rightarrow> audit_logger option" where
  "FromFlag openable v =
     (if v = [] \<or> v = ''stdout'' then Some (JSONLogger ''stdout'')
      else if v = ''stderr'' then Some (JSONLogger ''stderr'')
      else if v = ''none'' \<or> v = ''off'' then Some Discard
      else if openable v then Some (JSONLogger v) else None)"

section \<open>The validity cache (validity.go)\<close>

record validity =
  v_generation :: int
  v_err :: "field_error list"

type_synonym validityCache = "(string \<times> validity) list"

abbreviation maxValidityEntries :: nat where "maxValidityEntries \<equiv> 4096"

definition check :: "validityCache \<Rightarrow> ObjectMeta \<Rightarrow> field_error list \<Rightarrow> validityCache \<times> field_error list" where
  "check m obj validate =
     (let uid = om_UID obj; gen = om_Generation obj in
      if uid = [] \<or> gen = 0 then (m, validate)
      else case map_of m uid of
        Some v \<Rightarrow> if v_generation v = gen then (m, v_err v)
          else (AList.update uid \<lparr>v_generation = gen, v_err = validate\<rparr>
                 (if length m \<ge> maxValidityEntries then [] else m), validate)
      | None \<Rightarrow> (AList.update uid \<lparr>v_generation = gen, v_err = validate\<rparr>
                 (if length m \<ge> maxValidityEntries then [] else m), validate))"

section \<open>Requests and results\<close>

abbreviation AuthOAuthBearer :: string where "AuthOAuthBearer \<equiv> ''oauth_bearer''"
abbreviation AuthPodIPLegacy :: string where "AuthPodIPLegacy \<equiv> ''pod_ip_legacy''"
abbreviation AuthSMTPCredential :: string where "AuthSMTPCredential \<equiv> ''smtp_credential''"

record Identity =
  id_Namespace :: string
  id_ServiceAccount :: string
  id_AuthMethod :: string
  id_PodLabels :: labels
  id_Credential :: string
  id_CredentialPrevious :: bool

record Request =
  rq_Identity :: Identity
  rq_Transport :: string
  rq_MessageID :: string
  rq_Message :: Message
  rq_Raw :: "bytes option"
  rq_EnvelopeFrom :: string
  rq_Sender :: string
  rq_ReplyTo :: "string list"
  rq_SizeBytes :: int

datatype Status =
  StatusAccepted | StatusDenied | StatusRateLimited | StatusBackendNotReady | StatusUpstreamError
| StatusUnavailable | StatusPolicyInvalid

datatype not_ready_error =
    BackendLookup BackendKind string string read_error
  | BackendInvalid BackendKind string string "field_error list"
  | BackendNotReady BackendKind string string
  | UnsupportedKind string
  | ResolveFailed resolve_error
  | NewDriverFailed string

datatype detail = NoDetail | Text string | NotReady not_ready_error

record Result =
  re_Status :: Status
  re_Policy :: string
  re_Backend :: string
  re_DenyReason :: "DenyReason option"
  re_Detail :: detail
  re_RetryAfter :: duration
  re_Permanent :: bool
  re_UpstreamID :: string
  re_AcceptedAt :: "time option"

definition result :: "Status \<Rightarrow> string \<Rightarrow> Result" where
  "result st policy = \<lparr>re_Status = st, re_Policy = policy, re_Backend = [], re_DenyReason = None,
     re_Detail = NoDetail, re_RetryAfter = 0, re_Permanent = False, re_UpstreamID = [],
     re_AcceptedAt = None\<rparr>"

definition Recipients :: "Message \<Rightarrow> string list" where
  "Recipients m = concat (map (map ad_Address) [ms_To m, ms_Cc m, ms_Bcc m])"

definition nameOf :: "MailPolicy option \<Rightarrow> string" where
  "nameOf p = (case p of None \<Rightarrow> [] | Some p \<Rightarrow> mp_Name p)"

text \<open>The value of \<^verbatim>\<open>string(reason)\<close>.\<close>

fun reason_string :: "DenyReason \<Rightarrow> string" where
  "reason_string DenyNoPolicy = ''no_policy_matched''"
| "reason_string DenySenderNotAllowed = ''sender_not_allowed''"
| "reason_string DenyRecipientBlocked = ''recipient_not_allowed''"
| "reason_string DenyMessageTooLarge = ''message_too_large''"
| "reason_string DenyTooManyRecipient = ''too_many_recipients''"

section \<open>State and environment\<close>

datatype effect =
    Recorded Event
  | Charged string Limits
  | Refunded string
  | Sent DConfig Message
  | SentRaw DConfig string "string list" bytes

record 'l gateway =
  g_validity :: validityCache
  g_limiter :: 'l
  g_trace :: "effect list"

record 'l cluster =
  c_externals :: externals
  c_implemented :: "string \<Rightarrow> bool"
  c_Policies :: "string \<Rightarrow> MailPolicy list"
  c_ServiceAccount :: "string \<Rightarrow> string \<Rightarrow> labels option"
  c_MailBackend :: "string \<Rightarrow> string \<Rightarrow> read_error + MailBackend"
  c_ClusterMailBackend :: "string \<Rightarrow> read_error + ClusterMailBackend"
  c_Secret :: secret_reader
  c_pemOK :: "bytes \<Rightarrow> bool"
  c_NewDriver :: "DConfig \<Rightarrow> string + driver"
  c_Allow :: "'l \<Rightarrow> time \<Rightarrow> string \<Rightarrow> Limits \<Rightarrow> 'l \<times> allow_result"
  c_Refund :: "'l \<Rightarrow> string \<Rightarrow> 'l \<times> limiter_error option"
  c_Now :: time

definition emit :: "effect \<Rightarrow> 'l gateway \<Rightarrow> 'l gateway" where
  "emit e g = g\<lparr>g_trace := g_trace g @ [e]\<rparr>"

definition Reject :: "'l gateway \<Rightarrow> Event \<Rightarrow> string \<Rightarrow> 'l gateway" where
  "Reject g ev reason = emit (Recorded (ev\<lparr>ev_Decision := DecisionReject, ev_Reason := reason\<rparr>)) g"

section \<open>Backends\<close>

definition serviceAccountLabels :: "'l cluster \<Rightarrow> string \<Rightarrow> string \<Rightarrow> labels \<times> bool" where
  "serviceAccountLabels C namespace name =
     (case c_ServiceAccount C namespace name of None \<Rightarrow> ([], False) | Some l \<Rightarrow> (l, True))"

definition backendIsReady :: "BackendStatus \<Rightarrow> bool" where
  "backendIsReady s = (case List.find (\<lambda>c. cond_Type c = ''Ready'') (bst_Conditions s) of
     None \<Rightarrow> False | Some c \<Rightarrow> cond_Status c = ''True'')"

definition preferReadyEndpoints :: "dSMTPEndpoint list \<Rightarrow> EndpointStatus list \<Rightarrow> dSMTPEndpoint list" where
  "preferReadyEndpoints eps probed =
     (let unready = (\<lambda>key. list_ex (\<lambda>st. \<not> es_Ready st \<and>
            JoinHostPort (es_Host st) (Itoa (es_Port st)) = key) probed);
          isUnready = (\<lambda>ep. unready (JoinHostPort (de_Host ep) (Itoa (de_Port ep)))) in
      if list_all es_Ready probed then eps
      else filter (\<lambda>ep. \<not> isUnready ep) eps @ filter isUnready eps)"

text \<open>Backend key, spec, status and the namespace of its Secrets.\<close>

type_synonym resolved = "string \<times> BackendSpec \<times> BackendStatus \<times> string"

definition mailBackendForPolicy :: "'l cluster \<Rightarrow> validityCache \<Rightarrow> MailPolicy \<Rightarrow> validityCache \<times> (not_ready_error + resolved)" where
  "mailBackendForPolicy C cache p =
     (let name = br_Name (ps_BackendRef (mp_Spec p)); ns = mp_Namespace p in
      case c_MailBackend C ns name of
        Inl e \<Rightarrow> (cache, Inl (BackendLookup KindMailBackend ns name e))
      | Inr mb \<Rightarrow> (case check cache (mb_Meta mb) (ValidateMailBackend (c_externals C) (c_implemented C) mb) of
          (cache, errs) \<Rightarrow> (cache,
            if errs \<noteq> [] then Inl (BackendInvalid KindMailBackend ns name errs)
            else if \<not> backendIsReady (mb_Status mb) then Inl (BackendNotReady KindMailBackend ns name)
            else Inr (ns @ ''/'' @ om_Name (mb_Meta mb), mb_Spec mb, mb_Status mb, om_Namespace (mb_Meta mb)))))"

definition clusterMailBackendForPolicy :: "'l cluster \<Rightarrow> validityCache \<Rightarrow> MailPolicy \<Rightarrow> validityCache \<times> (not_ready_error + resolved)" where
  "clusterMailBackendForPolicy C cache p =
     (let name = br_Name (ps_BackendRef (mp_Spec p)) in
      case c_ClusterMailBackend C name of
        Inl e \<Rightarrow> (cache, Inl (BackendLookup KindClusterMailBackend [] name e))
      | Inr cmb \<Rightarrow> (case check cache (cmb_Meta cmb) (ValidateClusterMailBackend (c_externals C) (c_implemented C) cmb) of
          (cache, errs) \<Rightarrow> (cache,
            if errs \<noteq> [] then Inl (BackendInvalid KindClusterMailBackend [] name errs)
            else if \<not> backendIsReady (cmb_Status cmb) then Inl (BackendNotReady KindClusterMailBackend [] name)
            else Inr (''/'' @ om_Name (cmb_Meta cmb), cmb_Spec cmb, cmb_Status cmb, []))))"

definition backendForPolicy :: "'l cluster \<Rightarrow> validityCache \<Rightarrow> MailPolicy \<Rightarrow> validityCache \<times> (not_ready_error + resolved)" where
  "backendForPolicy C cache p =
     (let kind = br_Kind (ps_BackendRef (mp_Spec p)) in
      if kind = KindMailBackend then mailBackendForPolicy C cache p
      else if kind = KindClusterMailBackend \<or> kind = [] then clusterMailBackendForPolicy C cache p
      else (cache, Inl (UnsupportedKind kind)))"

definition openDriver :: "'l cluster \<Rightarrow> resolved \<Rightarrow> not_ready_error + (DConfig \<times> driver)" where
  "openDriver C r = (case r of (backendKey, spec, status, secretNs) \<Rightarrow>
     (case ResolveBackendConfig (c_pemOK C) (c_Secret C) backendKey spec secretNs of
        Inl e \<Rightarrow> Inl (ResolveFailed e)
      | Inr cfg \<Rightarrow>
          let cfg = (case dc_SMTP cfg of None \<Rightarrow> cfg
             | Some s \<Rightarrow> cfg\<lparr>dc_SMTP := Some (s\<lparr>sc_Endpoints :=
                 preferReadyEndpoints (sc_Endpoints s) (bst_EndpointStatus status)\<rparr>)\<rparr>)
          in (case c_NewDriver C cfg of Inl e \<Rightarrow> Inl (NewDriverFailed e) | Inr d \<Rightarrow> Inr (cfg, d))))"

section \<open>The pipeline\<close>

definition request_view :: "Request \<Rightarrow> MessageView" where
  "request_view req = \<lparr>mv_From = ad_Address (ms_From (rq_Message req)),
     mv_EnvelopeFrom = rq_EnvelopeFrom req, mv_Sender = rq_Sender req,
     mv_Recipients = Recipients (rq_Message req), mv_ReplyTo = rq_ReplyTo req,
     mv_SizeBytes = rq_SizeBytes req\<rparr>"

definition request_event :: "Request \<Rightarrow> Event" where
  "request_event req = (let i = rq_Identity req in
     \<lparr>ev_Stream = [], ev_Timestamp = None, ev_MessageID = rq_MessageID req, ev_Namespace = id_Namespace i,
      ev_ServiceAccount = id_ServiceAccount i, ev_AuthMethod = id_AuthMethod i,
      ev_Credential = id_Credential i, ev_CredentialPrevious = id_CredentialPrevious i,
      ev_Cluster = [], ev_Transport = rq_Transport req, ev_From = ad_Address (ms_From (rq_Message req)),
      ev_To = Some (Recipients (rq_Message req)), ev_Policy = [], ev_Backend = [],
      ev_Decision = DecisionNone, ev_Reason = []\<rparr>)"

definition request_caller :: "'l cluster \<Rightarrow> Identity \<Rightarrow> MailPolicy list \<Rightarrow> Caller" where
  "request_caller C i policies =
     (let ls = (if NeedsSALabels policies then serviceAccountLabels C (id_Namespace i) (id_ServiceAccount i)
                else ([], False))
      in \<lparr>clr_Namespace = id_Namespace i, clr_ServiceAccount = id_ServiceAccount i, clr_SALabels = fst ls,
          clr_SALabelsKnown = snd ls, clr_LegacyPodIP = (id_AuthMethod i = AuthPodIPLegacy),
          clr_PodLabels = id_PodLabels i\<rparr>)"

definition matchedPolicy :: "'l cluster \<Rightarrow> Identity \<Rightarrow> MailPolicy option" where
  "matchedPolicy C i = (let policies = c_Policies C (id_Namespace i) in
     Match (x_asSelector (c_externals C)) policies (request_caller C i policies))"

text \<open>The closure \<^verbatim>\<open>deny\<close> of \<^verbatim>\<open>Send\<close>.\<close>

definition send_deny ::
    "Event \<Rightarrow> string \<Rightarrow> DenyReason option \<Rightarrow> string \<Rightarrow> string \<Rightarrow> 'l gateway \<Rightarrow> 'l gateway \<times> Result" where
  "send_deny ev policyName reason detail backend g =
     (emit (Recorded (ev\<lparr>ev_Policy := policyName, ev_Backend := backend, ev_Decision := DecisionReject,
        ev_Reason := (case reason of None \<Rightarrow> [] | Some r \<Rightarrow> reason_string r)\<rparr>)) g,
      (result StatusDenied policyName)\<lparr>re_Backend := backend, re_DenyReason := reason, re_Detail := Text detail\<rparr>)"

text \<open>The closure \<^verbatim>\<open>notReady\<close>.\<close>

definition send_notReady :: "Event \<Rightarrow> MailPolicy \<Rightarrow> not_ready_error \<Rightarrow> 'l gateway \<Rightarrow> 'l gateway \<times> Result" where
  "send_notReady ev p err g =
     (Reject g ev ''backend_not_ready'',
      (result StatusBackendNotReady (mp_Name p))\<lparr>re_Detail := NotReady err\<rparr>)"

text \<open>The driver call; \<^verbatim>\<open>SendRaw\<close> only if the request carries a raw message.\<close>

definition driverSend ::
    "DConfig \<Rightarrow> driver \<Rightarrow> string \<Rightarrow> Request \<Rightarrow> 'l gateway \<Rightarrow> 'l gateway \<times> (driver_error + SendResult)" where
  "driverSend cfg d backendKey req g = (case rq_Raw req of
     None \<Rightarrow> (emit (Sent cfg (rq_Message req)) g, dr_Send d (rq_Message req))
   | Some raw \<Rightarrow> (case dr_SendRaw d of
        None \<Rightarrow> (g, Inl \<lparr>de_NoReadyEndpoint = False, de_Transient = False, de_Permanent = True,
          de_RecipientNotInEnvelope = False, de_RetryAfter = None,
          de_Message = ''upstream permanent error: backend '' @ backendKey @ '' cannot relay raw messages''\<rparr>)
      | Some sendRaw \<Rightarrow>
          (emit (SentRaw cfg (rq_EnvelopeFrom req) (Recipients (rq_Message req)) raw) g,
           sendRaw (rq_EnvelopeFrom req) (Recipients (rq_Message req)) raw)))"

definition refund :: "'l cluster \<Rightarrow> bool \<Rightarrow> string \<Rightarrow> 'l gateway \<Rightarrow> 'l gateway" where
  "refund C charged rlKey g =
     (if charged then emit (Refunded rlKey) (g\<lparr>g_limiter := fst (c_Refund C (g_limiter g) rlKey)\<rparr>) else g)"

text \<open>What follows the driver call.\<close>

definition send_finish ::
    "'l cluster \<Rightarrow> Event \<Rightarrow> MailPolicy \<Rightarrow> string \<Rightarrow> bool \<Rightarrow> driver_error + SendResult \<Rightarrow> 'l gateway
     \<Rightarrow> 'l gateway \<times> Result" where
  "send_finish C ev p backendKey charged r g =
     (let rlKey = mp_Namespace p @ ''/'' @ mp_Name p in
      case r of
        Inr res \<Rightarrow>
          (emit (Recorded (ev\<lparr>ev_Decision := DecisionAccept\<rparr>)) g,
           (result StatusAccepted (mp_Name p))\<lparr>re_Backend := backendKey,
             re_UpstreamID := sr_UpstreamID res, re_AcceptedAt := Some (sr_AcceptedAt res)\<rparr>)
      | Inl err \<Rightarrow>
          if de_RecipientNotInEnvelope err then
            send_deny ev (mp_Name p) (Some DenyRecipientBlocked)
              (TrimPrefix (de_Message err) ''upstream permanent error: '') backendKey (refund C charged rlKey g)
          else
            let permanent = de_Permanent err;
                g = Reject g ev (if permanent then ''upstream_rejected'' else ''upstream_error'');
                g = (if permanent then g else refund C charged rlKey g)
            in (g, (result StatusUpstreamError (mp_Name p))\<lparr>re_Backend := backendKey,
                  re_Detail := Text (de_Message err), re_Permanent := permanent,
                  re_RetryAfter := (if permanent then 0 else RetryAfter err)\<rparr>))"

definition policyLimits :: "MailPolicy \<Rightarrow> Limits" where
  "policyLimits p = (case ps_RateLimits (mp_Spec p) of
     None \<Rightarrow> \<lparr>PerMinute = 0, PerHour = 0, PerDay = 0\<rparr>
   | Some rl \<Rightarrow> \<lparr>PerMinute = rl_MessagesPerMinute rl, PerHour = rl_MessagesPerHour rl,
                 PerDay = rl_MessagesPerDay rl\<rparr>)"

text \<open>The rate limit: an early result, or whether the message was charged.\<close>

definition send_charge ::
    "'l cluster \<Rightarrow> Event \<Rightarrow> MailPolicy \<Rightarrow> 'l gateway \<Rightarrow> 'l gateway \<times> (Result + bool)" where
  "send_charge C ev p g =
     (let limits = policyLimits p; rlKey = mp_Namespace p @ ''/'' @ mp_Name p in
      if limits_None limits then (g, Inr False)
      else case c_Allow C (g_limiter g) (c_Now C) rlKey limits of (l, a) \<Rightarrow>
        let g = emit (Charged rlKey limits) (g\<lparr>g_limiter := l\<rparr>) in
        if al_err a \<noteq> None then
          (Reject g ev ''ratelimit_unavailable'',
           Inl ((result StatusUnavailable (mp_Name p))\<lparr>re_Detail := Text ''rate limiter unavailable; retry later''\<rparr>))
        else if \<not> al_allowed a then
          (Reject g ev ''rate_limited'',
           Inl ((result StatusRateLimited (mp_Name p))\<lparr>re_RetryAfter := al_retryAfter a,
             re_Detail := Text (''policy '' @ CHR 0x27 # mp_Name p @ CHR 0x27 # '' rate limit exceeded'')\<rparr>))
        else (g, Inr True))"

text \<open>From the admitted message to the result.\<close>

definition send_admitted ::
    "'l cluster \<Rightarrow> Request \<Rightarrow> Event \<Rightarrow> MailPolicy \<Rightarrow> 'l gateway \<Rightarrow> 'l gateway \<times> Result" where
  "send_admitted C req ev p g =
     (case backendForPolicy C (g_validity g) p of (cache, b) \<Rightarrow>
        let g = g\<lparr>g_validity := cache\<rparr> in
        (case b of Inl err \<Rightarrow> send_notReady ev p err g
         | Inr (backendKey, spec, status, secretNs) \<Rightarrow>
            let ev = ev\<lparr>ev_Backend := backendKey\<rparr>;
                sender = (case bs_AllowedSenders spec of None \<Rightarrow> ([], True)
                  | Some allowed \<Rightarrow> SendersAllowed (x_unicode (c_externals C)) (request_view req) allowed) in
            if \<not> snd sender then
              send_deny ev (mp_Name p) (Some DenySenderNotAllowed)
                (''sender '' @ CHR 0x27 # fst sender @ CHR 0x27 # '' not in the backend'' @ CHR 0x27 # ''s allowedSenders'')
                backendKey g
            else (case openDriver C (backendKey, spec, status, secretNs) of
                Inl err \<Rightarrow> send_notReady ev p err g
              | Inr (cfg, d) \<Rightarrow>
                  (case send_charge C ev p g of
                     (g, Inl early) \<Rightarrow> (g, early)
                   | (g, Inr charged) \<Rightarrow>
                       (case driverSend cfg d backendKey req g of
                          (g, r) \<Rightarrow> send_finish C ev p backendKey charged r g)))))"

definition Send :: "'l cluster \<Rightarrow> Request \<Rightarrow> 'l gateway \<Rightarrow> 'l gateway \<times> Result" where
  "Send C req g =
     (let ev = request_event req;
          matched = matchedPolicy C (rq_Identity req);
          cv = (case matched of None \<Rightarrow> (g_validity g, [])
             | Some p \<Rightarrow> check (g_validity g) (mp_Meta p) (ValidateMailPolicy (c_externals C) p));
          g = g\<lparr>g_validity := fst cv\<rparr>
      in if snd cv \<noteq> [] then
           (Reject g (ev\<lparr>ev_Policy := nameOf matched\<rparr>) ''policy_invalid'',
            (result StatusPolicyInvalid (nameOf matched))\<lparr>re_Detail :=
               Text (''MailPolicy '' @ CHR 0x22 # nameOf matched @ CHR 0x22 #
                 '' is invalid; its Ready condition names the problem'')\<rparr>)
         else
           let decision = Evaluate (x_unicode (c_externals C)) matched (request_view req) in
           if \<not> dc_Allowed decision then
             send_deny ev (nameOf (dc_Policy decision)) (dc_DenyReason decision) (dc_DenyDetail decision) [] g
           else case dc_Policy decision of
             None \<Rightarrow> (g, result StatusDenied [])
           | Some p \<Rightarrow> send_admitted C req (ev\<lparr>ev_Policy := mp_Name p\<rparr>) p g)"

section \<open>The validity cache is transparent\<close>

text \<open>
  The API server changes an object's generation with its spec, so UID and generation determine
  the outcome of validation: \<open>V\<close> gives it.
\<close>

definition keyed_by :: "(string \<Rightarrow> int \<Rightarrow> field_error list) \<Rightarrow> ObjectMeta \<Rightarrow> field_error list \<Rightarrow> bool" where
  "keyed_by V obj errs \<longleftrightarrow> om_UID obj \<noteq> [] \<longrightarrow> om_Generation obj \<noteq> 0 \<longrightarrow> errs = V (om_UID obj) (om_Generation obj)"

definition keyed :: "(string \<Rightarrow> int \<Rightarrow> field_error list) \<Rightarrow> 'l cluster \<Rightarrow> bool" where
  "keyed V C \<longleftrightarrow>
     (\<forall>ns. \<forall>p\<in>set (c_Policies C ns). keyed_by V (mp_Meta p) (ValidateMailPolicy (c_externals C) p)) \<and>
     (\<forall>ns n mb. c_MailBackend C ns n = Inr mb \<longrightarrow>
        keyed_by V (mb_Meta mb) (ValidateMailBackend (c_externals C) (c_implemented C) mb)) \<and>
     (\<forall>n cmb. c_ClusterMailBackend C n = Inr cmb \<longrightarrow>
        keyed_by V (cmb_Meta cmb) (ValidateClusterMailBackend (c_externals C) (c_implemented C) cmb))"

definition valid_cache :: "(string \<Rightarrow> int \<Rightarrow> field_error list) \<Rightarrow> validityCache \<Rightarrow> bool" where
  "valid_cache V m \<longleftrightarrow> length m \<le> maxValidityEntries \<and>
     (\<forall>(uid, v)\<in>set m. v_err v = V uid (v_generation v))"

lemma valid_cache_Nil [simp]: "valid_cache V []"
  by (simp add: valid_cache_def)

lemma length_AList_update: "length (AList.update k v m) \<le> Suc (length m)"
  by (induction m) auto

lemma set_AList_update: "set (AList.update k v m) \<subseteq> insert (k, v) (set m)"
  by (induction m) auto

lemma check_Nil [simp]: "snd (check [] obj errs) = errs"
  by (simp add: check_def Let_def)

lemma check_valid:
  assumes "valid_cache V m" "keyed_by V obj errs"
  shows "valid_cache V (fst (check m obj errs))" "snd (check m obj errs) = errs"
proof -
  have stored: "valid_cache V (AList.update (om_UID obj) \<lparr>v_generation = om_Generation obj, v_err = errs\<rparr>
      (if length m \<ge> maxValidityEntries then [] else m))" if "om_UID obj \<noteq> []" "om_Generation obj \<noteq> 0"
    using assms that set_AList_update [of "om_UID obj" "\<lparr>v_generation = om_Generation obj, v_err = errs\<rparr>" m]
      length_AList_update [of "om_UID obj" "\<lparr>v_generation = om_Generation obj, v_err = errs\<rparr>" m]
    by (auto simp: valid_cache_def keyed_by_def)
  have hit: "v_err v = errs" if "om_UID obj \<noteq> []" "om_Generation obj \<noteq> 0" "map_of m (om_UID obj) = Some v"
      "v_generation v = om_Generation obj" for v
    using assms that map_of_SomeD [OF that(3)] by (auto simp: valid_cache_def keyed_by_def)
  show "valid_cache V (fst (check m obj errs))"
    using stored assms(1) by (auto simp: check_def Let_def split: option.split if_splits)
  show "snd (check m obj errs) = errs"
    using hit by (simp add: check_def Let_def split: option.split)
qed

text \<open>The backend of a policy without a cache.\<close>

definition backendOf :: "'l cluster \<Rightarrow> MailPolicy \<Rightarrow> not_ready_error + resolved" where
  "backendOf C p = snd (backendForPolicy C [] p)"

lemma backendForPolicy_valid:
  assumes "valid_cache V m" "keyed V C"
  shows "valid_cache V (fst (backendForPolicy C m p))" "snd (backendForPolicy C m p) = backendOf C p"
proof -
  have mb: "keyed_by V (mb_Meta mb) (ValidateMailBackend (c_externals C) (c_implemented C) mb)"
    if "c_MailBackend C ns n = Inr mb" for ns n mb using assms(2) that by (auto simp: keyed_def)
  have cmb: "keyed_by V (cmb_Meta cmb) (ValidateClusterMailBackend (c_externals C) (c_implemented C) cmb)"
    if "c_ClusterMailBackend C n = Inr cmb" for n cmb using assms(2) that by (auto simp: keyed_def)
  note ok = check_valid [OF assms(1)]
  show "valid_cache V (fst (backendForPolicy C m p))"
    using assms(1) ok(1) mb cmb
    by (simp add: backendForPolicy_def mailBackendForPolicy_def clusterMailBackendForPolicy_def Let_def
        split_beta split: sum.split)
  show "snd (backendForPolicy C m p) = backendOf C p"
    using ok(2) mb cmb
    by (simp add: backendOf_def backendForPolicy_def mailBackendForPolicy_def
        clusterMailBackendForPolicy_def Let_def split_beta split: sum.split)
qed

section \<open>What a send may do\<close>

text \<open>
  The specification of the pipeline: the effects of one send, its result and the limiter's new
  state, without caches and control flow.
\<close>

definition rejected :: "Event \<Rightarrow> string \<Rightarrow> effect" where
  "rejected ev reason = Recorded (ev\<lparr>ev_Decision := DecisionReject, ev_Reason := reason\<rparr>)"

definition accepts :: "'l cluster \<Rightarrow> Request \<Rightarrow> MailPolicy \<Rightarrow> bool" where
  "accepts C req p \<longleftrightarrow> matchedPolicy C (rq_Identity req) = Some p \<and> ValidateMailPolicy (c_externals C) p = [] \<and>
     dc_Allowed (Evaluate (x_unicode (c_externals C)) (Some p) (request_view req))"

definition senderBound :: "'l cluster \<Rightarrow> Request \<Rightarrow> BackendSpec \<Rightarrow> bool" where
  "senderBound C req spec \<longleftrightarrow> (case bs_AllowedSenders spec of None \<Rightarrow> True
     | Some allowed \<Rightarrow> list_all (\<lambda>a. senderAllowed (x_unicode (c_externals C)) a allowed) (senders (request_view req)))"

definition chargeKey :: "MailPolicy \<Rightarrow> string" where
  "chargeKey p = mp_Namespace p @ ''/'' @ mp_Name p"

definition charge :: "'l cluster \<Rightarrow> MailPolicy \<Rightarrow> 'l \<Rightarrow> 'l \<times> allow_result" where
  "charge C p l = c_Allow C l (c_Now C) (chargeKey p) (policyLimits p)"

text \<open>The checks in front of the rate limit all passed, and a driver is open.\<close>

definition opened :: "'l cluster \<Rightarrow> Request \<Rightarrow> MailPolicy \<Rightarrow> string \<Rightarrow> DConfig \<Rightarrow> driver \<Rightarrow> bool" where
  "opened C req p key cfg d \<longleftrightarrow> accepts C req p \<and> (\<exists>spec status ns.
     backendOf C p = Inr (key, spec, status, ns) \<and> senderBound C req spec \<and>
     openDriver C (key, spec, status, ns) = Inr (cfg, d))"

text \<open>The effects and the limiter's state in front of the driver call.\<close>

definition admits :: "'l cluster \<Rightarrow> MailPolicy \<Rightarrow> 'l \<Rightarrow> effect list \<Rightarrow> 'l \<Rightarrow> bool" where
  "admits C p l effs l' \<longleftrightarrow>
     (if limits_None (policyLimits p) then effs = [] \<and> l' = l
      else al_err (snd (charge C p l)) = None \<and> al_allowed (snd (charge C p l)) \<and>
           effs = [Charged (chargeKey p) (policyLimits p)] \<and> l' = fst (charge C p l))"

definition delivery :: "DConfig \<Rightarrow> driver \<Rightarrow> Request \<Rightarrow> effect list" where
  "delivery cfg d req = (case rq_Raw req of None \<Rightarrow> [Sent cfg (rq_Message req)]
     | Some raw \<Rightarrow> if dr_SendRaw d = None then []
         else [SentRaw cfg (rq_EnvelopeFrom req) (Recipients (rq_Message req)) raw])"

text \<open>The hit goes back exactly for a charged message that was not a real attempt.\<close>

definition refunds :: "'l cluster \<Rightarrow> MailPolicy \<Rightarrow> 'l \<Rightarrow> effect list \<Rightarrow> 'l \<Rightarrow> bool" where
  "refunds C p l effs l' \<longleftrightarrow>
     (if limits_None (policyLimits p) then effs = [] \<and> l' = l
      else effs = [Refunded (chargeKey p)] \<and> l' = fst (c_Refund C l (chargeKey p)))"

text \<open>What the driver answers to the request; \<^term>\<open>None\<close> if it is a raw message and the driver takes none.\<close>

definition upstream :: "driver \<Rightarrow> Request \<Rightarrow> (driver_error + SendResult) option" where
  "upstream d req = (case rq_Raw req of None \<Rightarrow> Some (dr_Send d (rq_Message req))
     | Some raw \<Rightarrow> map_option (\<lambda>sendRaw. sendRaw (rq_EnvelopeFrom req) (Recipients (rq_Message req)) raw) (dr_SendRaw d))"

text \<open>Why no driver was opened, with the backend that the record names then.\<close>

definition notOpened :: "'l cluster \<Rightarrow> Request \<Rightarrow> MailPolicy \<Rightarrow> string \<Rightarrow> not_ready_error \<Rightarrow> bool" where
  "notOpened C req p b err \<longleftrightarrow> backendOf C p = Inl err \<and> b = [] \<or>
     (\<exists>spec status ns. backendOf C p = Inr (b, spec, status, ns) \<and> senderBound C req spec \<and>
        openDriver C (b, spec, status, ns) = Inl err)"

inductive outcome :: "'l cluster \<Rightarrow> Request \<Rightarrow> 'l \<Rightarrow> effect list \<Rightarrow> Result \<Rightarrow> 'l \<Rightarrow> bool"
  for C req l where
  invalid: "\<lbrakk>matchedPolicy C (rq_Identity req) = Some p; ValidateMailPolicy (c_externals C) p \<noteq> [];
    re_Status r = StatusPolicyInvalid; re_Policy r = mp_Name p; re_Backend r = []\<rbrakk>
    \<Longrightarrow> outcome C req l [rejected (request_event req\<lparr>ev_Policy := mp_Name p\<rparr>) ''policy_invalid''] r l"
| refused: "\<lbrakk>m = matchedPolicy C (rq_Identity req); \<And>p. m = Some p \<Longrightarrow> ValidateMailPolicy (c_externals C) p = [];
    \<not> dc_Allowed (Evaluate (x_unicode (c_externals C)) m (request_view req));
    dc_DenyReason (Evaluate (x_unicode (c_externals C)) m (request_view req)) = Some reason;
    re_Status r = StatusDenied; re_Policy r = nameOf m; re_Backend r = []; re_DenyReason r = Some reason\<rbrakk>
    \<Longrightarrow> outcome C req l [rejected (request_event req\<lparr>ev_Policy := nameOf m\<rparr>) (reason_string reason)] r l"
| not_ready: "\<lbrakk>accepts C req p; notOpened C req p b err; re_Status r = StatusBackendNotReady;
    re_Policy r = mp_Name p; re_Detail r = NotReady err\<rbrakk>
    \<Longrightarrow> outcome C req l [rejected (request_event req\<lparr>ev_Policy := mp_Name p, ev_Backend := b\<rparr>) ''backend_not_ready''] r l"
| bounded: "\<lbrakk>accepts C req p; backendOf C p = Inr (key, spec, status, ns); \<not> senderBound C req spec;
    re_Status r = StatusDenied; re_Policy r = mp_Name p; re_Backend r = key; re_DenyReason r = Some DenySenderNotAllowed\<rbrakk>
    \<Longrightarrow> outcome C req l [rejected (request_event req\<lparr>ev_Policy := mp_Name p, ev_Backend := key\<rparr>) ''sender_not_allowed''] r l"
| limited: "\<lbrakk>opened C req p key cfg d; \<not> limits_None (policyLimits p);
    al_err (snd (charge C p l)) = None; \<not> al_allowed (snd (charge C p l));
    re_Status r = StatusRateLimited; re_Policy r = mp_Name p; re_RetryAfter r = al_retryAfter (snd (charge C p l))\<rbrakk>
    \<Longrightarrow> outcome C req l [Charged (chargeKey p) (policyLimits p),
          rejected (request_event req\<lparr>ev_Policy := mp_Name p, ev_Backend := key\<rparr>) ''rate_limited''] r (fst (charge C p l))"
| unavailable: "\<lbrakk>opened C req p key cfg d; \<not> limits_None (policyLimits p);
    al_err (snd (charge C p l)) \<noteq> None; re_Status r = StatusUnavailable; re_Policy r = mp_Name p\<rbrakk>
    \<Longrightarrow> outcome C req l [Charged (chargeKey p) (policyLimits p),
          rejected (request_event req\<lparr>ev_Policy := mp_Name p, ev_Backend := key\<rparr>) ''ratelimit_unavailable''] r
          (fst (charge C p l))"
| header_recipient: "\<lbrakk>opened C req p key cfg d; admits C p l pre l'; refunds C p l' post l'';
    upstream d req = Some (Inl e); de_RecipientNotInEnvelope e;
    re_Status r = StatusDenied; re_Policy r = mp_Name p; re_Backend r = key; re_DenyReason r = Some DenyRecipientBlocked\<rbrakk>
    \<Longrightarrow> outcome C req l (pre @ delivery cfg d req @ post @
          [rejected (request_event req\<lparr>ev_Policy := mp_Name p, ev_Backend := key\<rparr>) ''recipient_not_allowed'']) r l''"
| permanent: "\<lbrakk>opened C req p key cfg d; admits C p l pre l';
    case upstream d req of None \<Rightarrow> True | Some (Inl e) \<Rightarrow> \<not> de_RecipientNotInEnvelope e \<and> de_Permanent e | Some (Inr _) \<Rightarrow> False;
    re_Status r = StatusUpstreamError; re_Permanent r; re_Policy r = mp_Name p; re_Backend r = key; re_RetryAfter r = 0\<rbrakk>
    \<Longrightarrow> outcome C req l (pre @ delivery cfg d req @
          [rejected (request_event req\<lparr>ev_Policy := mp_Name p, ev_Backend := key\<rparr>) ''upstream_rejected'']) r l'"
| transient: "\<lbrakk>opened C req p key cfg d; admits C p l pre l'; refunds C p l' post l'';
    upstream d req = Some (Inl e); \<not> de_RecipientNotInEnvelope e; \<not> de_Permanent e;
    re_Status r = StatusUpstreamError; \<not> re_Permanent r; re_Policy r = mp_Name p; re_Backend r = key;
    re_RetryAfter r = RetryAfter e\<rbrakk>
    \<Longrightarrow> outcome C req l (pre @ delivery cfg d req @
          rejected (request_event req\<lparr>ev_Policy := mp_Name p, ev_Backend := key\<rparr>) ''upstream_error'' # post) r l''"
| accepted: "\<lbrakk>opened C req p key cfg d; admits C p l pre l'; upstream d req = Some (Inr res);
    re_Status r = StatusAccepted; re_Policy r = mp_Name p; re_Backend r = key;
    re_UpstreamID r = sr_UpstreamID res; re_AcceptedAt r = Some (sr_AcceptedAt res)\<rbrakk>
    \<Longrightarrow> outcome C req l (pre @ delivery cfg d req @
          [Recorded (request_event req\<lparr>ev_Policy := mp_Name p, ev_Backend := key, ev_Decision := DecisionAccept\<rparr>)]) r l'"

text \<open>A state after an outcome: the effects appended, the limiter's state replaced.\<close>

definition reaches :: "'l gateway \<Rightarrow> effect list \<Rightarrow> 'l \<Rightarrow> 'l gateway \<Rightarrow> bool" where
  "reaches g effs l' g' \<longleftrightarrow> g_trace g' = g_trace g @ effs \<and> g_limiter g' = l'"

lemmas step_defs = reaches_def emit_def Reject_def rejected_def result_def send_deny_def send_notReady_def

text \<open>The driver's result: its answer, or a permanent error when it takes no raw messages.\<close>

definition answers :: "driver \<Rightarrow> Request \<Rightarrow> driver_error + SendResult \<Rightarrow> bool" where
  "answers d req r \<longleftrightarrow> (case upstream d req of Some x \<Rightarrow> r = x
     | None \<Rightarrow> (\<exists>e. r = Inl e \<and> \<not> de_RecipientNotInEnvelope e \<and> de_Permanent e))"

lemma driverSend_answers: "answers d req (snd (driverSend cfg d key req g))"
proof (cases "rq_Raw req")
  case (Some raw)
  show ?thesis
  proof (cases "dr_SendRaw d")
    case None
    then have u: "upstream d req = None" using Some by (simp add: upstream_def)
    show ?thesis unfolding answers_def u option.case
      by (rule exI [of _ "\<lparr>de_NoReadyEndpoint = False, de_Transient = False, de_Permanent = True,
          de_RecipientNotInEnvelope = False, de_RetryAfter = None,
          de_Message = ''upstream permanent error: backend '' @ key @ '' cannot relay raw messages''\<rparr>"])
        (simp add: driverSend_def Some None)
  qed (simp add: answers_def upstream_def driverSend_def Some)
qed (simp add: answers_def upstream_def driverSend_def)

lemma driverSend_effects:
  "driverSend cfg d key req g = (g', r) \<Longrightarrow>
     g_trace g' = g_trace g @ delivery cfg d req \<and> g_limiter g' = g_limiter g \<and> g_validity g' = g_validity g \<and>
     answers d req r"
  using driverSend_answers [of d req cfg key g]
  by (auto simp: driverSend_def delivery_def emit_def split: option.splits)

lemma answers_cases:
  assumes "answers d req r"
  obtains (ok) res where "r = Inr res" "upstream d req = Some (Inr res)"
  | (header) e where "r = Inl e" "upstream d req = Some (Inl e)" "de_RecipientNotInEnvelope e"
  | (perm) e where "r = Inl e" "\<not> de_RecipientNotInEnvelope e" "de_Permanent e"
      "case upstream d req of None \<Rightarrow> True | Some (Inl e) \<Rightarrow> \<not> de_RecipientNotInEnvelope e \<and> de_Permanent e | Some (Inr _) \<Rightarrow> False"
  | (trans) e where "r = Inl e" "upstream d req = Some (Inl e)" "\<not> de_RecipientNotInEnvelope e" "\<not> de_Permanent e"
proof (cases "upstream d req")
  case None
  then obtain e where "r = Inl e" "\<not> de_RecipientNotInEnvelope e" "de_Permanent e"
    using assms by (auto simp: answers_def)
  then show ?thesis using perm None by simp
next
  case (Some x)
  then have r: "r = x" using assms by (simp add: answers_def)
  show ?thesis
  proof (cases x)
    case (Inl e)
    consider "de_RecipientNotInEnvelope e" | "\<not> de_RecipientNotInEnvelope e" "de_Permanent e"
      | "\<not> de_RecipientNotInEnvelope e" "\<not> de_Permanent e" by blast
    then show ?thesis
    proof cases
      case 1
      then show ?thesis using header [of e] Some Inl r by simp
    next
      case 2
      then show ?thesis using perm [of e] Some Inl r by simp
    next
      case 3
      then show ?thesis using trans [of e] Some Inl r by simp
    qed
  next
    case (Inr res)
    then show ?thesis using ok [of res] Some r by simp
  qed
qed

lemma refund_effects:
  assumes "charged \<longleftrightarrow> \<not> limits_None (policyLimits p)"
  shows "\<exists>post. refunds C p (g_limiter g) post (g_limiter (refund C charged (chargeKey p) g)) \<and>
    g_trace (refund C charged (chargeKey p) g) = g_trace g @ post"
  using assms by (auto simp: refund_def refunds_def emit_def)

lemma send_finish_outcome:
  assumes o: "opened C req p key cfg d" and a: "admits C p l pre (g_limiter g)"
    and t: "g_trace g = t0 @ pre @ delivery cfg d req"
    and c: "charged \<longleftrightarrow> \<not> limits_None (policyLimits p)"
    and r: "answers d req r"
  shows "\<exists>effs. outcome C req l effs
      (snd (send_finish C (request_event req\<lparr>ev_Policy := mp_Name p, ev_Backend := key\<rparr>) p key charged r g))
      (g_limiter (fst (send_finish C (request_event req\<lparr>ev_Policy := mp_Name p, ev_Backend := key\<rparr>) p key charged r g))) \<and>
    g_trace (fst (send_finish C (request_event req\<lparr>ev_Policy := mp_Name p, ev_Backend := key\<rparr>) p key charged r g)) =
      t0 @ effs"
proof -
  let ?ev = "request_event req\<lparr>ev_Policy := mp_Name p, ev_Backend := key\<rparr>"
  obtain post where post: "refunds C p (g_limiter g) post (g_limiter (refund C charged (chargeKey p) g))"
      "g_trace (refund C charged (chargeKey p) g) = g_trace g @ post"
    using refund_effects [OF c] by blast
  have k: "mp_Namespace p @ CHR ''/'' # mp_Name p = chargeKey p" by (simp add: chargeKey_def)
  from r show ?thesis
  proof (cases rule: answers_cases)
    case ok
    show ?thesis
      by (rule exI, rule conjI, rule outcome.accepted [OF o _ ok(2)])
        (use a in \<open>simp_all add: send_finish_def ok t step_defs\<close>)
  next
    case header
    show ?thesis
      by (rule exI, rule conjI, rule outcome.header_recipient [OF o a, of post _ _, OF _ header(2,3)])
        (use post in \<open>simp_all add: send_finish_def Let_def header t step_defs k\<close>)
  next
    case perm
    show ?thesis
      by (rule exI, rule conjI, rule outcome.permanent [OF o _ perm(4)])
        (use a in \<open>simp_all add: send_finish_def Let_def perm t step_defs\<close>)
  next
    case trans
    let ?g = "Reject g ?ev ''upstream_error''"
    obtain post where post: "refunds C p (g_limiter ?g) post (g_limiter (refund C charged (chargeKey p) ?g))"
        "g_trace (refund C charged (chargeKey p) ?g) = g_trace ?g @ post"
      using refund_effects [OF c] by blast
    have "admits C p l pre (g_limiter ?g)" using a by (simp add: step_defs)
    note outcome.transient [OF o this post(1) trans(2-4)]
    then show ?thesis
      by (intro exI conjI) (use post in \<open>auto simp add: send_finish_def Let_def trans t k Reject_def
        emit_def rejected_def result_def\<close>)
  qed
qed

text \<open>From an open driver on.\<close>

definition send_opened ::
    "'l cluster \<Rightarrow> Request \<Rightarrow> Event \<Rightarrow> MailPolicy \<Rightarrow> string \<Rightarrow> DConfig \<Rightarrow> driver \<Rightarrow> 'l gateway \<Rightarrow> 'l gateway \<times> Result" where
  "send_opened C req ev p key cfg d g = (case send_charge C ev p g of
     (g, Inl early) \<Rightarrow> (g, early)
   | (g, Inr charged) \<Rightarrow> (case driverSend cfg d key req g of (g, r) \<Rightarrow> send_finish C ev p key charged r g))"

lemma send_opened_outcome:
  assumes o: "opened C req p key cfg d"
  defines "ev \<equiv> request_event req\<lparr>ev_Policy := mp_Name p, ev_Backend := key\<rparr>"
  shows "\<exists>effs. outcome C req (g_limiter g) effs (snd (send_opened C req ev p key cfg d g))
      (g_limiter (fst (send_opened C req ev p key cfg d g))) \<and>
    g_trace (fst (send_opened C req ev p key cfg d g)) = g_trace g @ effs"
proof -
  have k: "mp_Namespace p @ CHR ''/'' # mp_Name p = chargeKey p" by (simp add: chargeKey_def)
  let ?c = "charge C p (g_limiter g)"
  have fin: ?thesis if c: "send_charge C ev p g = (g1, Inr charged)"
    and a: "admits C p (g_limiter g) pre (g_limiter g1)" "g_trace g1 = g_trace g @ pre"
    and b: "charged \<longleftrightarrow> \<not> limits_None (policyLimits p)" for g1 pre charged
  proof -
    obtain g2 r where d: "driverSend cfg d key req g1 = (g2, r)" by fastforce
    note e = driverSend_effects [OF d]
    show ?thesis
      using send_finish_outcome [OF o, of "g_limiter g" pre g2 "g_trace g" charged r] a b c d e
      by (simp add: send_opened_def ev_def)
  qed
  consider (none) "limits_None (policyLimits p)"
    | (err) "\<not> limits_None (policyLimits p)" "al_err (snd ?c) \<noteq> None"
    | (limited) "\<not> limits_None (policyLimits p)" "al_err (snd ?c) = None" "\<not> al_allowed (snd ?c)"
    | (ok) "\<not> limits_None (policyLimits p)" "al_err (snd ?c) = None" "al_allowed (snd ?c)" by blast
  then show ?thesis
  proof cases
    case none
    then have "send_charge C ev p g = (g, Inr False)" by (simp add: send_charge_def)
    from fin [OF this, of "[]"] show ?thesis using none by (simp add: admits_def)
  next
    case err
    have c: "send_opened C req ev p key cfg d g =
        (Reject (emit (Charged (chargeKey p) (policyLimits p)) (g\<lparr>g_limiter := fst ?c\<rparr>)) ev ''ratelimit_unavailable'',
         (result StatusUnavailable (mp_Name p))\<lparr>re_Detail := Text ''rate limiter unavailable; retry later''\<rparr>)"
      using err by (simp add: send_opened_def send_charge_def Let_def charge_def k split_beta)
    show ?thesis unfolding c
      by (rule exI, rule conjI, simp add: step_defs, rule outcome.unavailable [OF o err])
        (simp_all add: step_defs ev_def)
  next
    case limited
    have c: "send_opened C req ev p key cfg d g =
        (Reject (emit (Charged (chargeKey p) (policyLimits p)) (g\<lparr>g_limiter := fst ?c\<rparr>)) ev ''rate_limited'',
         (result StatusRateLimited (mp_Name p))\<lparr>re_RetryAfter := al_retryAfter (snd ?c),
           re_Detail := Text (''policy '' @ CHR 0x27 # mp_Name p @ CHR 0x27 # '' rate limit exceeded'')\<rparr>)"
      using limited by (simp add: send_opened_def send_charge_def Let_def charge_def k split_beta)
    show ?thesis unfolding c
      by (rule exI, rule conjI, simp add: step_defs, rule outcome.limited [OF o limited])
        (simp_all add: step_defs ev_def)
  next
    case ok
    then have "send_charge C ev p g =
        (emit (Charged (chargeKey p) (policyLimits p)) (g\<lparr>g_limiter := fst ?c\<rparr>), Inr True)"
      by (simp add: send_charge_def Let_def charge_def k split_beta)
    from fin [OF this, of "[Charged (chargeKey p) (policyLimits p)]"] show ?thesis
      using ok by (simp add: admits_def emit_def)
  qed
qed

lemma send_admitted_outcome:
  assumes acc: "accepts C req p" and V: "valid_cache V (g_validity g)" "keyed V C"
  defines "ev \<equiv> request_event req\<lparr>ev_Policy := mp_Name p\<rparr>"
  shows "\<exists>effs. outcome C req (g_limiter g) effs (snd (send_admitted C req ev p g))
      (g_limiter (fst (send_admitted C req ev p g))) \<and>
    g_trace (fst (send_admitted C req ev p g)) = g_trace g @ effs"
proof -
  let ?g = "g\<lparr>g_validity := fst (backendForPolicy C (g_validity g) p)\<rparr>"
  note b = backendForPolicy_valid [OF V, of p]
  have b': "backendForPolicy C (g_validity g) p = (fst (backendForPolicy C (g_validity g) p), backendOf C p)"
    using b(2) by (simp add: prod_eq_iff)
  have notReady: ?thesis if "send_admitted C req ev p g = send_notReady (ev\<lparr>ev_Backend := key\<rparr>) p err ?g"
      "notOpened C req p key err" for key err
    unfolding that(1)
    by (rule exI, rule conjI, simp add: step_defs, rule outcome.not_ready [OF acc that(2)])
      (simp_all add: step_defs ev_def)
  show ?thesis
  proof (cases "backendOf C p")
    case (Inl err)
    have "ev_Backend ev = []" by (simp add: ev_def request_event_def Let_def)
    then have "ev\<lparr>ev_Backend := []\<rparr> = ev" by simp
    moreover have "send_admitted C req ev p g = send_notReady ev p err ?g"
      unfolding send_admitted_def by (subst b') (simp add: Inl)
    ultimately show ?thesis
      using Inl by (intro notReady [of "[]" err]) (simp_all add: notOpened_def)
  next
    case (Inr r)
    obtain key spec status ns where r: "r = (key, spec, status, ns)" by (cases r) auto
    have sender: "snd (case bs_AllowedSenders spec of None \<Rightarrow> ([], True)
        | Some allowed \<Rightarrow> SendersAllowed (x_unicode (c_externals C)) (request_view req) allowed) \<longleftrightarrow> senderBound C req spec"
      by (simp add: senderBound_def SendersAllowed_iff list_all_iff split: option.split)
    show ?thesis
    proof (cases "senderBound C req spec")
      case False
      note o = outcome.bounded [OF acc, of key spec status ns, OF _ False]
      show ?thesis
        unfolding send_admitted_def
        by (subst (1 2 3) b', simp only: prod.case Let_def Inr r sum.case sender False not_False_eq_True if_True,
            rule exI, rule conjI, simp add: step_defs, rule o)
          (simp_all add: Inr r step_defs ev_def)
    next
      case bound: True
      show ?thesis
      proof (cases "openDriver C (key, spec, status, ns)")
        case err: (Inl err)
        have "send_admitted C req ev p g = send_notReady (ev\<lparr>ev_Backend := key\<rparr>) p err ?g"
          unfolding send_admitted_def by (subst b') (simp add: Inr r Let_def sender bound err)
        then show ?thesis using Inr r err bound by (intro notReady [of key err]) (auto simp: notOpened_def)
      next
        case dr: (Inr cd)
        obtain cfg d where cd: "cd = (cfg, d)" by fastforce
        have o: "opened C req p key cfg d" using acc Inr r bound dr cd by (auto simp: opened_def)
        have "send_admitted C req ev p g = send_opened C req (ev\<lparr>ev_Backend := key\<rparr>) p key cfg d ?g"
          unfolding send_admitted_def by (subst b') (simp add: Inr r Let_def sender bound dr cd send_opened_def)
        then show ?thesis using send_opened_outcome [OF o, of ?g] by (simp add: ev_def)
      qed
    qed
  qed
qed

lemma outcome_limit_eq: "outcome C req l effs r l' \<Longrightarrow> l' = l'' \<Longrightarrow> outcome C req l effs r l''"
  by simp

lemma Evaluate_denied:
  assumes "\<not> dc_Allowed (Evaluate U m v)"
  shows "(\<exists>reason. dc_DenyReason (Evaluate U m v) = Some reason) \<and> dc_Policy (Evaluate U m v) = m"
  using assms Evaluate_reason [of U _ v] Evaluate_policy [of U _ v]
  by (cases m) (auto simp: Evaluate_def [of U None] deny_def)

lemma Send_outcome:
  assumes V: "valid_cache V (g_validity g)" "keyed V C"
  shows "\<exists>effs. outcome C req (g_limiter g) effs (snd (Send C req g)) (g_limiter (fst (Send C req g))) \<and>
    g_trace (fst (Send C req g)) = g_trace g @ effs"
proof -
  let ?m = "matchedPolicy C (rq_Identity req)" and ?U = "x_unicode (c_externals C)"
  let ?cv = "case ?m of None \<Rightarrow> (g_validity g, [])
     | Some p \<Rightarrow> check (g_validity g) (mp_Meta p) (ValidateMailPolicy (c_externals C) p)"
  let ?g = "g\<lparr>g_validity := fst ?cv\<rparr>"
  have key: "keyed_by V (mp_Meta p) (ValidateMailPolicy (c_externals C) p)" if "?m = Some p" for p
  proof -
    have "p \<in> set (c_Policies C (id_Namespace (rq_Identity req)))"
      using that by (auto simp: matchedPolicy_def Let_def dest: Match_SomeD(1))
    then show ?thesis using V(2) by (simp add: keyed_def)
  qed
  have cv: "valid_cache V (fst ?cv)"
      "snd ?cv = (case ?m of None \<Rightarrow> [] | Some p \<Rightarrow> ValidateMailPolicy (c_externals C) p)"
    using check_valid [OF V(1)] key V(1) by (simp_all split: option.split)
  show ?thesis
  proof (cases "snd ?cv = []")
    case False
    then obtain p where p: "?m = Some p" "ValidateMailPolicy (c_externals C) p \<noteq> []"
      using cv(2) by (auto split: option.splits)
    note o = outcome.invalid [OF p, of "snd (Send C req g)" "g_limiter g"]
    show ?thesis
      by (rule exI, rule conjI, rule o [THEN outcome_limit_eq])
        (use False p in \<open>auto simp: Send_def Let_def Reject_def emit_def rejected_def result_def nameOf_def\<close>)
  next
    case valid: True
    let ?d = "Evaluate ?U ?m (request_view req)"
    show ?thesis
    proof (cases "dc_Allowed ?d")
      case False
      obtain reason where reason: "dc_DenyReason ?d = Some reason" and dp: "dc_Policy ?d = ?m"
        using Evaluate_denied [OF False] by blast
      have v: "ValidateMailPolicy (c_externals C) p = []" if "?m = Some p" for p using cv(2) valid that by simp
      note o = outcome.refused [OF refl v False reason, of "snd (Send C req g)" "g_limiter g"]
      show ?thesis
        by (rule exI, rule conjI, rule o [THEN outcome_limit_eq])
          (use False valid reason dp in \<open>auto simp: Send_def Let_def send_deny_def emit_def rejected_def result_def request_event_def\<close>)
    next
      case True
      then obtain p where p: "?m = Some p" by (cases ?m) (auto simp: Evaluate_def deny_def)
      with True valid cv(2) have acc: "accepts C req p" by (simp add: accepts_def)
      have "Send C req g = send_admitted C req (request_event req\<lparr>ev_Policy := mp_Name p\<rparr>) p ?g"
        using True valid p by (simp add: Send_def Let_def Evaluate_policy)
      then show ?thesis using send_admitted_outcome [OF acc, of V ?g] cv(1) V(2) by simp
    qed
  qed
qed

text \<open>The pipeline without its cache.\<close>

definition forget :: "'l gateway \<Rightarrow> 'l gateway" where
  "forget g = g\<lparr>g_validity := []\<rparr>"

lemma forget_simps [simp]:
  "forget (emit e g) = emit e (forget g)" "forget (Reject g ev reason) = Reject (forget g) ev reason"
  "forget (refund C ch k g) = refund C ch k (forget g)" "g_limiter (forget g) = g_limiter g"
  "forget (g\<lparr>g_limiter := l\<rparr>) = forget g\<lparr>g_limiter := l\<rparr>" "forget (g\<lparr>g_validity := v\<rparr>) = forget g"
  "g_validity (forget g) = []" "forget g\<lparr>g_validity := v\<rparr> = g\<lparr>g_validity := v\<rparr>" "forget (forget g) = forget g"
  by (simp_all add: forget_def emit_def Reject_def refund_def)

lemma forget_results:
  "map_prod forget id (send_deny ev pn reason detail b g) = send_deny ev pn reason detail b (forget g)"
  "map_prod forget id (send_notReady ev p err g) = send_notReady ev p err (forget g)"
  "map_prod forget id (driverSend cfg d key req g) = driverSend cfg d key req (forget g)"
  "map_prod forget id (send_charge C ev p g) = send_charge C ev p (forget g)"
  "map_prod forget id (send_finish C ev p key ch r g) = send_finish C ev p key ch r (forget g)"
  by (simp_all add: send_deny_def send_notReady_def driverSend_def send_charge_def send_finish_def Let_def
      split_beta split: option.split sum.split)

lemma send_opened_forget:
  "map_prod forget id (send_opened C req ev p key cfg d g) = send_opened C req ev p key cfg d (forget g)"
proof -
  obtain g1 c where c: "send_charge C ev p g = (g1, c)" by fastforce
  then have c': "send_charge C ev p (forget g) = (forget g1, c)"
    using forget_results(4) [of C ev p g] by simp
  obtain g2 r where d: "driverSend cfg d key req g1 = (g2, r)" by fastforce
  then have "driverSend cfg d key req (forget g1) = (forget g2, r)"
    using forget_results(3) [of cfg d key req g1] by simp
  then show ?thesis using c c' d by (simp add: send_opened_def forget_results(5) split: sum.split)
qed

text \<open>After the backend lookup, \<^term>\<open>send_admitted\<close> does not use the cache.\<close>

definition send_backend ::
    "'l cluster \<Rightarrow> Request \<Rightarrow> Event \<Rightarrow> MailPolicy \<Rightarrow> not_ready_error + resolved \<Rightarrow> 'l gateway \<Rightarrow> 'l gateway \<times> Result" where
  "send_backend C req ev p b g = (case b of Inl err \<Rightarrow> send_notReady ev p err g
     | Inr (key, spec, status, ns) \<Rightarrow>
        let ev = ev\<lparr>ev_Backend := key\<rparr>;
            sender = (case bs_AllowedSenders spec of None \<Rightarrow> ([], True)
              | Some allowed \<Rightarrow> SendersAllowed (x_unicode (c_externals C)) (request_view req) allowed) in
        if \<not> snd sender then
          send_deny ev (mp_Name p) (Some DenySenderNotAllowed)
            (''sender '' @ CHR 0x27 # fst sender @ CHR 0x27 # '' not in the backend'' @ CHR 0x27 # ''s allowedSenders'')
            key g
        else (case openDriver C (key, spec, status, ns) of
            Inl err \<Rightarrow> send_notReady ev p err g
          | Inr (cfg, d) \<Rightarrow> send_opened C req ev p key cfg d g))"

lemma send_admitted_backend:
  "send_admitted C req ev p g = send_backend C req ev p (snd (backendForPolicy C (g_validity g) p))
     (g\<lparr>g_validity := fst (backendForPolicy C (g_validity g) p)\<rparr>)"
  by (simp only: send_admitted_def send_backend_def send_opened_def split_beta Let_def)

lemma send_backend_forget:
  "map_prod forget id (send_backend C req ev p b g) = send_backend C req ev p b (forget g)"
  by (simp add: send_backend_def forget_results send_opened_forget Let_def split_beta split: sum.split)

lemma no_records [simp]:
  "admits C p l effs l' \<Longrightarrow> Recorded e \<notin> set effs" "refunds C p l effs l' \<Longrightarrow> Recorded e \<notin> set effs"
  "Recorded e \<notin> set (delivery cfg d req)"
  by (auto simp: admits_def refunds_def delivery_def split: if_splits option.splits)

definition about :: "Request \<Rightarrow> Result \<Rightarrow> Event \<Rightarrow> bool" where
  "about req r ev \<longleftrightarrow> (ev_Decision ev = DecisionAccept \<longleftrightarrow> re_Status r = StatusAccepted) \<and>
     ev_Decision ev \<noteq> DecisionNone \<and> ev_Policy ev = re_Policy r \<and>
     ev_MessageID ev = rq_MessageID req \<and> ev_Namespace ev = id_Namespace (rq_Identity req) \<and>
     ev_ServiceAccount ev = id_ServiceAccount (rq_Identity req) \<and>
     ev_From ev = ad_Address (ms_From (rq_Message req)) \<and> ev_To ev = Some (Recipients (rq_Message req))"

definition recorded_once :: "Request \<Rightarrow> Result \<Rightarrow> effect list \<Rightarrow> bool" where
  "recorded_once req r effs \<longleftrightarrow> (\<exists>pre post ev. effs = pre @ Recorded ev # post \<and>
     (\<forall>e. Recorded e \<notin> set pre \<union> set post) \<and> about req r ev)"

lemma recorded_onceI:
  "(\<And>e. Recorded e \<notin> set pre) \<Longrightarrow> (\<And>e. Recorded e \<notin> set post) \<Longrightarrow> about req r ev \<Longrightarrow>
   effs = pre @ Recorded ev # post \<Longrightarrow> recorded_once req r effs"
  unfolding recorded_once_def by blast

lemma about_simps:
  "re_Status r \<noteq> StatusAccepted \<Longrightarrow> re_Policy r = pn \<Longrightarrow>
     about req r (request_event req\<lparr>ev_Policy := pn, ev_Backend := b, ev_Decision := DecisionReject, ev_Reason := reason\<rparr>)"
  "re_Status r \<noteq> StatusAccepted \<Longrightarrow> re_Policy r = pn \<Longrightarrow>
     about req r (request_event req\<lparr>ev_Policy := pn, ev_Decision := DecisionReject, ev_Reason := reason\<rparr>)"
  "re_Status r = StatusAccepted \<Longrightarrow> re_Policy r = pn \<Longrightarrow>
     about req r (request_event req\<lparr>ev_Policy := pn, ev_Backend := b, ev_Decision := DecisionAccept\<rparr>)"
  by (simp_all add: about_def request_event_def Let_def)

lemma outcome_record: "outcome C req l effs r l' \<Longrightarrow> recorded_once req r effs"
proof (induction rule: outcome.induct)
  case (invalid p r)
  then show ?case by (intro recorded_onceI [of "[]" "[]"]) (auto simp: rejected_def intro!: about_simps)
next
  case (refused m reason r)
  then show ?case
    by (intro recorded_onceI [of "[]" "[]"]) (auto simp: rejected_def intro!: about_simps)
next
  case (not_ready p b err r)
  then show ?case by (intro recorded_onceI [of "[]" "[]"]) (auto simp: rejected_def intro!: about_simps)
next
  case (bounded p key spec status ns r)
  then show ?case by (intro recorded_onceI [of "[]" "[]"]) (auto simp: rejected_def intro!: about_simps)
next
  case (limited p key cfg d r)
  then show ?case
    by (intro recorded_onceI [of "[Charged (chargeKey p) (policyLimits p)]" "[]"])
      (auto simp: rejected_def intro!: about_simps)
next
  case (unavailable p key cfg d r)
  then show ?case
    by (intro recorded_onceI [of "[Charged (chargeKey p) (policyLimits p)]" "[]"])
      (auto simp: rejected_def intro!: about_simps)
next
  case (header_recipient p key cfg d pre l' post l'' e r)
  then show ?case
    by (intro recorded_onceI [of "pre @ delivery cfg d req @ post" "[]"])
      (auto simp: rejected_def intro!: about_simps)
next
  case (permanent p key cfg d pre l' r)
  then show ?case
    by (intro recorded_onceI [of "pre @ delivery cfg d req" "[]"]) (auto simp: rejected_def intro!: about_simps)
next
  case (transient p key cfg d pre l' post l'' e r)
  then show ?case
    by (intro recorded_onceI [of "pre @ delivery cfg d req" post]) (auto simp: rejected_def intro!: about_simps)
next
  case (accepted p key cfg d pre l' res r)
  then show ?case
    by (intro recorded_onceI [of "pre @ delivery cfg d req" "[]"]) (auto intro!: about_simps)
qed

lemma g_validity_simps [simp]:
  "g_validity (emit e g) = g_validity g" "g_validity (Reject g ev reason) = g_validity g"
  "g_validity (refund C ch k g) = g_validity g"
  by (simp_all add: emit_def Reject_def refund_def)

lemma g_validity_charge [simp]: "g_validity (fst (send_charge C ev p g)) = g_validity g"
  by (simp add: send_charge_def Let_def split_beta)

lemma g_validity_driverSend [simp]: "g_validity (fst (driverSend cfg d key req g)) = g_validity g"
  by (simp add: driverSend_def split: option.split)

lemma g_validity_finish: "g_validity (fst (send_finish C ev p key ch r g)) = g_validity g"
  by (simp add: send_finish_def send_deny_def Let_def split: sum.split)

lemma g_validity_opened: "g_validity (fst (send_opened C req ev p key cfg d g)) = g_validity g"
  by (simp add: send_opened_def g_validity_finish split_beta split: sum.split)

lemma g_validity_backend: "g_validity (fst (send_backend C req ev p b g)) = g_validity g"
  by (simp add: send_backend_def send_notReady_def send_deny_def g_validity_opened Let_def split_beta
      split: sum.split)

lemma matchedPolicy_keyed:
  assumes "keyed V C" "matchedPolicy C i = Some p"
  shows "keyed_by V (mp_Meta p) (ValidateMailPolicy (c_externals C) p)"
proof -
  have "p \<in> set (c_Policies C (id_Namespace i))"
    using assms(2) by (auto simp: matchedPolicy_def Let_def dest: Match_SomeD(1))
  then show ?thesis using assms(1) by (simp add: keyed_def)
qed

text \<open>What reached a driver had passed every check.\<close>

lemma delivery_effects:
  "Sent cfg m \<in> set (delivery cfg' d req) \<longleftrightarrow> cfg' = cfg \<and> rq_Raw req = None \<and> m = rq_Message req"
  "SentRaw cfg from rs raw \<in> set (delivery cfg' d req) \<longleftrightarrow> cfg' = cfg \<and> dr_SendRaw d \<noteq> None \<and>
     rq_Raw req = Some raw \<and> rs = Recipients (rq_Message req) \<and> from = rq_EnvelopeFrom req"
  "rejected ev reason \<noteq> Sent cfg m" "rejected ev reason \<noteq> SentRaw cfg from rs raw"
  "Sent cfg m \<noteq> rejected ev reason" "SentRaw cfg from rs raw \<noteq> rejected ev reason"
  "admits C p l pre l' \<Longrightarrow> Sent cfg m \<notin> set pre" "admits C p l pre l' \<Longrightarrow> SentRaw cfg from rs raw \<notin> set pre"
  "refunds C p l pre l' \<Longrightarrow> Sent cfg m \<notin> set pre" "refunds C p l pre l' \<Longrightarrow> SentRaw cfg from rs raw \<notin> set pre"
  by (auto simp: delivery_def rejected_def admits_def refunds_def split: if_splits option.splits)

lemma outcome_delivery:
  "outcome C req l effs r l' \<Longrightarrow> Sent cfg m \<in> set effs \<or> SentRaw cfg from rs raw \<in> set effs \<Longrightarrow>
   (\<exists>p key d pre l1. opened C req p key cfg d \<and> admits C p l pre l1) \<and>
   (Sent cfg m \<in> set effs \<longrightarrow> rq_Raw req = None \<and> m = rq_Message req) \<and>
   (SentRaw cfg from rs raw \<in> set effs \<longrightarrow> rq_Raw req = Some raw \<and> rs = Recipients (rq_Message req) \<and>
      from = rq_EnvelopeFrom req)"
proof (induction rule: outcome.induct)
qed (auto simp: delivery_effects)

text \<open>
  The calls of the limiter, and what they come to for a message whose driver is open: no call without limits; else a
  charge, and then a refund exactly if the limiter admitted the message and the driver answered with an error that was
  no real attempt.
\<close>

definition limiterCall :: "effect \<Rightarrow> bool" where
  "limiterCall e \<longleftrightarrow> (case e of Charged _ _ \<Rightarrow> True | Refunded _ \<Rightarrow> True | _ \<Rightarrow> False)"

definition givesBack :: "(driver_error + SendResult) option \<Rightarrow> bool" where
  "givesBack a \<longleftrightarrow> (case a of Some (Inl e) \<Rightarrow> de_RecipientNotInEnvelope e \<or> \<not> de_Permanent e | _ \<Rightarrow> False)"

definition accounting :: "'l cluster \<Rightarrow> Request \<Rightarrow> 'l \<Rightarrow> MailPolicy \<Rightarrow> driver \<Rightarrow> effect list \<times> 'l" where
  "accounting C req l p d =
     (let key = mp_Namespace p @ ''/'' @ mp_Name p; limits = policyLimits p; c = c_Allow C l (c_Now C) key limits in
      if limits_None limits then ([], l)
      else if al_err (snd c) = None \<and> al_allowed (snd c) \<and> givesBack (upstream d req)
      then ([Charged key limits, Refunded key], fst (c_Refund C (fst c) key))
      else ([Charged key limits], fst c))"

lemma limiterCall_simps [simp]:
  "limiterCall (Charged k lim)" "limiterCall (Refunded k)" "\<not> limiterCall (Recorded e)" "\<not> limiterCall (rejected ev reason)"
  "filter limiterCall (delivery cfg d req) = []"
  by (auto simp: limiterCall_def rejected_def delivery_def split: option.splits)

lemma opened_unique: "opened C req p key cfg d \<Longrightarrow> opened C req p' key' cfg' d' \<Longrightarrow> p' = p \<and> d' = d"
  by (auto simp: opened_def accepts_def)

lemma accounting_admitted:
  assumes "admits C p l pre l'"
  shows "\<not> givesBack (upstream d req) \<Longrightarrow> (filter limiterCall pre, l') = accounting C req l p d"
    and "givesBack (upstream d req) \<Longrightarrow> refunds C p l' post l'' \<Longrightarrow>
      (filter limiterCall (pre @ post), l'') = accounting C req l p d"
  using assms by (auto simp: accounting_def admits_def refunds_def charge_def chargeKey_def Let_def split: if_splits)

lemma outcome_accounting:
  assumes "outcome C req l effs r l'"
  shows "(\<exists>p key cfg d. opened C req p key cfg d \<and> (filter limiterCall effs, l') = accounting C req l p d) \<or>
    (\<forall>p key cfg d. \<not> opened C req p key cfg d) \<and> filter limiterCall effs = [] \<and> l' = l"
  using assms
proof (cases rule: outcome.cases)
  case (invalid p)
  then have "\<not> opened C req p' key cfg d" for p' key cfg d by (auto simp: opened_def accepts_def)
  then show ?thesis using invalid by auto
next
  case (refused m reason)
  then have "\<not> opened C req p' key cfg d" for p' key cfg d by (auto simp: opened_def accepts_def)
  then show ?thesis using refused by auto
next
  case (not_ready p b err)
  then have "\<not> opened C req p' key cfg d" for p' key cfg d by (auto simp: opened_def accepts_def notOpened_def)
  then show ?thesis using not_ready by auto
next
  case (bounded p key spec status ns)
  then have "\<not> opened C req p' key cfg d" for p' key cfg d by (auto simp: opened_def accepts_def)
  then show ?thesis using bounded by auto
next
  case (limited p key cfg d)
  then have "(filter limiterCall effs, l') = accounting C req l p d"
    by (simp add: accounting_def charge_def chargeKey_def Let_def)
  then show ?thesis using limited(3) by blast
next
  case (unavailable p key cfg d)
  then have "(filter limiterCall effs, l') = accounting C req l p d"
    by (simp add: accounting_def charge_def chargeKey_def Let_def)
  then show ?thesis using unavailable(3) by blast
next
  case (header_recipient p key cfg d pre l1 post e)
  have "givesBack (upstream d req)" using header_recipient by (simp add: givesBack_def)
  from accounting_admitted(2) [OF header_recipient(3) this header_recipient(4)]
  have "(filter limiterCall effs, l') = accounting C req l p d" using header_recipient(1) by simp
  then show ?thesis using header_recipient(2) by blast
next
  case (permanent p key cfg d pre)
  have "\<not> givesBack (upstream d req)" using permanent by (auto simp: givesBack_def split: option.splits sum.splits)
  from accounting_admitted(1) [OF permanent(3) this]
  have "(filter limiterCall effs, l') = accounting C req l p d" using permanent(1) by simp
  then show ?thesis using permanent(2) by blast
next
  case (transient p key cfg d pre l1 post e)
  have "givesBack (upstream d req)" using transient by (simp add: givesBack_def)
  from accounting_admitted(2) [OF transient(3) this transient(4)]
  have "(filter limiterCall effs, l') = accounting C req l p d" using transient(1) by simp
  then show ?thesis using transient(2) by blast
next
  case (accepted p key cfg d pre res)
  have "\<not> givesBack (upstream d req)" using accepted by (simp add: givesBack_def)
  from accounting_admitted(1) [OF accepted(3) this]
  have "(filter limiterCall effs, l') = accounting C req l p d" using accepted(1) by simp
  then show ?thesis using accepted(2) by blast
qed

text \<open>\<^term>\<open>Send\<close> after the validity of the matched policy is known.\<close>

definition send_checked ::
    "'l cluster \<Rightarrow> Request \<Rightarrow> MailPolicy option \<Rightarrow> field_error list \<Rightarrow> 'l gateway \<Rightarrow> 'l gateway \<times> Result" where
  "send_checked C req matched errs g =
     (if errs \<noteq> [] then
           (Reject g (request_event req\<lparr>ev_Policy := nameOf matched\<rparr>) ''policy_invalid'',
            (result StatusPolicyInvalid (nameOf matched))\<lparr>re_Detail :=
               Text (''MailPolicy '' @ CHR 0x22 # nameOf matched @ CHR 0x22 #
                 '' is invalid; its Ready condition names the problem'')\<rparr>)
         else
           let decision = Evaluate (x_unicode (c_externals C)) matched (request_view req) in
           if \<not> dc_Allowed decision then
             send_deny (request_event req) (nameOf (dc_Policy decision)) (dc_DenyReason decision)
               (dc_DenyDetail decision) [] g
           else case dc_Policy decision of
             None \<Rightarrow> (g, result StatusDenied [])
           | Some p \<Rightarrow> send_admitted C req (request_event req\<lparr>ev_Policy := mp_Name p\<rparr>) p g)"

definition validated :: "'l cluster \<Rightarrow> Request \<Rightarrow> validityCache \<Rightarrow> validityCache \<times> field_error list" where
  "validated C req cache = (case matchedPolicy C (rq_Identity req) of None \<Rightarrow> (cache, [])
     | Some p \<Rightarrow> check cache (mp_Meta p) (ValidateMailPolicy (c_externals C) p))"

lemma Send_checked:
  "Send C req g = send_checked C req (matchedPolicy C (rq_Identity req)) (snd (validated C req (g_validity g)))
     (g\<lparr>g_validity := fst (validated C req (g_validity g))\<rparr>)"
  by (simp only: Send_def send_checked_def validated_def Let_def)

lemma validated_valid:
  assumes "keyed V C" "valid_cache V c"
  shows "valid_cache V (fst (validated C req c))" "snd (validated C req c) = snd (validated C req [])"
  using check_valid [OF assms(2)] matchedPolicy_keyed [OF assms(1)] assms(2)
  by (simp_all add: validated_def split: option.split)

lemma send_checked_forget:
  assumes "keyed V C" "valid_cache V c"
  shows "map_prod forget id (send_checked C req m errs (g\<lparr>g_validity := c\<rparr>)) =
      map_prod forget id (send_checked C req m errs (g\<lparr>g_validity := []\<rparr>))"
    and "valid_cache V (g_validity (fst (send_checked C req m errs (g\<lparr>g_validity := c\<rparr>))))"
proof -
  have "map_prod forget id (send_admitted C req ev p (g\<lparr>g_validity := c\<rparr>)) =
      send_backend C req ev p (backendOf C p) (forget g)" if "valid_cache V c" for c ev p
    using backendForPolicy_valid(2) [OF that assms(1), of p]
    by (simp add: send_admitted_backend send_backend_forget)
  note adm = this [OF assms(2)] this [OF valid_cache_Nil]
  show "map_prod forget id (send_checked C req m errs (g\<lparr>g_validity := c\<rparr>)) =
      map_prod forget id (send_checked C req m errs (g\<lparr>g_validity := []\<rparr>))"
    by (simp add: send_checked_def Let_def adm forget_results split: option.split)
  have "valid_cache V (g_validity (fst (send_admitted C req ev p (g\<lparr>g_validity := c\<rparr>))))" for ev p
    using backendForPolicy_valid(1) [OF assms(2,1), of p]
    by (simp add: send_admitted_backend g_validity_backend)
  then show "valid_cache V (g_validity (fst (send_checked C req m errs (g\<lparr>g_validity := c\<rparr>))))"
    using assms(2) by (simp add: send_checked_def Let_def send_deny_def split: option.split)
qed

lemma Send_forget:
  assumes "keyed V C" "valid_cache V (g_validity g)"
  shows "map_prod forget id (Send C req g) = map_prod forget id (Send C req (forget g))"
    and "valid_cache V (g_validity (fst (Send C req g)))"
proof -
  note v = validated_valid [OF assms, of req] and n = validated_valid [OF assms(1) valid_cache_Nil, of req]
  show "map_prod forget id (Send C req g) = map_prod forget id (Send C req (forget g))"
    using send_checked_forget(1) [OF assms(1) v(1)] send_checked_forget(1) [OF assms(1) n(1)] v(2)
    by (simp add: Send_checked)
  show "valid_cache V (g_validity (fst (Send C req g)))"
    using send_checked_forget(2) [OF assms(1) v(1)] by (simp add: Send_checked)
qed

lemma gateway_forget_eq:
  "forget g = forget h \<Longrightarrow> g_trace g = g_trace h \<and> g_limiter g = g_limiter h"
  by (metis forget_def gateway.select_convs gateway.surjective gateway.update_convs(1))

section \<open>Properties\<close>

text \<open>C7. The pipeline implements its specification: whatever the cluster, the message and a
  cache filled by earlier sends, the effects of \<^verbatim>\<open>Send\<close>, its result and the limiter's new state
  are one of the ten outcomes, each under the checks it requires and the answer the driver gave, in the order it
  prescribes (the backend is resolved before the limit is charged, the audit record with its reason is written on
  every path, the hit is given back exactly when the driver's error was no real attempt, and the result carries the
  driver's queue ID or retry delay).  Assumed: UID and generation of an object determine its validation, as the
  cache presumes.\<close>

theorem Send_refines_outcome:
  assumes "keyed V C" "valid_cache V (g_validity g)"
  shows "\<exists>effs. outcome C req (g_limiter g) effs (snd (Send C req g)) (g_limiter (fst (Send C req g))) \<and>
    g_trace (fst (Send C req g)) = g_trace g @ effs"
  using Send_outcome [OF assms(2,1)] .

text \<open>C10. Whatever happens, a send writes exactly one audit record; it names the caller, the
  sender, the recipients and the policy of the result, and it says accepted exactly if the
  result does.\<close>

theorem Send_audited_once:
  assumes "keyed V C" "valid_cache V (g_validity g)"
  shows "\<exists>pre post ev. g_trace (fst (Send C req g)) = g_trace g @ pre @ Recorded ev # post \<and>
    (\<forall>e. Recorded e \<notin> set pre \<union> set post) \<and>
    (ev_Decision ev = DecisionAccept \<longleftrightarrow> re_Status (snd (Send C req g)) = StatusAccepted) \<and>
    ev_Decision ev \<noteq> DecisionNone \<and> ev_Policy ev = re_Policy (snd (Send C req g)) \<and>
    ev_MessageID ev = rq_MessageID req \<and> ev_Namespace ev = id_Namespace (rq_Identity req) \<and>
    ev_ServiceAccount ev = id_ServiceAccount (rq_Identity req) \<and>
    ev_From ev = ad_Address (ms_From (rq_Message req)) \<and> ev_To ev = Some (Recipients (rq_Message req))"
proof -
  obtain effs where o: "outcome C req (g_limiter g) effs (snd (Send C req g)) (g_limiter (fst (Send C req g)))"
      "g_trace (fst (Send C req g)) = g_trace g @ effs"
    using Send_outcome [OF assms(2,1)] by blast
  from outcome_record [OF o(1)] obtain pre post ev
    where "effs = pre @ Recorded ev # post" "\<forall>e. Recorded e \<notin> set pre \<union> set post" "about req (snd (Send C req g)) ev"
    unfolding recorded_once_def by blast
  then show ?thesis using o(2) unfolding about_def by blast
qed

text \<open>C1. A message reaches a driver only after every check: there is a policy that admission
  accepts and that matches the caller and admits the message, its backend is Ready and allows
  the senders, and the rate limit admitted it; and the driver is given exactly the recipients
  the policy was evaluated on.\<close>

theorem Send_delivers_only_checked:
  assumes "keyed V C" "valid_cache V (g_validity g)" "g_trace (fst (Send C req g)) = g_trace g @ effs"
    and "Sent cfg m \<in> set effs \<or> SentRaw cfg from rs raw \<in> set effs"
  shows "(\<exists>p key spec status ns. matchedPolicy C (rq_Identity req) = Some p \<and>
      ValidateMailPolicy (c_externals C) p = [] \<and>
      dc_Allowed (Evaluate (x_unicode (c_externals C)) (Some p) (request_view req)) \<and>
      backendOf C p = Inr (key, spec, status, ns) \<and> senderBound C req spec \<and>
      (limits_None (policyLimits p) \<or>
        al_allowed (snd (c_Allow C (g_limiter g) (c_Now C) (chargeKey p) (policyLimits p))))) \<and>
    (Sent cfg m \<in> set effs \<longrightarrow> m = rq_Message req) \<and>
    (SentRaw cfg from rs raw \<in> set effs \<longrightarrow> rs = mv_Recipients (request_view req))"
proof -
  obtain effs' where o: "outcome C req (g_limiter g) effs' (snd (Send C req g)) (g_limiter (fst (Send C req g)))"
      "g_trace (fst (Send C req g)) = g_trace g @ effs'"
    using Send_outcome [OF assms(2,1)] by blast
  then have e: "effs' = effs" using assms(3) by simp
  from outcome_delivery [OF o(1), unfolded e, OF assms(4)] show ?thesis
    unfolding opened_def accepts_def admits_def charge_def request_view_def
    by (auto split: if_splits)
qed

text \<open>C26. The limiter is charged and refunded as documented, and by nothing else: when no driver was opened for the
  message (no valid policy admits it, or its backend is not ready or does not allow the sender) the limiter is not called and
  keeps its state; otherwise a policy with limits is charged once, and the hit is given back exactly if the limiter admitted
  the message and the driver refused a recipient of the header or failed in a way that is not permanent.  Assumed:
  UID and generation of an object determine its validation.\<close>

theorem Send_accounting:
  assumes "keyed V C" "valid_cache V (g_validity g)"
  shows "\<exists>effs. g_trace (fst (Send C req g)) = g_trace g @ effs \<and>
    (\<forall>p key cfg d. opened C req p key cfg d \<longrightarrow>
       (filter limiterCall effs, g_limiter (fst (Send C req g))) = accounting C req (g_limiter g) p d) \<and>
    ((\<forall>p key cfg d. \<not> opened C req p key cfg d) \<longrightarrow>
       filter limiterCall effs = [] \<and> g_limiter (fst (Send C req g)) = g_limiter g)"
proof -
  obtain effs where o: "outcome C req (g_limiter g) effs (snd (Send C req g)) (g_limiter (fst (Send C req g)))"
      "g_trace (fst (Send C req g)) = g_trace g @ effs"
    using Send_outcome [OF assms(2,1)] by blast
  from outcome_accounting [OF o(1)] show ?thesis
  proof
    assume "\<exists>p key cfg d. opened C req p key cfg d \<and>
      (filter limiterCall effs, g_limiter (fst (Send C req g))) = accounting C req (g_limiter g) p d"
    then obtain p key cfg d where p: "opened C req p key cfg d"
      "(filter limiterCall effs, g_limiter (fst (Send C req g))) = accounting C req (g_limiter g) p d" by blast
    then have "(filter limiterCall effs, g_limiter (fst (Send C req g))) = accounting C req (g_limiter g) p' d'"
      if "opened C req p' key' cfg' d'" for p' key' cfg' d'
      using opened_unique [OF p(1) that] by simp
    then show ?thesis using o(2) p(1) by blast
  qed (use o(2) in blast)
qed

text \<open>C25. The validity cache changes nothing but work: if UID and generation determine the outcome
  of validation, a send with any cache that earlier sends filled has the result, the effects
  and the limiter state of a send without one, and leaves such a cache of at most 4096
  entries.\<close>

theorem Send_cache_transparent:
  assumes "keyed V C" "valid_cache V (g_validity g)"
  shows "snd (Send C req g) = snd (Send C req (g\<lparr>g_validity := []\<rparr>)) \<and>
    g_trace (fst (Send C req g)) = g_trace (fst (Send C req (g\<lparr>g_validity := []\<rparr>))) \<and>
    g_limiter (fst (Send C req g)) = g_limiter (fst (Send C req (g\<lparr>g_validity := []\<rparr>))) \<and>
    valid_cache V (g_validity (fst (Send C req g)))"
proof -
  note same = Send_forget [OF assms, of req]
  have "snd (Send C req g) = snd (Send C req (forget g))" "forget (fst (Send C req g)) = forget (fst (Send C req (forget g)))"
    using same(1) by (metis snd_map_prod id_apply prod.collapse, metis fst_map_prod prod.collapse)
  then show ?thesis using same(2) gateway_forget_eq unfolding forget_def by blast
qed

text \<open>The endpoint order: the endpoints a probe found unready move behind the others, nothing is
  lost or added, and within both groups the declared order stays.\<close>

theorem preferReadyEndpoints_order:
  "\<exists>unready. preferReadyEndpoints eps probed = filter (\<lambda>ep. \<not> unready ep) eps @ filter unready eps \<and>
    mset (preferReadyEndpoints eps probed) = mset eps \<and>
    (\<forall>ep. unready ep \<longleftrightarrow> (\<exists>st\<in>set probed. \<not> es_Ready st \<and>
       JoinHostPort (es_Host st) (Itoa (es_Port st)) = JoinHostPort (de_Host ep) (Itoa (de_Port ep))))"
proof -
  let ?u = "\<lambda>ep. \<exists>st\<in>set probed. \<not> es_Ready st \<and>
       JoinHostPort (es_Host st) (Itoa (es_Port st)) = JoinHostPort (de_Host ep) (Itoa (de_Port ep))"
  have e: "preferReadyEndpoints eps probed = filter (\<lambda>ep. \<not> ?u ep) eps @ filter ?u eps"
  proof (cases "list_all es_Ready probed")
    case True
    then have u: "\<not> ?u ep" for ep by (auto simp: list_all_iff)
    have "filter (\<lambda>ep. \<not> ?u ep) eps = eps" "filter ?u eps = []"
      by (rule filter_True, use u in blast) (rule filter_False, use u in blast)
    then show ?thesis using True by (simp only: preferReadyEndpoints_def Let_def if_True append_Nil2)
  qed (simp add: preferReadyEndpoints_def list_ex_iff)
  have "mset (filter (\<lambda>ep. \<not> ?u ep) eps @ filter ?u eps) = mset eps"
    by (simp only: mset_append mset_filter add.commute [of "filter_mset (\<lambda>ep. \<not> ?u ep) _"] multiset_partition [symmetric])
  then show ?thesis using e by (intro exI [of _ ?u]) simp
qed

section \<open>A send, evaluated\<close>

definition sample_meta :: "string \<Rightarrow> ObjectMeta" where
  "sample_meta name = \<lparr>om_Name = name, om_Namespace = ''apps'', om_UID = ''u1'', om_Generation = 1,
     om_Labels = [], om_Annotations = [], om_DeletionTimestamp = None\<rparr>"

definition sample_backend :: MailBackend where
  "sample_backend = \<lparr>mb_Meta = sample_meta ''relay'', mb_Spec = sample_spec [],
     mb_Status = \<lparr>bst_Capabilities = [], bst_EndpointStatus = [], bst_Conditions =
       [\<lparr>cond_Type = ''Ready'', cond_Status = ''True'', cond_ObservedGeneration = 1, cond_LastTransitionTime = 0,
         cond_Reason = [], cond_Message = []\<rparr>], bst_LastProbeTime = None, bst_ObservedGeneration = 1\<rparr>\<rparr>"

definition sample_driver :: driver where
  "sample_driver = \<lparr>dr_Send = (\<lambda>_. Inr \<lparr>sr_UpstreamID = ''q1'', sr_AcceptedAt = 7\<rparr>), dr_SendRaw = None,
     dr_HealthCheck = [], dr_Capabilities = []\<rparr>"

definition sample_cluster :: "unit cluster" where
  "sample_cluster = \<lparr>c_externals = sample_externals, c_implemented = (\<lambda>t. t = BackendSMTP),
     c_Policies = (\<lambda>_. [sample_policy ''a'' 5 ''app'']), c_ServiceAccount = (\<lambda>_ _. None),
     c_MailBackend = (\<lambda>_ _. Inr sample_backend), c_ClusterMailBackend = (\<lambda>_. Inl NotFound),
     c_Secret = (\<lambda>ns n. Inr (sample_secret ns n ''pw'')), c_pemOK = (\<lambda>_. True),
     c_NewDriver = (\<lambda>_. Inr sample_driver), c_Allow = noLimit_Allow, c_Refund = noLimit_Refund, c_Now = 0\<rparr>"

definition sample_request :: Request where
  "sample_request = \<lparr>rq_Identity = \<lparr>id_Namespace = ''apps'', id_ServiceAccount = ''app'',
       id_AuthMethod = AuthOAuthBearer, id_PodLabels = [], id_Credential = [], id_CredentialPrevious = False\<rparr>,
     rq_Transport = ''rest'', rq_MessageID = ''m1'',
     rq_Message = \<lparr>ms_MessageID = ''m1'', ms_From = \<lparr>ad_Name = [], ad_Address = ''App@ex.com''\<rparr>,
       ms_To = [\<lparr>ad_Name = [], ad_Address = ''x@ok.com''\<rparr>], ms_Cc = [], ms_Bcc = [], ms_Subject = ''hi'',
       ms_Body = \<lparr>bd_Text = ''t'', bd_HTML = []\<rparr>, ms_Attachments = [], ms_Headers = []\<rparr>,
     rq_Raw = None, rq_EnvelopeFrom = [], rq_Sender = [], rq_ReplyTo = [], rq_SizeBytes = 50\<rparr>"

definition sample_gateway :: "unit gateway" where
  "sample_gateway = \<lparr>g_validity = [], g_limiter = (), g_trace = []\<rparr>"

lemma sample_policy_valid: "ValidateMailPolicy sample_externals (sample_policy ''a'' 5 ''app'') = []"
proof -
  have "host_bytes (ToLower sample_tables ''evil.com'')"
    by (simp add: host_bytes_def label_byte_def ToLower_def go_defs)
  then show ?thesis
    by (simp add: ValidateMailPolicy_def policy_validate_def policyErrors_def sample_policy_def
        validateSubject_def validateBackendRef_def policySenderErrors_def validateDomains_def
        validateRecipients_def sample_externals_def Let_def go_defs)
qed

lemma sample_backend_valid: "ValidateMailBackend sample_externals (\<lambda>t. t = BackendSMTP) sample_backend = []"
  by (simp add: ValidateMailBackend_def backend_validate_def sample_backend_def sample_spec_def validateSMTP_def
      Let_def validateEndpoint_def validateCredentialsRef_def senderList_def)

lemma sample_keyed: "keyed (\<lambda>_ _. []) sample_cluster"
  using sample_policy_valid sample_backend_valid
  by (simp add: keyed_def keyed_by_def sample_cluster_def)

lemma sample_view_eq: "request_view sample_request = sample_view [''x@ok.com'']"
  by (simp add: request_view_def sample_request_def sample_view_def Recipients_def)

lemma sample_allowed:
  "dc_Allowed (Evaluate sample_tables (Some (sample_policy ''a'' 5 ''app'')) (sample_view [''x@ok.com'']))"
proof -
  have "AddressMatches sample_tables ''App@ex.com'' ''*@ex.com''" by (simp add: glob_eval)
  moreover have "ValidateMailbox ''x@ok.com'' = None" by (simp add: mailbox_eval)
  moreover have "\<not> EqualFold sample_tables ''evil.com'' (domainOf sample_tables ''x@ok.com'')"
    by (subst EqualFold_ascii) (simp_all add: domainOf_def ToLower_def go_defs)
  ultimately show ?thesis
    by (simp add: Evaluate_allowed_iff evaluateLimits_None_iff evaluateSenders_None_iff
        evaluateAddresses_None_iff recipientRefused_def senderAllowed_def recipientAllowed_def
        sample_policy_def sample_view_def senders_def int32_def)
qed

lemma sample_matched:
  "matchedPolicy sample_cluster (rq_Identity sample_request) = Some (sample_policy ''a'' 5 ''app'')"
  by (simp add: matchedPolicy_def Let_def sample_cluster_def Match_def matchCandidate_def subjectMatches_def
      subjectHit_def request_caller_def sample_request_def sample_policy_def)

lemma sample_Send_like:
  assumes "rq_Identity req = rq_Identity sample_request" "request_view req = request_view sample_request" "rq_Raw req = None"
  shows "g_trace (fst (Send sample_cluster req sample_gateway)) \<noteq> [] \<and>
   re_Status (snd (Send sample_cluster req sample_gateway)) = StatusAccepted \<and>
   (\<exists>cfg. Sent cfg (rq_Message req) \<in> set (g_trace (fst (Send sample_cluster req sample_gateway))))"
proof -
  note matched = sample_matched [folded assms(1)]
  let ?p = "sample_policy ''a'' 5 ''app''"
  have v: "validated sample_cluster req [] =
      ([(mp_UID ?p, \<lparr>v_generation = 1, v_err = []\<rparr>)], [])"
  proof -
    have "c_externals sample_cluster = sample_externals" by (simp add: sample_cluster_def)
    moreover have "om_Generation (mp_Meta ?p) = 1" "mp_UID ?p \<noteq> []" by (simp_all add: sample_policy_def)
    ultimately show ?thesis
      by (simp add: validated_def matched check_def Let_def sample_policy_valid)
  qed
  obtain cache where b: "backendForPolicy sample_cluster [(mp_UID ?p, \<lparr>v_generation = 1, v_err = []\<rparr>)] ?p =
      (cache, Inr (''apps/relay'', sample_spec [], mb_Status sample_backend, ''apps''))"
    using sample_backend_valid
    by (simp add: backendForPolicy_def mailBackendForPolicy_def sample_policy_def sample_cluster_def
        check_def backendIsReady_def sample_backend_def sample_meta_def Let_def)
  have "\<exists>cfg. openDriver sample_cluster (''apps/relay'', sample_spec [], mb_Status sample_backend, ''apps'') =
      Inr (cfg, sample_driver)"
    by (simp add: openDriver_def ResolveBackendConfig_def resolveSMTP_def sample_spec_def sample_cluster_def
        credentialsSecret_def backendSecret_def Let_def)
  then obtain cfg where o: "openDriver sample_cluster
      (''apps/relay'', sample_spec [], mb_Status sample_backend, ''apps'') = Inr (cfg, sample_driver)" by blast
  have e: "dc_Allowed (Evaluate (x_unicode (c_externals sample_cluster)) (Some ?p) (request_view req))"
    using sample_allowed by (simp add: assms(2) sample_view_eq sample_cluster_def sample_externals_def)
  have l: "limits_None (policyLimits ?p)" by (simp add: policyLimits_def sample_policy_def limits_None_def)
  note r = assms(3)
  have s: "bs_AllowedSenders (sample_spec []) = None" by (simp add: sample_spec_def)
  have g: "sample_gateway\<lparr>g_validity := c\<rparr> = \<lparr>g_validity = c, g_limiter = (), g_trace = []\<rparr>"
      "g_validity sample_gateway = []" for c
    by (simp_all add: sample_gateway_def)
  show ?thesis
    by (simp add: Send_checked g v send_checked_def matched e Evaluate_policy send_admitted_def b o l r s
        Let_def send_charge_def driverSend_def send_finish_def emit_def result_def
        sample_driver_def [THEN arg_cong, of dr_Send])
qed

lemma sample_Send:
  "g_trace (fst (Send sample_cluster sample_request sample_gateway)) \<noteq> [] \<and>
   re_Status (snd (Send sample_cluster sample_request sample_gateway)) = StatusAccepted \<and>
   (\<exists>cfg. Sent cfg (rq_Message sample_request) \<in> set (g_trace (fst (Send sample_cluster sample_request sample_gateway))))"
  by (rule sample_Send_like) (simp_all add: sample_request_def)

theorem Send_refines_outcome_witness:
  "\<exists>effs. outcome sample_cluster sample_request () effs
     (snd (Send sample_cluster sample_request sample_gateway)) () \<and> effs \<noteq> []"
  using Send_refines_outcome [OF sample_keyed, of sample_gateway sample_request] sample_Send
  by (auto simp: sample_gateway_def)

theorem Send_audited_once_witness:
  "\<exists>pre post ev. g_trace (fst (Send sample_cluster sample_request sample_gateway)) = pre @ Recorded ev # post \<and>
     ev_Decision ev = DecisionAccept \<and> ev_Namespace ev = ''apps''"
proof -
  have "valid_cache (\<lambda>_ _. []) (g_validity sample_gateway)" "g_trace sample_gateway = []"
    by (simp_all add: sample_gateway_def)
  moreover have "id_Namespace (rq_Identity sample_request) = ''apps''" by (simp add: sample_request_def)
  ultimately show ?thesis
    using Send_audited_once [OF sample_keyed, of sample_gateway sample_request] sample_Send by auto
qed

theorem Send_delivers_only_checked_witness:
  "\<exists>p cfg. Sent cfg (rq_Message sample_request) \<in> set (g_trace (fst (Send sample_cluster sample_request sample_gateway))) \<and>
     matchedPolicy sample_cluster (rq_Identity sample_request) = Some p \<and> ValidateMailPolicy sample_externals p = []"
proof -
  have g: "valid_cache (\<lambda>_ _. []) (g_validity sample_gateway)" "g_trace sample_gateway = []"
    by (simp_all add: sample_gateway_def)
  obtain cfg where c: "Sent cfg (rq_Message sample_request) \<in>
      set (g_trace (fst (Send sample_cluster sample_request sample_gateway)))"
    using sample_Send by blast
  have "c_externals sample_cluster = sample_externals" by (simp add: sample_cluster_def)
  with Send_delivers_only_checked [OF sample_keyed g(1), of sample_request
      "g_trace (fst (Send sample_cluster sample_request sample_gateway))" cfg "rq_Message sample_request"
      "[]" "[]" "[]"] c g(2)
  have "\<exists>p. matchedPolicy sample_cluster (rq_Identity sample_request) = Some p \<and>
      ValidateMailPolicy sample_externals p = []" by auto
  then show ?thesis using c by blast
qed

text \<open>A policy of one message a minute, and a driver whose relay cannot be reached.\<close>

definition limited_policy :: MailPolicy where
  "limited_policy = (sample_policy ''a'' 5 ''app'')\<lparr>mp_Spec := (mp_Spec (sample_policy ''a'' 5 ''app''))\<lparr>ps_RateLimits :=
     Some \<lparr>rl_MessagesPerMinute = 1, rl_MessagesPerHour = 0, rl_MessagesPerDay = 0\<rparr>\<rparr>\<rparr>"

definition failing_driver :: driver where
  "failing_driver = sample_driver\<lparr>dr_Send := (\<lambda>_. Inl \<lparr>de_NoReadyEndpoint = False, de_Transient = True, de_Permanent = False,
     de_RecipientNotInEnvelope = False, de_RetryAfter = None, de_Message = []\<rparr>)\<rparr>"

definition limited_cluster :: "MemoryLimiter cluster" where
  "limited_cluster = \<lparr>c_externals = sample_externals, c_implemented = (\<lambda>t. t = BackendSMTP),
     c_Policies = (\<lambda>_. [limited_policy]), c_ServiceAccount = (\<lambda>_ _. None),
     c_MailBackend = (\<lambda>_ _. Inr sample_backend), c_ClusterMailBackend = (\<lambda>_. Inl NotFound),
     c_Secret = (\<lambda>ns n. Inr (sample_secret ns n ''pw'')), c_pemOK = (\<lambda>_. True),
     c_NewDriver = (\<lambda>_. Inr failing_driver), c_Allow = memory_Allow, c_Refund = memory_Refund, c_Now = 0\<rparr>"

lemma limited_policy_valid: "ValidateMailPolicy sample_externals limited_policy = []"
proof -
  have "host_bytes (ToLower sample_tables ''evil.com'')"
    by (simp add: host_bytes_def label_byte_def ToLower_def go_defs)
  then show ?thesis
    by (simp add: ValidateMailPolicy_def policy_validate_def policyErrors_def limited_policy_def sample_policy_def
        validateSubject_def validateBackendRef_def policySenderErrors_def validateDomains_def
        validateRecipients_def sample_externals_def Let_def go_defs)
qed

lemma limited_keyed: "keyed (\<lambda>_ _. []) limited_cluster"
  using limited_policy_valid sample_backend_valid
  by (simp add: keyed_def keyed_by_def limited_cluster_def)

lemma limited_opened: "\<exists>key cfg. opened limited_cluster sample_request limited_policy key cfg failing_driver"
proof -
  have m: "matchedPolicy limited_cluster (rq_Identity sample_request) = Some limited_policy"
    by (simp add: matchedPolicy_def Let_def limited_cluster_def Match_def matchCandidate_def subjectMatches_def
        subjectHit_def request_caller_def sample_request_def limited_policy_def sample_policy_def)
  have e: "dc_Allowed (Evaluate (x_unicode (c_externals limited_cluster)) (Some limited_policy) (request_view sample_request))"
    using sample_allowed by (simp add: sample_view_eq limited_cluster_def sample_externals_def limited_policy_def
        Evaluate_allowed_iff evaluateLimits_None_iff evaluateSenders_None_iff evaluateAddresses_None_iff recipientRefused_def)
  have b: "backendOf limited_cluster limited_policy = Inr (''apps/relay'', sample_spec [], mb_Status sample_backend, ''apps'')"
    using sample_backend_valid
    by (simp add: backendOf_def backendForPolicy_def mailBackendForPolicy_def limited_policy_def sample_policy_def
        limited_cluster_def check_def backendIsReady_def sample_backend_def sample_meta_def Let_def)
  have o: "\<exists>cfg. openDriver limited_cluster (''apps/relay'', sample_spec [], mb_Status sample_backend, ''apps'') =
      Inr (cfg, failing_driver)"
    by (simp add: openDriver_def ResolveBackendConfig_def resolveSMTP_def sample_spec_def limited_cluster_def
        credentialsSecret_def backendSecret_def Let_def)
  have "senderBound limited_cluster sample_request (sample_spec [])" by (simp add: senderBound_def sample_spec_def)
  moreover have "c_externals limited_cluster = sample_externals" by (simp add: limited_cluster_def)
  ultimately show ?thesis using m e b o limited_policy_valid unfolding opened_def accepts_def by auto
qed

theorem Send_accounting_witness:
  "\<exists>key limits. filter limiterCall (g_trace (fst (Send limited_cluster sample_request
     \<lparr>g_validity = [], g_limiter = NewMemoryLimiter, g_trace = []\<rparr>))) = [Charged key limits, Refunded key]"
proof -
  let ?g = "\<lparr>g_validity = [], g_limiter = NewMemoryLimiter, g_trace = []\<rparr>"
  obtain key cfg where o: "opened limited_cluster sample_request limited_policy key cfg failing_driver"
    using limited_opened by blast
  have l: "\<not> limits_None (policyLimits limited_policy)"
    by (simp add: policyLimits_def limited_policy_def limits_None_def)
  have a: "al_err (snd (memory_Allow NewMemoryLimiter 0 k (policyLimits limited_policy))) = None \<and>
      al_allowed (snd (memory_Allow NewMemoryLimiter 0 k (policyLimits limited_policy)))" for k
    by (simp add: policyLimits_def limited_policy_def limits_None_def memory_eval)
  have u: "givesBack (upstream failing_driver sample_request)"
    by (simp add: givesBack_def upstream_def failing_driver_def sample_request_def)
  have "fst (accounting limited_cluster sample_request NewMemoryLimiter limited_policy failing_driver) =
      [Charged (chargeKey limited_policy) (policyLimits limited_policy), Refunded (chargeKey limited_policy)]"
    using l a u by (simp add: accounting_def Let_def chargeKey_def) (simp add: limited_cluster_def)
  moreover have "valid_cache (\<lambda>_ _. []) (g_validity ?g)" by simp
  ultimately show ?thesis
    using Send_accounting [OF limited_keyed, of ?g sample_request] o
    by (metis fst_conv gateway.select_convs(2,3) append_Nil)
qed

theorem Send_cache_transparent_witness:
  "snd (Send sample_cluster sample_request (sample_gateway\<lparr>g_validity := [(''u1'', \<lparr>v_generation = 1, v_err = []\<rparr>)]\<rparr>)) =
   snd (Send sample_cluster sample_request sample_gateway)"
  using Send_cache_transparent [OF sample_keyed, of
      "sample_gateway\<lparr>g_validity := [(''u1'', \<lparr>v_generation = 1, v_err = []\<rparr>)]\<rparr>" sample_request]
  by (simp add: valid_cache_def sample_gateway_def)

end
