(* ===== verification/Smtp_Parts.thy ===== *)
theory Smtp_Parts
  imports Policy_Engine Credential "HOL-Library.Multiset"
begin

text \<open>
  The parts of \<^verbatim>\<open>internal/smtpproxy\<close> below the session: the removal of Bcc fields, which works in
  place on the message buffer (\<^verbatim>\<open>bcc.go\<close>), the per-namespace cap on messages in flight as a
  transition system of its goroutines (\<^verbatim>\<open>tenant.go\<close>), the connection that can be closed after
  a reply and its read deadlines (\<^verbatim>\<open>conn.go\<close>), the pod of a source address (\<^verbatim>\<open>podip.go\<close>) and the
  LOGIN exchange (\<^verbatim>\<open>credential.go\<close>).
\<close>

section \<open>Removing Bcc fields (bcc.go)\<close>

lemma IndexByte_at: "IndexByte s c = Some i \<Longrightarrow> i < length s \<and> s ! i = c \<and> c \<notin> set (take i s)"
  by (induction s arbitrary: i) (auto split: if_splits)

text \<open>The offset of the empty line that ends the header; \<open>i\<close> is the offset of \<open>s\<close>.\<close>

function headerEndFrom :: "nat \<Rightarrow> string \<Rightarrow> nat option" where
  "headerEndFrom i s = (case IndexByte s LF of None \<Rightarrow> None
     | Some j \<Rightarrow> if take j s = [] \<or> take j s = [CR] then Some i
                 else headerEndFrom (i + j + 1) (drop (j + 1) s))"
  by pat_completeness auto
termination
  by (relation "measure (\<lambda>(i, s). length s)") (auto dest!: IndexByte_at)

declare headerEndFrom.simps [simp del]

definition headerEnd :: "string \<Rightarrow> nat option" where
  "headerEnd raw = headerEndFrom 0 raw"

definition isBccField :: "unicode_tables \<Rightarrow> string \<Rightarrow> bool" where
  "isBccField U line = (case IndexByte line CHR '':'' of None \<Rightarrow> False
     | Some colon \<Rightarrow> let name = TrimSpace (take colon line) in
         EqualFold U name ''Bcc'' \<or> EqualFold U name ''Resent-Bcc'')"

definition continuation :: "string \<Rightarrow> bool" where
  "continuation line \<longleftrightarrow> line \<noteq> [] \<and> (hd line = CHR '' '' \<or> hd line = CHR 0x09)"

text \<open>\<^verbatim>\<open>copy\<close> of a slice into the array at an offset; the source is read before it is overwritten.\<close>

definition copyAt :: "string \<Rightarrow> nat \<Rightarrow> string \<Rightarrow> string" where
  "copyAt a k xs = take k a @ xs @ drop (k + length xs) a"

text \<open>The loop over the header lines: the array, its write position and whether a field is being
  skipped.\<close>

definition lineNext :: "string \<Rightarrow> nat \<Rightarrow> nat \<Rightarrow> nat" where
  "lineNext a ed i = (case IndexByte (take (ed - i) (drop i a)) LF of None \<Rightarrow> ed | Some j \<Rightarrow> i + j + 1)"

lemma lineNext_bounds: "i < ed \<Longrightarrow> i < lineNext a ed i \<and> lineNext a ed i \<le> ed"
  using IndexByte_at [of "take (ed - i) (drop i a)" LF]
  by (auto simp: lineNext_def split: option.splits)

function stripLoop :: "unicode_tables \<Rightarrow> nat \<Rightarrow> string \<Rightarrow> nat \<Rightarrow> nat \<Rightarrow> bool \<Rightarrow> string \<times> nat" where
  "stripLoop U ed a i k skipping = (if i < ed then
     let nxt = lineNext a ed i;
         line = take (nxt - i) (drop i a);
         skipping = (if continuation line then skipping else isBccField U line)
     in if skipping then stripLoop U ed a nxt k skipping
        else stripLoop U ed (copyAt a k line) nxt (k + length line) skipping
   else (a, k))"
  by pat_completeness auto
termination
  by (relation "measure (\<lambda>(U, ed, a, i, k, skipping). ed - i)") (simp_all add: lineNext_bounds diff_less_mono2)

declare stripLoop.simps [simp del]

definition stripBcc :: "unicode_tables \<Rightarrow> string \<Rightarrow> string" where
  "stripBcc U raw = (case headerEnd raw of None \<Rightarrow> raw
     | Some ed \<Rightarrow> (case stripLoop U ed raw 0 0 False of
         (a, k) \<Rightarrow> take (k + (length raw - ed)) (copyAt a k (drop ed a))))"

subsection \<open>What it computes\<close>

text \<open>The lines of a header, each with its line feed, and the fields that stay.\<close>

function fieldLines :: "string \<Rightarrow> string list" where
  "fieldLines s = (if s = [] then [] else
     let n = (case IndexByte s LF of None \<Rightarrow> length s | Some j \<Rightarrow> j + 1)
     in take n s # fieldLines (drop n s))"
  by pat_completeness auto
termination
  by (relation "measure length") (auto split: option.splits)

declare fieldLines.simps [simp del]

lemma fieldLines_Nil [simp]: "fieldLines [] = []"
  by (subst fieldLines.simps) simp

fun keepFields :: "unicode_tables \<Rightarrow> bool \<Rightarrow> string list \<Rightarrow> string list" where
  "keepFields U skipping [] = []"
| "keepFields U skipping (l # ls) =
     (let skipping = (if continuation l then skipping else isBccField U l)
      in (if skipping then [] else [l]) @ keepFields U skipping ls)"

lemma copyAt_after:
  assumes "k \<le> i" "i + length xs \<le> length a" "n = i + length xs"
  shows "drop n (copyAt a k xs) = drop n a" "length (copyAt a k xs) = length a"
    "take (k + length xs) (copyAt a k xs) = take k a @ xs"
  using assms by (auto simp: copyAt_def)

lemma fieldLines_at:
  assumes "i < ed" "ed \<le> length a"
  shows "fieldLines (take (ed - i) (drop i a)) =
    take (lineNext a ed i - i) (drop i a) # fieldLines (take (ed - lineNext a ed i) (drop (lineNext a ed i) a))"
proof -
  let ?s = "take (ed - i) (drop i a)" and ?n = "lineNext a ed i"
  have b: "i < ?n" "?n \<le> ed" using lineNext_bounds [OF assms(1)] by auto
  have n: "(case IndexByte ?s LF of None \<Rightarrow> length ?s | Some j \<Rightarrow> j + 1) = ?n - i"
    using assms b by (auto simp: lineNext_def split: option.splits)
  have ne: "?s \<noteq> []" using assms by auto
  have d: "drop (?n - i) ?s = take (ed - ?n) (drop ?n a)" using b by (simp add: drop_take)
  have t: "take (?n - i) ?s = take (?n - i) (drop i a)" using b by (simp add: min_def)
  show ?thesis using fieldLines.simps [of ?s] ne n d t by (simp only: Let_def if_False)
qed

text \<open>The loop never overtakes its reader, so what it has still to read is the original.\<close>

lemma stripLoop_correct:
  assumes "k \<le> i" "i \<le> ed" "ed \<le> length a" "drop i a = drop i raw" "length a = length raw"
    "stripLoop U ed a i k skipping = (b, m)"
  shows "take m b = take k a @ concat (keepFields U skipping (fieldLines (take (ed - i) (drop i raw)))) \<and>
    m \<le> ed \<and> drop ed b = drop ed raw \<and> length b = length raw"
  using assms
proof (induction U ed a i k skipping arbitrary: b m rule: stripLoop.induct)
  case (1 U ed a i k skipping)
  show ?case
  proof (cases "i < ed")
    case False
    then have "b = a" "m = k" using 1(8) by (auto simp: stripLoop.simps)
    moreover have "i = ed" using False 1(4) by simp
    ultimately show ?thesis using 1(3-7) by simp
  next
    case True
    define nxt where "nxt = lineNext a ed i"
    define line where "line = take (nxt - i) (drop i a)"
    define sk where "sk = (if continuation line then skipping else isBccField U line)"
    have n: "i < nxt" "nxt \<le> ed" using lineNext_bounds [OF True] by (auto simp: nxt_def)
    have ll: "length line = nxt - i" using n 1(5) by (simp add: line_def)
    have "drop (nxt - i) (drop i a) = drop (nxt - i) (drop i raw)" using 1(6) by simp
    then have d: "drop nxt a = drop nxt raw" using n by simp
    have f: "fieldLines (take (ed - i) (drop i raw)) = line # fieldLines (take (ed - nxt) (drop nxt raw))"
      using fieldLines_at [OF True 1(5)] 1(6) d by (simp add: nxt_def line_def)
    have step: "stripLoop U ed a i k skipping = (if sk then stripLoop U ed a nxt k sk
        else stripLoop U ed (copyAt a k line) nxt (k + length line) sk)"
      using stripLoop.simps [of U ed a i k skipping] True by (simp only: Let_def nxt_def line_def sk_def if_True)
    show ?thesis
    proof (cases sk)
      case s: True
      have "stripLoop U ed a nxt k sk = (b, m)"
        using 1(8) s step by simp
      then show ?thesis
        using 1(1) [OF True nxt_def line_def sk_def s, of b m] 1(3-7) n d s f by (simp add: sk_def)
    next
      case s: False
      let ?a = "copyAt a k line"
      have "stripLoop U ed ?a nxt (k + length line) sk = (b, m)"
        using 1(8) s step by simp
      moreover have "i + length line \<le> length a" "nxt = i + length line" using ll n 1(5) by auto
      note w = copyAt_after [OF 1(3) this]
      moreover have "drop nxt ?a = drop nxt raw" using w(1) d by simp
      ultimately have "take m b = take (k + length line) ?a @ concat (keepFields U sk (fieldLines (take (ed - nxt) (drop nxt raw)))) \<and>
          m \<le> ed \<and> drop ed b = drop ed raw \<and> length b = length raw"
        using 1(2) [OF True nxt_def line_def sk_def s, of b m] 1(3,5,7) ll n by simp
      then show ?thesis using w(3) s f by (simp add: sk_def)
    qed
  qed
qed

lemma headerEndFrom_bound: "headerEndFrom i s = Some e \<Longrightarrow> i \<le> e \<and> e \<le> i + length s"
proof (induction i s rule: headerEndFrom.induct)
  case (1 i s)
  then show ?case
    using headerEndFrom.simps [of i s] IndexByte_at [of s LF]
    by (fastforce split: option.splits if_splits)
qed

lemma headerEnd_bound: "headerEnd raw = Some e \<Longrightarrow> e \<le> length raw"
  using headerEndFrom_bound [of 0 raw e] by (simp add: headerEnd_def)

lemma stripBcc_Some:
  assumes "headerEnd raw = Some ed"
  shows "stripBcc U raw = concat (keepFields U False (fieldLines (take ed raw))) @ drop ed raw"
proof -
  obtain b m where l: "stripLoop U ed raw 0 0 False = (b, m)" by fastforce
  have e: "ed \<le> length raw" using assms by (rule headerEnd_bound)
  from stripLoop_correct [OF _ _ e refl refl l]
  have c: "take m b = concat (keepFields U False (fieldLines (take ed raw)))" "m \<le> ed"
    "drop ed b = drop ed raw" "length b = length raw" by simp_all
  have "take (m + (length raw - ed)) (copyAt b m (drop ed b)) = take m b @ drop ed raw"
    using c(2-4) e by (simp add: copyAt_def)
  then show ?thesis using assms l c by (simp add: stripBcc_def)
qed

subsection \<open>What is left\<close>

lemma IndexByte_line: "IndexByte s c = Some j \<Longrightarrow> IndexByte (take (j + 1) s @ t) c = Some j"
proof (induction s arbitrary: j)
  case (Cons x s)
  then show ?case by (cases "x = c") (auto split: option.splits)
qed simp

text \<open>A list of lines: non-empty, with a line feed at the end and nowhere else.\<close>

definition is_line :: "string \<Rightarrow> bool" where
  "is_line l \<longleftrightarrow> l \<noteq> [] \<and> last l = LF \<and> LF \<notin> set (butlast l)"

lemma fieldLines_concat: "list_all is_line ls \<Longrightarrow> fieldLines (concat ls) = ls"
proof (induction ls)
  case (Cons l ls)
  then obtain u where l: "l = u @ [LF]" "LF \<notin> set u"
    by (metis append_butlast_last_id is_line_def list.pred_inject(2))
  then have "IndexByte (l @ concat ls) LF = Some (length u)"
    using IndexByte_append [of LF u "concat ls"] by simp
  then show ?case using Cons l fieldLines.simps [of "l @ concat ls"] by simp
qed simp

lemma fieldLines_lines: "s = [] \<or> last s = LF \<Longrightarrow> list_all is_line (fieldLines s)"
proof (induction s rule: fieldLines.induct)
  case (1 s)
  show ?case
  proof (cases "s = []")
    case False
    then have "LF \<in> set s" using 1(2) last_in_set by metis
    then obtain j where j: "IndexByte s LF = Some j" using IndexByte_None_iff [of s LF] by blast
    note d = IndexByte_at [OF j]
    have "drop (j + 1) s = [] \<or> last (drop (j + 1) s) = LF" using 1(2) False by (metis drop_eq_Nil last_drop not_le)
    then have "list_all is_line (fieldLines (drop (j + 1) s))" using 1(1) [OF False refl] j by simp
    moreover have "is_line (take (j + 1) s)"
    proof -
      have "take (j + 1) s = take j s @ [LF]" using d by (simp add: take_Suc_conv_app_nth)
      then show ?thesis using d by (simp add: is_line_def)
    qed
    ultimately show ?thesis using fieldLines.simps [of s] False j by simp
  qed simp
qed

lemma keepFields_subset: "set (keepFields U sk ls) \<subseteq> set ls"
  by (induction U sk ls rule: keepFields.induct) (auto simp: Let_def)

lemma keepFields_no_Bcc: "l \<in> set (keepFields U sk ls) \<Longrightarrow> \<not> continuation l \<Longrightarrow> \<not> isBccField U l"
  by (induction U sk ls rule: keepFields.induct) (auto simp: Let_def split: if_splits)

lemma take_headerEndFrom:
  "headerEndFrom i s = Some e \<Longrightarrow> take (e - i) s = [] \<or> last (take (e - i) s) = LF"
proof (induction i s rule: headerEndFrom.induct)
  case (1 i s)
  show ?case
  proof (cases "IndexByte s LF")
    case None
    then show ?thesis using 1(2) by (simp add: headerEndFrom.simps)
  next
    case (Some j)
    note d = IndexByte_at [OF Some]
    show ?thesis
    proof (cases "take j s = [] \<or> take j s = [CR]")
      case True
      then show ?thesis using 1(2) Some headerEndFrom.simps [of i s] by simp
    next
      case False
      then have r: "headerEndFrom (i + j + 1) (drop (j + 1) s) = Some e"
        using 1(2) Some headerEndFrom.simps [of i s] by auto
      have le: "i + j + 1 \<le> e" using headerEndFrom_bound [OF r] by simp
      from 1(1) [OF Some False r] have t: "take (e - (i + j + 1)) (drop (j + 1) s) = [] \<or>
          last (take (e - (i + j + 1)) (drop (j + 1) s)) = LF" .
      have "e - i = (j + 1) + (e - (i + j + 1))" using le by linarith
      then have "take (e - i) s = take (j + 1) s @ take (e - (i + j + 1)) (drop (j + 1) s)"
        by (simp only: take_add)
      moreover have "take (j + 1) s = take j s @ [LF]" using d by (simp add: take_Suc_conv_app_nth)
      ultimately show ?thesis using t by auto
    qed
  qed
qed

section \<open>Messages in flight per namespace (tenant.go)\<close>

text \<open>
  One goroutine per message: \<^verbatim>\<open>acquire\<close> registers as a waiter, then either enters the channel of
  its namespace, which holds \<^verbatim>\<open>cap\<close> tokens, or gives up when its context ends; \<^verbatim>\<open>release\<close> takes
  its token out and then drops its reference.  The state has the limiter's map and, for each
  namespace, how many goroutines are at each of these points.
\<close>

record nsSlot =
  ns_ch :: nat
  ns_refs :: nat

record tenantLimiter =
  t_cap :: nat
  t_ns :: "string \<rightharpoonup> nsSlot"

definition newTenantLimiter :: "int \<Rightarrow> tenantLimiter option" where
  "newTenantLimiter cap = (if cap \<le> 0 then None else Some \<lparr>t_cap = nat cap, t_ns = (\<lambda>_. None)\<rparr>)"

definition tenant_register :: "tenantLimiter \<Rightarrow> string \<Rightarrow> tenantLimiter" where
  "tenant_register t n = (let s = (case t_ns t n of None \<Rightarrow> \<lparr>ns_ch = 0, ns_refs = 0\<rparr> | Some s \<Rightarrow> s)
     in t\<lparr>t_ns := (t_ns t)(n \<mapsto> s\<lparr>ns_refs := ns_refs s + 1\<rparr>)\<rparr>)"

definition tenant_done :: "tenantLimiter \<Rightarrow> string \<Rightarrow> tenantLimiter" where
  "tenant_done t n = (case t_ns t n of None \<Rightarrow> t
     | Some s \<Rightarrow> if ns_refs s - 1 = 0 then t\<lparr>t_ns := (t_ns t)(n := None)\<rparr>
         else t\<lparr>t_ns := (t_ns t)(n \<mapsto> s\<lparr>ns_refs := ns_refs s - 1\<rparr>)\<rparr>)"

definition tenant_token :: "tenantLimiter \<Rightarrow> string \<Rightarrow> (nat \<Rightarrow> nat) \<Rightarrow> tenantLimiter" where
  "tenant_token t n f = (case t_ns t n of None \<Rightarrow> t
     | Some s \<Rightarrow> t\<lparr>t_ns := (t_ns t)(n \<mapsto> s\<lparr>ns_ch := f (ns_ch s)\<rparr>)\<rparr>)"

definition tenant_free :: "tenantLimiter \<Rightarrow> string \<Rightarrow> bool" where
  "tenant_free t n = (case t_ns t n of None \<Rightarrow> False | Some s \<Rightarrow> ns_ch s < t_cap t)"

record tenant_state =
  ts_limiter :: tenantLimiter
  ts_waiting :: "string \<Rightarrow> nat"
  ts_holding :: "string \<Rightarrow> nat"
  ts_leaving :: "string \<Rightarrow> nat"

inductive tenant_step :: "tenant_state \<Rightarrow> tenant_state \<Rightarrow> bool" where
  arrive: "tenant_step s (s\<lparr>ts_limiter := tenant_register (ts_limiter s) n,
    ts_waiting := (ts_waiting s)(n := ts_waiting s n + 1)\<rparr>)"
| enter: "0 < ts_waiting s n \<Longrightarrow> tenant_free (ts_limiter s) n \<Longrightarrow>
    tenant_step s (s\<lparr>ts_limiter := tenant_token (ts_limiter s) n Suc,
      ts_waiting := (ts_waiting s)(n := ts_waiting s n - 1),
      ts_holding := (ts_holding s)(n := ts_holding s n + 1)\<rparr>)"
| give_up: "0 < ts_waiting s n \<Longrightarrow>
    tenant_step s (s\<lparr>ts_limiter := tenant_done (ts_limiter s) n,
      ts_waiting := (ts_waiting s)(n := ts_waiting s n - 1)\<rparr>)"
| return_token: "0 < ts_holding s n \<Longrightarrow>
    tenant_step s (s\<lparr>ts_limiter := tenant_token (ts_limiter s) n (\<lambda>c. c - 1),
      ts_holding := (ts_holding s)(n := ts_holding s n - 1),
      ts_leaving := (ts_leaving s)(n := ts_leaving s n + 1)\<rparr>)"
| leave: "0 < ts_leaving s n \<Longrightarrow>
    tenant_step s (s\<lparr>ts_limiter := tenant_done (ts_limiter s) n,
      ts_leaving := (ts_leaving s)(n := ts_leaving s n - 1)\<rparr>)"

definition tenant_init :: "nat \<Rightarrow> tenant_state" where
  "tenant_init cap = \<lparr>ts_limiter = \<lparr>t_cap = cap, t_ns = (\<lambda>_. None)\<rparr>, ts_waiting = (\<lambda>_. 0),
     ts_holding = (\<lambda>_. 0), ts_leaving = (\<lambda>_. 0)\<rparr>"

text \<open>The map has an entry exactly for the namespaces with a goroutine, and its counts are right.\<close>

definition tenant_refs :: "tenant_state \<Rightarrow> string \<Rightarrow> nat" where
  "tenant_refs s n = ts_waiting s n + ts_holding s n + ts_leaving s n"

definition tenant_inv :: "nat \<Rightarrow> tenant_state \<Rightarrow> bool" where
  "tenant_inv cap s \<longleftrightarrow> t_cap (ts_limiter s) = cap \<and> (\<forall>n. ts_holding s n \<le> cap \<and>
     t_ns (ts_limiter s) n = (if tenant_refs s n = 0 then None
       else Some \<lparr>ns_ch = ts_holding s n, ns_refs = tenant_refs s n\<rparr>))"

lemma tenant_invD:
  assumes "tenant_inv cap s" "0 < tenant_refs s n"
  shows "t_ns (ts_limiter s) n = Some \<lparr>ns_ch = ts_holding s n, ns_refs = tenant_refs s n\<rparr>" "ts_holding s n \<le> cap"
  using assms by (simp_all add: tenant_inv_def)

lemma tenant_inv_step: "tenant_step s s' \<Longrightarrow> tenant_inv cap s \<Longrightarrow> tenant_inv cap s'"
proof (induction rule: tenant_step.induct)
  case (arrive s n)
  then show ?case by (simp add: tenant_inv_def tenant_register_def tenant_refs_def)
next
  case (enter s n)
  then have "0 < tenant_refs s n" by (simp add: tenant_refs_def)
  from tenant_invD [OF enter(3) this] show ?case
    using enter by (auto simp: tenant_inv_def tenant_free_def tenant_token_def tenant_refs_def)
next
  case (give_up s n)
  then have "0 < tenant_refs s n" by (simp add: tenant_refs_def)
  from tenant_invD [OF give_up(2) this] show ?case
    using give_up by (auto simp: tenant_inv_def tenant_done_def tenant_refs_def)
next
  case (return_token s n)
  then have "0 < tenant_refs s n" by (simp add: tenant_refs_def)
  note i = tenant_invD [OF return_token(2) this]
  then have "ts_holding s n - 1 \<le> cap" by linarith
  with i show ?case
    using return_token by (auto simp: tenant_inv_def tenant_token_def tenant_refs_def)
next
  case (leave s n)
  then have "0 < tenant_refs s n" by (simp add: tenant_refs_def)
  from tenant_invD [OF leave(2) this] show ?case
    using leave by (auto simp: tenant_inv_def tenant_done_def tenant_refs_def)
qed

lemma tenant_inv_reachable: "tenant_step\<^sup>*\<^sup>* (tenant_init cap) s \<Longrightarrow> tenant_inv cap s"
proof (induction rule: rtranclp_induct)
  case base
  show ?case by (simp add: tenant_inv_def tenant_init_def tenant_refs_def)
next
  case (step s s')
  then show ?case by (blast intro: tenant_inv_step)
qed

section \<open>Closing after a reply (conn.go)\<close>

datatype conn_state = connOpen | connCloseAfterReply | connReplied

text \<open>What reached the client, and whether reads still reach the network.\<close>

record clientConn =
  cc_state :: conn_state
  cc_written :: "bytes list"

definition conn_closeAfterReply :: "clientConn \<Rightarrow> clientConn" where
  "conn_closeAfterReply c = (if cc_state c = connOpen then c\<lparr>cc_state := connCloseAfterReply\<rparr> else c)"

definition conn_Write :: "clientConn \<Rightarrow> bytes \<Rightarrow> clientConn" where
  "conn_Write c p = (case cc_state c of
     connReplied \<Rightarrow> c
   | connCloseAfterReply \<Rightarrow> c\<lparr>cc_written := cc_written c @ [p], cc_state := connReplied\<rparr>
   | connOpen \<Rightarrow> c\<lparr>cc_written := cc_written c @ [p]\<rparr>)"

text \<open>\<^term>\<open>None\<close>: end of file without reading from the network.\<close>

definition conn_Read :: "clientConn \<Rightarrow> 'a \<Rightarrow> 'a option" where
  "conn_Read c network = (if cc_state c = connReplied then None else Some network)"

record dataWindow =
  dw_idle :: duration
  dw_end :: "time option"

definition window_deadline :: "dataWindow \<Rightarrow> time \<Rightarrow> time option" where
  "window_deadline w now = (let dl = (if dw_idle w > 0 then Some (now + dw_idle w) else None) in
     case dw_end w of None \<Rightarrow> dl
     | Some e \<Rightarrow> (case dl of None \<Rightarrow> Some e | Some d \<Rightarrow> if e < d then Some e else Some d))"

definition dataDeadlines :: "bool \<Rightarrow> duration \<Rightarrow> duration \<Rightarrow> time \<Rightarrow> dataWindow option" where
  "dataDeadlines wrapped idle dataTimeout now =
     (if \<not> wrapped \<or> idle = 0 \<and> dataTimeout = 0 then None
      else Some \<lparr>dw_idle = idle, dw_end = (if dataTimeout > 0 then Some (now + dataTimeout) else None)\<rparr>)"

section \<open>Pods (podip.go)\<close>

record Pod =
  pod_Namespace :: string
  pod_Name :: string
  pod_ServiceAccountName :: string
  pod_Labels :: labels
  pod_HostNetwork :: bool
  pod_Phase :: string
  pod_PodIP :: string
  pod_PodIPs :: "string list"
  pod_Deleted :: bool

record PodIdentity =
  pi_Namespace :: string
  pi_Name :: string
  pi_ServiceAccount :: string
  pi_Labels :: labels

datatype pod_error = PodLookup string | Ambiguous string string string | errPodNotFound

definition IndexPodIP :: "Pod \<Rightarrow> string list" where
  "IndexPodIP p = (if pod_HostNetwork p \<or> pod_PodIP p = [] then []
     else if pod_PodIPs p = [] then [pod_PodIP p] else pod_PodIPs p)"

definition podRunning :: "Pod \<Rightarrow> bool" where
  "podRunning p \<longleftrightarrow> pod_Phase p = ''Running'' \<and> \<not> pod_Deleted p"

fun podMatch :: "string \<Rightarrow> Pod option \<Rightarrow> Pod list \<Rightarrow> pod_error + Pod option" where
  "podMatch ip m [] = Inr m"
| "podMatch ip m (p # ps) =
     (if \<not> podRunning p then podMatch ip m ps
      else case m of Some q \<Rightarrow> Inl (Ambiguous ip (pod_Name q) (pod_Name p)) | None \<Rightarrow> podMatch ip (Some p) ps)"

text \<open>\<open>list\<close> is the indexed list of the informer cache.\<close>

definition ResolveIP :: "(string \<Rightarrow> string + Pod list) \<Rightarrow> string \<Rightarrow> pod_error + PodIdentity" where
  "ResolveIP lst ip = (case lst ip of Inl e \<Rightarrow> Inl (PodLookup e)
     | Inr pods \<Rightarrow> (case podMatch ip None pods of Inl e \<Rightarrow> Inl e
       | Inr None \<Rightarrow> Inl errPodNotFound
       | Inr (Some p) \<Rightarrow> Inr \<lparr>pi_Namespace = pod_Namespace p, pi_Name = pod_Name p,
           pi_ServiceAccount = (if pod_ServiceAccountName p = [] then ''default'' else pod_ServiceAccountName p),
           pi_Labels = pod_Labels p\<rparr>))"

lemma podMatch_Inr:
  "podMatch ip m ps = Inr r \<Longrightarrow> (case m of Some q \<Rightarrow> r = Some q \<and> filter podRunning ps = []
     | None \<Rightarrow> (case r of None \<Rightarrow> filter podRunning ps = [] | Some p \<Rightarrow> filter podRunning ps = [p]))"
  by (induction ip m ps rule: podMatch.induct) (auto split: if_splits option.splits)

lemma podMatch_single: "filter podRunning ps = [p] \<Longrightarrow> podMatch ip None ps = Inr (Some p)"
proof (induction ps)
  case (Cons q ps)
  have "filter podRunning qs = [] \<Longrightarrow> podMatch ip (Some p) qs = Inr (Some p)" for qs
    by (induction qs) (auto split: if_splits)
  then show ?case using Cons by (auto split: if_splits)
qed simp

section \<open>Logins (credential.go)\<close>

record loginServer =
  ls_step :: nat
  ls_username :: string

datatype login_reply = Challenge string | Authenticate string string | UnexpectedClientResponse

definition login_Next :: "loginServer \<Rightarrow> string \<Rightarrow> loginServer \<times> login_reply" where
  "login_Next l response =
     (if ls_step l = 0 then
        (if length response > 0 then (l\<lparr>ls_username := response, ls_step := 2\<rparr>, Challenge ''Password:'')
         else (l\<lparr>ls_step := 1\<rparr>, Challenge ''Username:''))
      else if ls_step l = 1 then (l\<lparr>ls_username := response, ls_step := 2\<rparr>, Challenge ''Password:'')
      else if ls_step l = 2 then (l\<lparr>ls_step := 3\<rparr>, Authenticate (ls_username l) response)
      else (l, UnexpectedClientResponse))"

fun login_run :: "loginServer \<Rightarrow> string list \<Rightarrow> login_reply list" where
  "login_run l [] = []"
| "login_run l (r # rs) = (case login_Next l r of (l', a) \<Rightarrow> a # login_run l' rs)"

definition auditUsername :: "string \<Rightarrow> string" where
  "auditUsername u = (if length u > 317 then [] else if ParseUsername u = None then []
     else if list_all (\<lambda>c. is_lower c \<or> is_digit c \<or> c = CHR ''-'' \<or> c = CHR ''.'') u then u else [])"

definition isAuthenticate :: "login_reply \<Rightarrow> bool" where
  "isAuthenticate r = (case r of Authenticate _ _ \<Rightarrow> True | _ \<Rightarrow> False)"

lemma login_run_done: "ls_step l \<ge> 3 \<Longrightarrow> filter isAuthenticate (login_run l rs) = []"
  by (induction rs arbitrary: l) (auto simp: login_Next_def isAuthenticate_def)

section \<open>Properties\<close>

lemma isBccField_name:
  assumes "list_all is_ascii name" "CHR '':'' \<notin> set name"
  shows "isBccField U (name @ CHR '':'' # v) \<longleftrightarrow> map ascii_lower (TrimSpace name) \<in> {''bcc'', ''resent-bcc''}"
proof -
  have i: "IndexByte (name @ CHR '':'' # v) CHR '':'' = Some (length name)"
    using assms(2) by (induction name) auto
  obtain u w where "name = u @ TrimSpace name @ w" using TrimSpace_sublist by blast
  then have a: "list_all is_ascii (TrimSpace name)" using assms(1) by (metis list_all_append)
  have "EqualFold U (TrimSpace name) ''Bcc'' \<longleftrightarrow> map ascii_lower (TrimSpace name) = ''bcc''"
    "EqualFold U (TrimSpace name) ''Resent-Bcc'' \<longleftrightarrow> map ascii_lower (TrimSpace name) = ''resent-bcc''"
    by (subst EqualFold_ascii [OF a]; simp add: go_defs)+
  then show ?thesis by (simp add: isBccField_def i Let_def)
qed

text \<open>C27. Removing Bcc in place is right although the output overwrites the buffer it is read from:
  for a message whose header is ended by an empty line the result is the message without its Bcc and
  Resent-Bcc fields and their continuation lines, all other bytes are unchanged, and no header field that
  remains is a Bcc field.  A message without an empty line, all header and no body, is returned as it is, so
  its Bcc fields stay: such a message with a Bcc field exists for every Unicode table.  A line with an ASCII name is
  a Bcc field exactly if the name, without spaces around it, is Bcc or Resent-Bcc in any case.\<close>

theorem stripBcc_removes_fields:
  "(case headerEnd raw of None \<Rightarrow> stripBcc U raw = raw
    | Some ed \<Rightarrow> stripBcc U raw = concat (keepFields U False (fieldLines (take ed raw))) @ drop ed raw \<and>
        fieldLines (concat (keepFields U False (fieldLines (take ed raw)))) = keepFields U False (fieldLines (take ed raw)) \<and>
        \<not> list_ex (\<lambda>l. isBccField U l \<and> \<not> continuation l)
          (fieldLines (concat (keepFields U False (fieldLines (take ed raw)))))) \<and>
   (\<exists>field. isBccField U field \<and> stripBcc U (''From: a@x'' @ crlf @ field) = ''From: a@x'' @ crlf @ field) \<and>
   (\<forall>name v. list_all is_ascii name \<longrightarrow> CHR '':'' \<notin> set name \<longrightarrow>
      (isBccField U (name @ CHR '':'' # v) \<longleftrightarrow> map ascii_lower (TrimSpace name) \<in> {''bcc'', ''resent-bcc''}))"
proof -
  have "headerEnd (''From: a@x'' @ crlf @ ''Bcc: b@x'' @ crlf) = None" by code_simp
  then have kept: "stripBcc U (''From: a@x'' @ crlf @ ''Bcc: b@x'' @ crlf) = ''From: a@x'' @ crlf @ ''Bcc: b@x'' @ crlf"
    by (simp add: stripBcc_def)
  have "TrimSpace ''Bcc'' = ''Bcc''" by code_simp
  then have bcc: "isBccField U (''Bcc: b@x'' @ crlf)" by (simp add: isBccField_def Let_def EqualFold_ascii go_defs)
  show ?thesis
  proof (cases "headerEnd raw")
    case (Some ed)
    have "take ed raw = [] \<or> last (take ed raw) = LF"
      using take_headerEndFrom [of 0 raw ed] Some by (simp add: headerEnd_def)
    then have "list_all is_line (fieldLines (take ed raw))" by (rule fieldLines_lines)
    then have "list_all is_line (keepFields U False (fieldLines (take ed raw)))"
      using keepFields_subset [of U False "fieldLines (take ed raw)"] by (auto simp: list_all_iff)
    then have f: "fieldLines (concat (keepFields U False (fieldLines (take ed raw)))) =
        keepFields U False (fieldLines (take ed raw))" by (rule fieldLines_concat)
    have "\<not> list_ex (\<lambda>l. isBccField U l \<and> \<not> continuation l) (keepFields U False (fieldLines (take ed raw)))"
      using keepFields_no_Bcc by (auto simp: list_ex_iff)
    then show ?thesis using Some stripBcc_Some [OF Some, of U] f kept bcc isBccField_name [of _ U] by auto
  qed (use kept bcc isBccField_name [of _ U] in \<open>auto simp: stripBcc_def\<close>)
qed

theorem stripBcc_removes_fields_witness:
  "isBccField sample_tables (''BCC '' @ '': b@x'')"
proof -
  have t: "TrimSpace ''BCC '' = ''BCC''" by code_simp
  have "\<forall>name v. list_all is_ascii name \<longrightarrow> CHR '':'' \<notin> set name \<longrightarrow>
      (isBccField sample_tables (name @ CHR '':'' # v) \<longleftrightarrow> map ascii_lower (TrimSpace name) \<in> {''bcc'', ''resent-bcc''})"
    by (rule conjunct2 [OF conjunct2 [OF stripBcc_removes_fields [of sample_tables "[]"]]])
  from this [rule_format, of "''BCC ''" "'' b@x''"] t show ?thesis by (simp add: go_defs)
qed

text \<open>C28. However its goroutines interleave, the limiter never lets more than \<^verbatim>\<open>cap\<close> messages of a
  namespace in, and its map leaks nothing: a namespace has an entry exactly while a message of it
  waits or is in flight.\<close>

theorem tenant_cap_holds:
  assumes "tenant_step\<^sup>*\<^sup>* (tenant_init cap) s"
  shows "ts_holding s n \<le> cap \<and>
    (t_ns (ts_limiter s) n = None \<longleftrightarrow> ts_waiting s n = 0 \<and> ts_holding s n = 0 \<and> ts_leaving s n = 0)"
  using tenant_inv_reachable [OF assms] by (simp add: tenant_inv_def tenant_refs_def)

theorem tenant_cap_holds_witness:
  "\<exists>s. tenant_step\<^sup>*\<^sup>* (tenant_init 1) s \<and> ts_holding s ''a'' = 1 \<and> t_ns (ts_limiter s) ''a'' \<noteq> None"
proof -
  obtain s1 where s1: "tenant_step (tenant_init 1) s1"
      "s1 = (tenant_init 1)\<lparr>ts_limiter := tenant_register (ts_limiter (tenant_init 1)) ''a'',
        ts_waiting := (ts_waiting (tenant_init 1))(''a'' := ts_waiting (tenant_init 1) ''a'' + 1)\<rparr>"
    using tenant_step.arrive by blast
  have "0 < ts_waiting s1 ''a''" "tenant_free (ts_limiter s1) ''a''" "ts_holding s1 ''a'' = 0"
    by (simp_all add: s1(2) tenant_init_def tenant_free_def tenant_register_def)
  with tenant_step.enter [of s1 "''a''"] obtain s2 where s2: "tenant_step s1 s2" "ts_holding s2 ''a'' = 1" by auto
  have r: "tenant_step\<^sup>*\<^sup>* (tenant_init 1) s2" using s1(1) s2(1) by (meson rtranclp.rtrancl_into_rtrancl rtranclp.rtrancl_refl)
  from tenant_cap_holds [OF r, of "''a''"] r s2(2) show ?thesis by (intro exI [of _ s2]) simp
qed

text \<open>After \<^verbatim>\<open>closeAfterReply\<close> the client gets exactly one more write, whatever the server writes
  after it, and from then on reads give end of file, so the rest of an aborted message is never
  read as commands.\<close>

theorem closeAfterReply_one_reply:
  "cc_written (foldl conn_Write (conn_closeAfterReply \<lparr>cc_state = connOpen, cc_written = ws\<rparr>) (p # ps)) = ws @ [p] \<and>
   conn_Read (foldl conn_Write (conn_closeAfterReply \<lparr>cc_state = connOpen, cc_written = ws\<rparr>) (p # ps)) net = None"
proof -
  have "foldl conn_Write c qs = c" if "cc_state c = connReplied" for c qs
    using that by (induction qs) (simp_all add: conn_Write_def)
  then show ?thesis by (simp add: conn_closeAfterReply_def conn_Write_def conn_Read_def)
qed

text \<open>A source address identifies a caller only if exactly one running pod owns it.\<close>

theorem ResolveIP_unique:
  "ResolveIP lst ip = Inr i \<longleftrightarrow> (\<exists>pods p. lst ip = Inr pods \<and> filter podRunning pods = [p] \<and>
     i = \<lparr>pi_Namespace = pod_Namespace p, pi_Name = pod_Name p,
       pi_ServiceAccount = (if pod_ServiceAccountName p = [] then ''default'' else pod_ServiceAccountName p),
       pi_Labels = pod_Labels p\<rparr>)"
proof (cases "lst ip")
  case (Inr pods)
  show ?thesis
  proof
    assume "ResolveIP lst ip = Inr i"
    then show "\<exists>pods p. lst ip = Inr pods \<and> filter podRunning pods = [p] \<and> i = \<lparr>pi_Namespace = pod_Namespace p,
        pi_Name = pod_Name p, pi_ServiceAccount = (if pod_ServiceAccountName p = [] then ''default''
        else pod_ServiceAccountName p), pi_Labels = pod_Labels p\<rparr>"
      using Inr podMatch_Inr [of ip None pods] by (auto simp: ResolveIP_def split: sum.splits option.splits)
  next
    assume "\<exists>pods p. lst ip = Inr pods \<and> filter podRunning pods = [p] \<and> i = \<lparr>pi_Namespace = pod_Namespace p,
        pi_Name = pod_Name p, pi_ServiceAccount = (if pod_ServiceAccountName p = [] then ''default''
        else pod_ServiceAccountName p), pi_Labels = pod_Labels p\<rparr>"
    then show "ResolveIP lst ip = Inr i"
      using podMatch_single [of _ _ ip] by (auto simp: ResolveIP_def)
  qed
qed (simp add: ResolveIP_def)

text \<open>The LOGIN exchange checks at most one password per exchange, and it is the one the client
  sent last, for the username it sent in its initial response or to the first challenge.\<close>

theorem login_exchange_once:
  "length (filter isAuthenticate (login_run \<lparr>ls_step = 0, ls_username = []\<rparr> rs)) \<le> 1 \<and>
   (u \<noteq> [] \<longrightarrow> login_run \<lparr>ls_step = 0, ls_username = []\<rparr> [u, p] = [Challenge ''Password:'', Authenticate u p]) \<and>
   login_run \<lparr>ls_step = 0, ls_username = []\<rparr> [[], u, p] =
     [Challenge ''Username:'', Challenge ''Password:'', Authenticate u p]"
proof -
  have "length (filter isAuthenticate (login_run l rs)) \<le> 1" for l rs
  proof (induction rs arbitrary: l)
    case (Cons r rs)
    obtain l' a where n: "login_Next l r = (l', a)" by fastforce
    have "isAuthenticate a \<Longrightarrow> ls_step l' \<ge> 3"
      using n by (auto simp: login_Next_def isAuthenticate_def split: if_splits)
    then show ?case using Cons.IH [of l'] login_run_done [of l' rs] n by auto
  qed simp
  then show ?thesis by (simp add: login_Next_def)
qed

theorem login_exchange_once_witness:
  "login_run \<lparr>ls_step = 0, ls_username = []\<rparr> [''app.ns'', ''pw''] = [Challenge ''Password:'', Authenticate ''app.ns'' ''pw'']"
  using login_exchange_once [of "[]" "''app.ns''" "''pw''"] by simp

end
