(* ===== verification/Smtp_Session.thy ===== *)
theory Smtp_Session
  imports Gateway Smtp_Parts Credential_Verifier
begin

text \<open>
  \<^verbatim>\<open>internal/smtpproxy/session.go\<close> and \<^verbatim>\<open>size.go\<close>: one SMTP session.  Each command is a function of
  the session and the gateway's state; \<^term>\<open>None\<close> as a reply is success.  The commands end in the
  pipeline of theory \<open>Gateway\<close>.  \<^verbatim>\<open>go-smtp\<close> calls them in protocol order: \<open>smtp_step\<close> is that
  order.  The parsers of \<^verbatim>\<open>net/mail\<close> and \<^verbatim>\<open>mime\<close>, the date format and fresh message IDs are
  parameters.
\<close>

section \<open>Replies\<close>

record SMTPError =
  se_Code :: nat
  se_EnhancedCode :: "nat \<times> nat \<times> nat"
  se_Message :: string

definition smtpError :: "nat \<Rightarrow> nat \<times> nat \<times> nat \<Rightarrow> string \<Rightarrow> SMTPError" where
  "smtpError code enh msg = \<lparr>se_Code = code, se_EnhancedCode = enh, se_Message = msg\<rparr>"

definition errAuthRequired :: SMTPError where
  "errAuthRequired = smtpError 530 (5, 7, 0) ''Authentication required''"

definition errAuthUnavailable :: SMTPError where
  "errAuthUnavailable = smtpError 454 (4, 7, 0) ''Temporary authentication failure''"

definition errInvalidCredentials :: SMTPError where
  "errInvalidCredentials = smtpError 535 (5, 7, 8) ''Authentication credentials invalid''"

definition errCredentialRevoked :: SMTPError where
  "errCredentialRevoked = smtpError 454 (4, 7, 0) ''Credential no longer valid; reconnect and authenticate again''"

definition errLineTooLong :: "nat \<Rightarrow> SMTPError" where
  "errLineTooLong maxLine = smtpError 550 (5, 6, 0)
     (''Line longer than '' @ nat_digits maxLine @ '' bytes; use quoted-printable or base64'')"

definition withMessageID :: "SMTPError \<Rightarrow> string \<Rightarrow> SMTPError" where
  "withMessageID e msgID = e\<lparr>se_Message := se_Message e @ '' (id '' @ msgID @ '')''\<rparr>"

text \<open>Whole seconds of a non-negative duration, rounded down or up.\<close>

definition secondsDown :: "duration \<Rightarrow> int" where "secondsDown d = d div second"

definition secondsUp :: "duration \<Rightarrow> int" where "secondsUp d = - ((- d) div second)"

text \<open>The closure \<^verbatim>\<open>e\<close> of \<^verbatim>\<open>resultError\<close>.\<close>

definition replyWithID :: "string \<Rightarrow> nat \<Rightarrow> nat \<times> nat \<times> nat \<Rightarrow> string \<Rightarrow> SMTPError" where
  "replyWithID msgID code enh msg = smtpError code enh (msg @ '' (id '' @ msgID @ '')'')"

definition resultError :: "Gateway.Result \<Rightarrow> string \<Rightarrow> SMTPError option" where
  "resultError res msgID =
     (let e = (\<lambda>code enh msg. Some (replyWithID msgID code enh msg)) in
      case re_Status res of
        StatusAccepted \<Rightarrow> None
      | StatusDenied \<Rightarrow> (case re_DenyReason res of
            Some DenyMessageTooLarge \<Rightarrow> e 552 (5, 3, 4) ''Message exceeds policy size limit''
          | Some DenyTooManyRecipient \<Rightarrow> e 550 (5, 5, 3) ''Too many recipients for policy''
          | Some DenyNoPolicy \<Rightarrow> e 550 (5, 7, 1) ''No matching policy''
          | r \<Rightarrow> e 550 (5, 7, 1) (''Rejected by policy '' @ re_Policy res @ '': '' @
                (case r of None \<Rightarrow> [] | Some x \<Rightarrow> reason_string x)))
      | StatusRateLimited \<Rightarrow> e 421 (4, 7, 0)
          (''Rate limit exceeded, retry in '' @ Itoa (secondsDown (re_RetryAfter res)) @ ''s'')
      | StatusUpstreamError \<Rightarrow>
          if re_Permanent res then e 554 (5, 0, 0) ''Upstream relay rejected the message''
          else if re_RetryAfter res > 0 then e 451 (4, 4, 1)
            (''Upstream relay unavailable, retry in '' @ Itoa (secondsUp (re_RetryAfter res)) @ ''s'')
          else e 451 (4, 4, 1) ''Upstream relay unavailable''
      | _ \<Rightarrow> e 451 (4, 3, 0) ''Temporarily unavailable'')"

section \<open>Messages\<close>

text \<open>A parsed header: canonical field names with their values, in order.\<close>

type_synonym header = "(string \<times> string list) list"

definition header_values :: "header \<Rightarrow> string \<Rightarrow> string list" where
  "header_values h k = (case map_of h k of None \<Rightarrow> [] | Some vs \<Rightarrow> vs)"

definition header_Get :: "header \<Rightarrow> string \<Rightarrow> string" where
  "header_Get h k = (case header_values h k of [] \<Rightarrow> [] | v # _ \<Rightarrow> v)"

text \<open>
  What the session uses of net/mail, mime and go-smtp; \<open>ml_errorText\<close> is the text of an error, which
  repeats that of the library error inside it.
\<close>

datatype message_error =
    MalformedHeader | ResentField string | MultipleFields string | NoFrom
  | BadAddressList string | CannotDecode | NameContainsAt | BadMailboxField address_error
  | MultipleFrom | SenderCount

record mail_lib =
  ml_ReadMessage :: "string \<Rightarrow> (header \<times> string) option"
  ml_AddressList :: "string \<Rightarrow> (string list) option"
  ml_DecodeHeader :: "string \<Rightarrow> string option"
  ml_ParseMediaType :: "string \<Rightarrow> (string \<times> string) option"
  ml_Parts :: "string \<Rightarrow> string \<Rightarrow> (header \<times> string) list \<times> bool"
  ml_Decode :: "string \<Rightarrow> string \<Rightarrow> nat option"
  ml_errorText :: "message_error \<Rightarrow> string"
  ml_ErrAuthUnknownMechanism :: SMTPError

text \<open>\<^verbatim>\<open>ValidateAddressHeader\<close> of \<^verbatim>\<open>internal/policy/address.go\<close>; the look-alikes are U+FF20 and U+FE6B.\<close>

definition ValidateAddressHeader :: "mail_lib \<Rightarrow> string \<Rightarrow> nat \<Rightarrow> message_error option" where
  "ValidateAddressHeader M raw n = (case ml_DecodeHeader M raw of None \<Rightarrow> Some CannotDecode
     | Some decoded \<Rightarrow>
        let ats = Count decoded ''@'' + Count decoded [CHR 0xEF, CHR 0xBC, CHR 0xA0]
                + Count decoded [CHR 0xEF, CHR 0xB9, CHR 0xAB]
        in if ats > n then Some NameContainsAt else None)"

record addressHeaders =
  ah_from :: string
  ah_sender :: string
  ah_replyTo :: "string list"

definition addressField :: "mail_lib \<Rightarrow> header \<Rightarrow> string \<Rightarrow> message_error + string list" where
  "addressField M h k = (case ml_AddressList M (header_Get h k) of None \<Rightarrow> Inl (BadAddressList k)
     | Some lst \<Rightarrow> (case ValidateAddressHeader M (header_Get h k) (length lst) of Some e \<Rightarrow> Inl e
       | None \<Rightarrow> (case find_map ValidateMailbox lst of Some e \<Rightarrow> Inl (BadMailboxField e) | None \<Rightarrow> Inr lst)))"

definition fromField :: "mail_lib \<Rightarrow> header \<Rightarrow> message_error + string" where
  "fromField M h = (if header_values h ''From'' = [] then Inl NoFrom
     else case addressField M h ''From'' of Inl e \<Rightarrow> Inl e
       | Inr [] \<Rightarrow> Inl NoFrom | Inr [a] \<Rightarrow> Inr a | Inr _ \<Rightarrow> Inl MultipleFrom)"

definition senderField :: "mail_lib \<Rightarrow> header \<Rightarrow> message_error + string" where
  "senderField M h = (if header_values h ''Sender'' = [] then Inr []
     else case addressField M h ''Sender'' of Inl e \<Rightarrow> Inl e | Inr [a] \<Rightarrow> Inr a | Inr _ \<Rightarrow> Inl SenderCount)"

definition replyToField :: "mail_lib \<Rightarrow> header \<Rightarrow> message_error + string list" where
  "replyToField M h = (if header_values h ''Reply-To'' = [] then Inr []
     else addressField M h ''Reply-To'')"

definition parseMessage :: "mail_lib \<Rightarrow> string \<Rightarrow> message_error + ((header \<times> string) \<times> addressHeaders)" where
  "parseMessage M raw = (case ml_ReadMessage M raw of None \<Rightarrow> Inl MalformedHeader
     | Some (h, body) \<Rightarrow>
        (case List.find (\<lambda>kv. HasPrefix (fst kv) ''Resent-'') h of Some kv \<Rightarrow> Inl (ResentField (fst kv))
         | None \<Rightarrow>
        (case List.find (\<lambda>k. length (header_values h k) > 1) [''From'', ''Sender'', ''Reply-To''] of
           Some k \<Rightarrow> Inl (MultipleFields k)
         | None \<Rightarrow>
        (case fromField M h of Inl e \<Rightarrow> Inl e
         | Inr from \<Rightarrow> (case senderField M h of Inl e \<Rightarrow> Inl e
           | Inr sender \<Rightarrow> (case replyToField M h of Inl e \<Rightarrow> Inl e
             | Inr rt \<Rightarrow> Inr ((h, body), \<lparr>ah_from = from, ah_sender = sender, ah_replyTo = rt\<rparr>)))))))"

definition missingOriginationHeaders :: "string \<Rightarrow> header \<Rightarrow> string \<Rightarrow> string \<Rightarrow> string" where
  "missingOriginationHeaders date h msgID from =
     (if header_Get h ''Date'' = [] then ''Date: '' @ date @ [CR, LF] else []) @
     (if header_Get h ''Message-Id'' = [] then
        (let domain = (case LastIndexByte from CHR ''@'' of
             Some at \<Rightarrow> if at < length from - 1 then drop (at + 1) from else ''sigillum.local''
           | None \<Rightarrow> ''sigillum.local'')
         in ''Message-ID: <'' @ msgID @ ''@'' @ domain @ ''>'' @ [CR, LF])
      else [])"

definition receivedHeader :: "string \<Rightarrow> string \<Rightarrow> string \<Rightarrow> string \<Rightarrow> bool \<Rightarrow> string" where
  "receivedHeader date remoteIP msgID authMethod tls =
     ''Received: from ['' @ remoteIP @ ''] by sigillum with '' @
     (''ESMTP'' @ (if tls then ''S'' else []) @
        (if authMethod = AuthOAuthBearer \<or> authMethod = AuthSMTPCredential then ''A'' else [])) @
     '' id '' @ msgID @ '';'' @ [CR, LF, CHR 0x09] @ date @ [CR, LF]"

subsection \<open>Content size (size.go)\<close>

text \<open>The first argument is how many levels are left: \<^verbatim>\<open>maxMIMEDepth + 1\<close> at the top.\<close>

abbreviation maxMIMEDepth :: nat where "maxMIMEDepth \<equiv> 16"

definition leafSavings :: "unicode_tables \<Rightarrow> mail_lib \<Rightarrow> header \<Rightarrow> string \<Rightarrow> int option" where
  "leafSavings U M h body =
     (let enc = ToLower U (TrimSpace (header_Get h ''Content-Transfer-Encoding'')) in
      if enc = ''base64'' \<or> enc = ''quoted-printable''
      then map_option (\<lambda>decoded. int (length body) - int decoded) (ml_Decode M enc body)
      else Some 0)"

fun encodingSavings :: "unicode_tables \<Rightarrow> mail_lib \<Rightarrow> nat \<Rightarrow> header \<Rightarrow> string \<Rightarrow> int option" where
  "encodingSavings U M 0 h body = None"
| "encodingSavings U M (Suc d) h body =
     (case ml_ParseMediaType M (header_Get h ''Content-Type'') of
        Some (mediaType, boundary) \<Rightarrow>
          if HasPrefix mediaType ''multipart/'' then
            (if boundary = [] then None
             else (case ml_Parts M boundary body of (parts, ok) \<Rightarrow>
               (let ns = map (\<lambda>(ph, pb). encodingSavings U M d ph pb) parts in
                if None \<in> set ns \<or> \<not> ok then None else Some (sum_list (map the ns)))))
          else leafSavings U M h body
      | None \<Rightarrow> leafSavings U M h body)"

definition contentSize :: "unicode_tables \<Rightarrow> mail_lib \<Rightarrow> header \<Rightarrow> string \<Rightarrow> nat \<Rightarrow> int" where
  "contentSize U M h body rawLen = (case encodingSavings U M (maxMIMEDepth + 1) h body of
     None \<Rightarrow> int rawLen
   | Some savings \<Rightarrow> if savings < 0 \<or> savings > int rawLen then int rawLen else int rawLen - savings)"

lemma contentSize_bounds: "0 \<le> contentSize U M h body n \<and> contentSize U M h body n \<le> int n"
  by (auto simp: contentSize_def split: option.split)

section \<open>The session\<close>

datatype token_error = TokenUnavailable | TokenInvalid

record 'l smtp_backend =
  sb_cluster :: "'l cluster"
  sb_lib :: mail_lib
  sb_Tokens :: "(string \<Rightarrow> token_error + (string \<times> string)) option"
  sb_Pods :: "(string \<Rightarrow> pod_error + PodIdentity) option"
  sb_StillValid :: "Credential_Verifier.Result \<Rightarrow> verify_error + bool"
  sb_Date :: string
  sb_MaxLine :: nat

record session =
  s_remoteIP :: string
  s_identity :: "Identity option"
  s_cred :: "Credential_Verifier.Result option"
  s_from :: string
  s_rcpts :: "string list"
  s_revoked :: bool
  s_closing :: bool

definition newSession :: "string \<Rightarrow> session" where
  "newSession ip = \<lparr>s_remoteIP = ip, s_identity = None, s_cred = None, s_from = [], s_rcpts = [],
     s_revoked = False, s_closing = False\<rparr>"

definition blankEvent :: "string \<Rightarrow> Event" where
  "blankEvent msgID = \<lparr>ev_Stream = [], ev_Timestamp = None, ev_MessageID = msgID, ev_Namespace = [],
     ev_ServiceAccount = [], ev_AuthMethod = [], ev_Credential = [], ev_CredentialPrevious = False,
     ev_Cluster = [], ev_Transport = ''smtp'', ev_From = [], ev_To = None, ev_Policy = [], ev_Backend = [],
     ev_Decision = DecisionNone, ev_Reason = []\<rparr>"

definition event :: "session \<Rightarrow> string \<Rightarrow> string \<Rightarrow> string list \<Rightarrow> Event" where
  "event s msgID from rcpts =
     (let ev = (blankEvent msgID)\<lparr>ev_From := from, ev_To := (if rcpts = [] then None else Some rcpts)\<rparr> in
      case s_identity s of None \<Rightarrow> ev
      | Some i \<Rightarrow> ev\<lparr>ev_Namespace := id_Namespace i, ev_ServiceAccount := id_ServiceAccount i,
          ev_AuthMethod := id_AuthMethod i, ev_Credential := id_Credential i,
          ev_CredentialPrevious := id_CredentialPrevious i\<rparr>)"

type_synonym 'l reply = "session \<times> 'l gateway \<times> SMTPError option"

text \<open>The callback of AUTH OAUTHBEARER with the replies of its two wrappers.\<close>

definition tokenAuth :: "'l smtp_backend \<Rightarrow> string \<Rightarrow> string \<Rightarrow> session \<Rightarrow> 'l gateway \<Rightarrow> 'l reply" where
  "tokenAuth B msgID token s g = (case sb_Tokens B of
     None \<Rightarrow> (s, g, Some (ml_ErrAuthUnknownMechanism (sb_lib B)))
   | Some auth \<Rightarrow>
      let ev = (blankEvent msgID)\<lparr>ev_AuthMethod := AuthOAuthBearer\<rparr> in
      (case auth token of
         Inl TokenUnavailable \<Rightarrow> (s, Reject g ev ''auth_unavailable'', Some errAuthUnavailable)
       | Inl TokenInvalid \<Rightarrow> (s, Reject g ev ''invalid_token'', Some errInvalidCredentials)
       | Inr (ns, sa) \<Rightarrow> (s\<lparr>s_identity := Some \<lparr>id_Namespace = ns, id_ServiceAccount = sa,
           id_AuthMethod = AuthOAuthBearer, id_PodLabels = [], id_Credential = [],
           id_CredentialPrevious = False\<rparr>\<rparr>, g, None)))"

text \<open>The end of \<^verbatim>\<open>credentialLogin\<close>, after the verifier's answer.\<close>

definition credentialLogin ::
    "string \<Rightarrow> string \<Rightarrow> verify_error + Credential_Verifier.Result \<Rightarrow> session \<Rightarrow> 'l gateway \<Rightarrow> 'l reply" where
  "credentialLogin msgID username answer s g =
     (let failed = (\<lambda>reason. Reject g ((blankEvent msgID)\<lparr>ev_AuthMethod := AuthSMTPCredential,
          ev_Credential := auditUsername username\<rparr>) reason) in
      case answer of
        Inl ErrInvalid \<Rightarrow> (s, failed ''invalid_credentials'', Some errInvalidCredentials)
      | Inl _ \<Rightarrow> (s, failed ''auth_unavailable'', Some errAuthUnavailable)
      | Inr res \<Rightarrow> (s\<lparr>s_cred := Some res, s_identity := Some \<lparr>id_Namespace = r_Namespace res,
          id_ServiceAccount = r_ServiceAccount res, id_AuthMethod = AuthSMTPCredential, id_PodLabels = [],
          id_Credential = r_Username res, id_CredentialPrevious = r_Previous res\<rparr>\<rparr>, g, None))"

definition checkCredential ::
    "'l smtp_backend \<Rightarrow> string \<Rightarrow> string \<Rightarrow> string list \<Rightarrow> session \<Rightarrow> 'l gateway \<Rightarrow> 'l reply" where
  "checkCredential B msgID from rcpts s g =
     (if s_revoked s then (s, g, Some errCredentialRevoked)
      else case s_cred s of None \<Rightarrow> (s, g, None)
        | Some r \<Rightarrow> (case sb_StillValid B r of
            Inl ErrInvalid \<Rightarrow>
              (s\<lparr>s_identity := None, s_cred := None, s_revoked := True\<rparr>,
               Reject g (event s msgID from rcpts) ''invalid_credentials'', Some errCredentialRevoked)
          | Inl _ \<Rightarrow> (s, Reject g (event s msgID from rcpts) ''auth_unavailable'', Some errAuthUnavailable)
          | Inr previous \<Rightarrow> (s\<lparr>s_identity := map_option (\<lambda>i. i\<lparr>id_CredentialPrevious := previous\<rparr>) (s_identity s)\<rparr>,
              g, None)))"

definition identifyByPodIP :: "'l smtp_backend \<Rightarrow> string \<Rightarrow> session \<Rightarrow> 'l gateway \<Rightarrow> 'l reply" where
  "identifyByPodIP B msgID s g = (case sb_Pods B of
     None \<Rightarrow> (s, Reject g (blankEvent msgID) ''auth_required'', Some errAuthRequired)
   | Some resolve \<Rightarrow> (case resolve (s_remoteIP s) of
       Inl _ \<Rightarrow> (s, Reject g (blankEvent msgID) ''pod_ip_unresolved'', Some errAuthRequired)
     | Inr pod \<Rightarrow> (s\<lparr>s_identity := Some \<lparr>id_Namespace = pi_Namespace pod, id_ServiceAccount = pi_ServiceAccount pod,
         id_AuthMethod = AuthPodIPLegacy, id_PodLabels = pi_Labels pod, id_Credential = [],
         id_CredentialPrevious = False\<rparr>\<rparr>, g, None)))"

definition checkPath :: "'l smtp_backend \<Rightarrow> string \<Rightarrow> plain_error option" where
  "checkPath B p = ValidatePlainAddress (c_externals (sb_cluster B)) p"

definition Mail :: "'l smtp_backend \<Rightarrow> string \<Rightarrow> string \<Rightarrow> session \<Rightarrow> 'l gateway \<Rightarrow> 'l reply" where
  "Mail B msgID from s g = (case checkCredential B msgID from [] s g of
     (s, g, Some e) \<Rightarrow> (s, g, Some e)
   | (s, g, None) \<Rightarrow>
      (case (if s_identity s = None then identifyByPodIP B msgID s g else (s, g, None)) of
         (s, g, Some e) \<Rightarrow> (s, g, Some e)
       | (s, g, None) \<Rightarrow>
          if from = [] then (s, Reject g (event s msgID [] []) ''null_sender'',
             Some (smtpError 550 (5, 7, 1) ''Null sender <> is not accepted for submission''))
          else if checkPath B from \<noteq> None then (s, Reject g (event s msgID from []) ''invalid_payload'',
             Some (smtpError 553 (5, 1, 7) ''Malformed sender address''))
          else (s\<lparr>s_from := from\<rparr>, g, None)))"

definition Rcpt :: "'l smtp_backend \<Rightarrow> string \<Rightarrow> string \<Rightarrow> session \<Rightarrow> 'l gateway \<Rightarrow> 'l reply" where
  "Rcpt B msgID rcpt s g =
     (if checkPath B rcpt \<noteq> None
      then (s, Reject g (event s msgID (s_from s) [rcpt]) ''invalid_payload'',
            Some (smtpError 553 (5, 1, 3) ''Malformed recipient address''))
      else (s\<lparr>s_rcpts := s_rcpts s @ [rcpt]\<rparr>, g, None))"

definition Reset :: "session \<Rightarrow> session" where
  "Reset s = s\<lparr>s_from := [], s_rcpts := []\<rparr>"

text \<open>What reading the message gave.\<close>

datatype read_outcome = ReadOK string | DataTooLarge SMTPError | DeadlineExceeded | TooLongLine | ReadFailed SMTPError

text \<open>The relayed bytes: trace header, added headers, message without Bcc.\<close>

definition relayedMessage :: "'l smtp_backend \<Rightarrow> string \<Rightarrow> bool \<Rightarrow> session \<Rightarrow> Identity \<Rightarrow> string \<Rightarrow> header \<Rightarrow> addressHeaders \<Rightarrow> string" where
  "relayedMessage B msgID tls s i raw h hdr =
     receivedHeader (sb_Date B) (s_remoteIP s) msgID (id_AuthMethod i) tls @
     missingOriginationHeaders (sb_Date B) h msgID (ah_from hdr) @ raw"

definition smtpRequest ::
    "'l smtp_backend \<Rightarrow> string \<Rightarrow> bool \<Rightarrow> session \<Rightarrow> Identity \<Rightarrow> string \<Rightarrow> header \<times> string \<Rightarrow> addressHeaders \<Rightarrow> Identity \<Rightarrow> Request" where
  "smtpRequest B msgID tls s i raw msg hdr i' = \<lparr>rq_Identity = i', rq_Transport = ''smtp'', rq_MessageID = msgID,
     rq_Message = \<lparr>ms_MessageID = [], ms_From = \<lparr>ad_Name = [], ad_Address = ah_from hdr\<rparr>,
       ms_To = map (\<lambda>rc. \<lparr>ad_Name = [], ad_Address = rc\<rparr>) (s_rcpts s), ms_Cc = [], ms_Bcc = [], ms_Subject = [],
       ms_Body = \<lparr>bd_Text = [], bd_HTML = []\<rparr>, ms_Attachments = [], ms_Headers = []\<rparr>,
     rq_Raw = Some (relayedMessage B msgID tls s i raw (fst msg) hdr), rq_EnvelopeFrom = s_from s,
     rq_Sender = ah_sender hdr, rq_ReplyTo = ah_replyTo hdr,
     rq_SizeBytes = contentSize (x_unicode (c_externals (sb_cluster B))) (sb_lib B) (fst msg) (snd msg) (length raw)\<rparr>"

text \<open>\<^verbatim>\<open>Data\<close> once the message is read.\<close>

definition dataMessage ::
    "'l smtp_backend \<Rightarrow> string \<Rightarrow> bool \<Rightarrow> Identity \<Rightarrow> string \<Rightarrow> session \<Rightarrow> 'l gateway \<Rightarrow> 'l reply" where
  "dataMessage B msgID tls i content s g =
     (let raw = stripBcc (x_unicode (c_externals (sb_cluster B))) content in
      case parseMessage (sb_lib B) raw of
        Inl err \<Rightarrow> (s, Reject g (event s msgID (s_from s) (s_rcpts s)) ''invalid_payload'',
                  Some (smtpError 550 (5, 6, 0) (ml_errorText (sb_lib B) err)))
      | Inr (msg, hdr) \<Rightarrow>
          (case checkCredential B msgID (s_from s) (s_rcpts s) s g of
             (s, g, Some e) \<Rightarrow> (s, g, Some (withMessageID e msgID))
           | (s', g, None) \<Rightarrow> (case s_identity s' of None \<Rightarrow> (s', g, Some errAuthRequired)
               | Some i' \<Rightarrow> (case Send (sb_cluster B) (smtpRequest B msgID tls s i raw msg hdr i') g of
                   (g, res) \<Rightarrow> (s', g, resultError res msgID)))))"

text \<open>\<open>tenant\<close> and \<open>slot\<close> tell whether the two limits let the message in before the context ended.\<close>

definition Data ::
    "'l smtp_backend \<Rightarrow> string \<Rightarrow> bool \<Rightarrow> bool \<Rightarrow> bool \<Rightarrow> read_outcome \<Rightarrow> session \<Rightarrow> 'l gateway \<Rightarrow> 'l reply" where
  "Data B msgID tls tenant slot r s g = (case s_identity s of
     None \<Rightarrow> (s, g, Some errAuthRequired)
   | Some i \<Rightarrow>
      let ev = event s msgID (s_from s) (s_rcpts s) in
      if \<not> tenant then (s, Reject g ev ''busy'', Some (smtpError 451 (4, 3, 2)
        (''Too many concurrent messages for this tenant, try again later (id '' @ msgID @ '')'')))
      else if \<not> slot then (s, Reject g ev ''busy'', Some (smtpError 451 (4, 3, 2)
        (''Too many concurrent messages, try again later (id '' @ msgID @ '')'')))
      else (case r of
          DataTooLarge e \<Rightarrow> (s, Reject g ev ''message_too_large'', Some e)
        | DeadlineExceeded \<Rightarrow> (s\<lparr>s_closing := True\<rparr>, Reject g ev ''data_timeout'',
            Some (smtpError 451 (4, 4, 2) (''Timeout during data transfer (id '' @ msgID @ '')'')))
        | TooLongLine \<Rightarrow> (s\<lparr>s_closing := True\<rparr>, Reject g ev ''invalid_payload'',
            Some (withMessageID (errLineTooLong (sb_MaxLine B)) msgID))
        | ReadFailed e \<Rightarrow> (s, Reject g ev ''invalid_payload'', Some e)
        | ReadOK content \<Rightarrow> dataMessage B msgID tls i content s g))"

section \<open>Runs of a session\<close>

text \<open>
  What the server lets a client do: at most one successful AUTH (\<open>authed\<close> is the server's own
  flag), DATA only after MAIL and RCPT, RSET after every message; the answers of the
  environment may change between commands.
\<close>

inductive smtp_step :: "session \<times> bool \<times> 'l gateway \<Rightarrow> session \<times> bool \<times> 'l gateway \<Rightarrow> bool" where
  token: "tokenAuth B m tok s g = (s', g', r) \<Longrightarrow> smtp_step (s, False, g) (s', r = None, g')"
| login: "credentialLogin m u a s g = (s', g', r) \<Longrightarrow> smtp_step (s, False, g) (s', r = None, g')"
| mail: "Mail B m from s g = (s', g', r) \<Longrightarrow> smtp_step (s, a, g) (s', a, g')"
| rcpt: "Rcpt B m rc s g = (s', g', r) \<Longrightarrow> s_from s \<noteq> [] \<Longrightarrow> smtp_step (s, a, g) (s', a, g')"
| data: "Data B m tls tn sl rd s g = (s', g', r) \<Longrightarrow> s_from s \<noteq> [] \<Longrightarrow> s_rcpts s \<noteq> [] \<Longrightarrow>
    smtp_step (s, a, g) (Reset s', a, g')"
| rset: "smtp_step (s, a, g) (Reset s, a, g)"

text \<open>A revoked session has no identity left and was authenticated by a credential.\<close>

definition session_inv :: "session \<Rightarrow> bool \<Rightarrow> bool" where
  "session_inv s authed \<longleftrightarrow> (s_revoked s \<longrightarrow> s_identity s = None \<and> s_cred s = None \<and> authed) \<and>
     (s_cred s \<noteq> None \<longrightarrow> authed \<and> (\<exists>i. s_identity s = Some i \<and> id_AuthMethod i = AuthSMTPCredential \<and>
        id_Namespace i = r_Namespace (the (s_cred s)) \<and> id_ServiceAccount i = r_ServiceAccount (the (s_cred s))))"

lemma session_inv_upd [simp]:
  "session_inv (s\<lparr>s_closing := b\<rparr>) a = session_inv s a" "session_inv (s\<lparr>s_from := f\<rparr>) a = session_inv s a"
  "session_inv (s\<lparr>s_rcpts := rs\<rparr>) a = session_inv s a" "session_inv (Reset s) a = session_inv s a"
  by (simp_all add: session_inv_def Reset_def)

lemma checkCredential_inv:
  "checkCredential B m from rs s g = (s', g', r) \<Longrightarrow> session_inv s a \<Longrightarrow> session_inv s' a \<and>
     (s_revoked s \<longrightarrow> r \<noteq> None \<and> s' = s \<and> g' = g) \<and> (r = None \<longrightarrow> \<not> s_revoked s')"
  by (auto simp: checkCredential_def session_inv_def split: if_splits option.splits sum.splits verify_error.splits)

lemma Mail_inv: "Mail B m from s g = (s', g', r) \<Longrightarrow> session_inv s a \<Longrightarrow> session_inv s' a"
proof -
  assume m: "Mail B m from s g = (s', g', r)" and i: "session_inv s a"
  obtain s1 g1 r1 where c: "checkCredential B m from [] s g = (s1, g1, r1)" by (cases "checkCredential B m from [] s g") auto
  note c1 = checkCredential_inv [OF c i]
  show ?thesis
  proof (cases r1)
    case (Some e)
    then show ?thesis using m c c1 by (simp add: Mail_def)
  next
    case None
    obtain s2 g2 r2 where p: "(if s_identity s1 = None then identifyByPodIP B m s1 g1 else (s1, g1, None)) = (s2, g2, r2)"
      by (cases "if s_identity s1 = None then identifyByPodIP B m s1 g1 else (s1, g1, None)") auto
    have "session_inv s2 a"
      using p c1 None by (auto simp: identifyByPodIP_def session_inv_def split: if_splits option.splits sum.splits)
    then show ?thesis
      using m c None p by (auto simp: Mail_def split: if_splits option.splits)
  qed
qed

lemma dataMessage_inv:
  "dataMessage B m tls i c s g = (s', g', r) \<Longrightarrow> session_inv s a \<Longrightarrow> session_inv s' a"
  using checkCredential_inv [of B m "s_from s" "s_rcpts s" s g]
  by (auto simp: dataMessage_def Let_def split: sum.splits prod.splits option.splits)

lemma Data_inv: "Data B m tls tn sl rd s g = (s', g', r) \<Longrightarrow> session_inv s a \<Longrightarrow> session_inv s' a"
  using dataMessage_inv [of B m tls _ _ s g s' g' r a]
  by (auto simp: Data_def Let_def split: option.splits if_splits read_outcome.splits)

lemma smtp_step_inv: "smtp_step x y \<Longrightarrow> session_inv (fst x) (fst (snd x)) \<Longrightarrow> session_inv (fst y) (fst (snd y))"
proof (induction rule: smtp_step.induct)
  case (token B m tok s g s' g' r)
  then show ?case
    by (auto simp: tokenAuth_def session_inv_def Let_def split: option.splits sum.splits token_error.splits)
next
  case (login m u a s g s' g' r)
  then show ?case
    by (auto simp: credentialLogin_def session_inv_def Let_def split: sum.splits verify_error.splits)
next
  case (mail B m frm s g s' g' r a)
  then show ?case by (simp add: Mail_inv)
next
  case (rcpt B m rc s g s' g' r a)
  then show ?case by (auto simp: Rcpt_def split: if_splits)
next
  case (data B m tls tn sl rd s g s' g' r a)
  then show ?case by (simp add: Data_inv)
next
  case (rset s a g)
  then show ?case by simp
qed

section \<open>What a session relays\<close>

text \<open>The commands before DATA and the refused ones add only audit records.\<close>

definition only_records :: "'l gateway \<Rightarrow> 'l gateway \<Rightarrow> bool" where
  "only_records g g' \<longleftrightarrow> (\<exists>evs. g_trace g' = g_trace g @ map Recorded evs) \<and> g_limiter g' = g_limiter g"

lemma only_records_refl [simp]: "only_records g g"
  by (auto simp: only_records_def intro: exI [of _ "[]"])

lemma only_records_Reject [simp]: "only_records g (Reject g ev reason)"
  unfolding only_records_def Reject_def emit_def
  by (simp, rule exI [of _ "[ev\<lparr>ev_Decision := DecisionReject, ev_Reason := reason\<rparr>]"], simp)

lemma only_records_trans: "only_records g g' \<Longrightarrow> only_records g' g'' \<Longrightarrow> only_records g g''"
  unfolding only_records_def by (metis append_assoc map_append)

lemma checkCredential_records: "checkCredential B m f rs s g = (s', g', r) \<Longrightarrow> only_records g g'"
  by (auto simp: checkCredential_def split: if_splits option.splits sum.splits verify_error.splits)

lemma checkCredential_rcpts:
  "checkCredential B m f rs s g = (s', g', r) \<Longrightarrow> s_rcpts s' = s_rcpts s \<and> s_from s' = s_from s"
  by (auto simp: checkCredential_def split: if_splits option.splits sum.splits verify_error.splits)

text \<open>A session relays at most one message per DATA, for its accepted envelope.\<close>

lemma Data_relay:
  assumes "Data B m tls tn sl rd s g = (s', g', r)"
  shows "only_records g g' \<or> (\<exists>content msg hdr i i' g1. s_identity s = Some i \<and> rd = ReadOK content \<and> tn \<and> sl \<and>
    parseMessage (sb_lib B) (stripBcc (x_unicode (c_externals (sb_cluster B))) content) = Inr (msg, hdr) \<and>
    checkCredential B m (s_from s) (s_rcpts s) s g = (s', g1, None) \<and> s_identity s' = Some i' \<and>
    (g', r) = (\<lambda>(g2, res). (g2, resultError res m)) (Send (sb_cluster B)
      (smtpRequest B m tls s i (stripBcc (x_unicode (c_externals (sb_cluster B))) content) msg hdr i') g1))"
proof (cases "s_identity s")
  case None
  then show ?thesis using assms by (simp add: Data_def)
next
  case (Some i)
  show ?thesis
  proof (cases "tn \<and> sl \<and> (\<exists>c. rd = ReadOK c)")
    case False
    then show ?thesis using assms Some
      by (auto simp: Data_def Let_def split: if_splits read_outcome.splits)
  next
    case True
    then obtain c where c: "rd = ReadOK c" "tn" "sl" by auto
    let ?raw = "stripBcc (x_unicode (c_externals (sb_cluster B))) c"
    have d: "dataMessage B m tls i c s g = (s', g', r)" using assms Some c by (simp add: Data_def)
    show ?thesis
    proof (cases "parseMessage (sb_lib B) ?raw")
      case (Inl e)
      then show ?thesis using d by (auto simp: dataMessage_def)
    next
      case (Inr mh)
      obtain msg hdr where mh: "mh = (msg, hdr)" by fastforce
      obtain s1 g1 r1 where k: "checkCredential B m (s_from s) (s_rcpts s) s g = (s1, g1, r1)"
        by (cases "checkCredential B m (s_from s) (s_rcpts s) s g") auto
      note rec = checkCredential_records [OF k]
      show ?thesis
      proof (cases "r1 = None \<and> s_identity s1 \<noteq> None")
        case False
        then show ?thesis
          using d Inr mh k rec by (auto simp: dataMessage_def split: option.splits)
      next
        case True
        then obtain i' where i': "r1 = None" "s_identity s1 = Some i'" by auto
        then have "s' = s1" "(g', r) = (\<lambda>(g2, res). (g2, resultError res m)) (Send (sb_cluster B)
            (smtpRequest B m tls s i ?raw msg hdr i') g1)"
          using d Inr mh k by (auto simp: dataMessage_def Let_def split_beta)
        then show ?thesis using Some c Inr mh k i' by blast
      qed
    qed
  qed
qed

lemma smtpRequest_fields:
  "rq_Identity (smtpRequest B m tls s i raw msg hdr i') = i'"
  "Recipients (rq_Message (smtpRequest B m tls s i raw msg hdr i')) = s_rcpts s"
  "rq_EnvelopeFrom (smtpRequest B m tls s i raw msg hdr i') = s_from s"
  "ad_Address (ms_From (rq_Message (smtpRequest B m tls s i raw msg hdr i'))) = ah_from hdr"
  "rq_Sender (smtpRequest B m tls s i raw msg hdr i') = ah_sender hdr"
  "rq_Raw (smtpRequest B m tls s i raw msg hdr i') =
     Some (receivedHeader (sb_Date B) (s_remoteIP s) m (id_AuthMethod i) tls @
       missingOriginationHeaders (sb_Date B) (fst msg) m (ah_from hdr) @ raw)"
  by (simp_all add: smtpRequest_def Recipients_def relayedMessage_def comp_def)

lemma Mail_records: "Mail B m f s g = (s', g', r) \<Longrightarrow> only_records g g'"
proof -
  assume m: "Mail B m f s g = (s', g', r)"
  obtain s1 g1 r1 where c: "checkCredential B m f [] s g = (s1, g1, r1)" by (cases "checkCredential B m f [] s g") auto
  note r1 = checkCredential_records [OF c]
  obtain s2 g2 r2 where p: "(if s_identity s1 = None then identifyByPodIP B m s1 g1 else (s1, g1, None)) = (s2, g2, r2)"
    by (cases "if s_identity s1 = None then identifyByPodIP B m s1 g1 else (s1, g1, None)") auto
  have "only_records g1 g2"
    using p by (auto simp: identifyByPodIP_def split: if_splits option.splits sum.splits)
  with r1 have "only_records g g2" by (rule only_records_trans)
  then show ?thesis
    using m c p r1 by (auto simp: Mail_def split: option.splits if_splits intro: only_records_trans)
qed

lemma revoked_step:
  assumes "smtp_step x y" "s_revoked (fst x)" "session_inv (fst x) (fst (snd x))"
  shows "s_revoked (fst y) \<and> only_records (snd (snd x)) (snd (snd y))"
  using assms
proof (induction rule: smtp_step.induct)
  case (mail B m frm s g s' g' r a)
  then show ?case by (auto simp: Mail_def checkCredential_def)
next
  case (rcpt B m rc s g s' g' r a)
  then show ?case by (auto simp: Rcpt_def split: if_splits)
next
  case (data B m tls tn sl rd s g s' g' r a)
  then show ?case by (auto simp: Data_def session_inv_def Reset_def)
qed (auto simp: session_inv_def Reset_def)

section \<open>Properties\<close>

text \<open>C4. A revoked session is dead: once a check found its credential revoked, whatever the client
  sends and however the credential changes afterwards, the session relays nothing and charges no
  rate limit; at most audit records are added.\<close>

theorem revoked_session_relays_nothing:
  assumes "smtp_step\<^sup>*\<^sup>* (newSession ip, False, g0) (s, a, g)" "s_revoked s"
    and "smtp_step\<^sup>*\<^sup>* (s, a, g) (s', a', g')"
  shows "s_revoked s' \<and> s_identity s' = None \<and> only_records g g'"
proof -
  have inv: "session_inv (fst y) (fst (snd y))" if "smtp_step\<^sup>*\<^sup>* x y" "session_inv (fst x) (fst (snd x))" for x y :: "session \<times> bool \<times> 'a gateway"
    using that by (induction rule: rtranclp_induct) (auto intro: smtp_step_inv)
  have i: "session_inv s a"
    using inv [OF assms(1)] by (simp add: newSession_def session_inv_def)
  have "s_revoked (fst y) \<and> only_records g (snd (snd y))" if "smtp_step\<^sup>*\<^sup>* (s, a, g) y" for y
    using that
  proof (induction rule: rtranclp_induct)
    case base
    show ?case using assms(2) by simp
  next
    case (step y z)
    have "session_inv (fst y) (fst (snd y))" using inv [OF step(1)] i by simp
    from revoked_step [OF step(2) _ this] step(3) show ?case by (auto intro: only_records_trans)
  qed
  from this [OF assms(3)] inv [OF assms(3)] i show ?thesis by (auto simp: session_inv_def)
qed

text \<open>C24. A DATA command relays, if anything, exactly what was checked: the pipeline is given the
  recipients and the sender that the session accepted, the identity it was authenticated as
  after the credential was checked once more, and the client's message without its Bcc fields
  behind the trace header and the missing origination headers; the reply is the pipeline's.\<close>

theorem Data_relays_checked:
  "case Data B m tls tn sl rd s g of (s', g', r) \<Rightarrow> only_records g g' \<or>
    (\<exists>content msg hdr i i' g1 req res. s_identity s = Some i \<and> rd = ReadOK content \<and> tn \<and> sl \<and>
      parseMessage (sb_lib B) (stripBcc (x_unicode (c_externals (sb_cluster B))) content) = Inr (msg, hdr) \<and>
      checkCredential B m (s_from s) (s_rcpts s) s g = (s', g1, None) \<and> s_identity s' = Some i' \<and>
      Send (sb_cluster B) req g1 = (g', res) \<and> r = resultError res m \<and>
      rq_Identity req = i' \<and> Recipients (rq_Message req) = s_rcpts s \<and> rq_EnvelopeFrom req = s_from s \<and>
      ad_Address (ms_From (rq_Message req)) = ah_from hdr \<and> rq_Sender req = ah_sender hdr \<and>
      rq_Raw req = Some (receivedHeader (sb_Date B) (s_remoteIP s) m (id_AuthMethod i) tls @
        missingOriginationHeaders (sb_Date B) (fst msg) m (ah_from hdr) @
        stripBcc (x_unicode (c_externals (sb_cluster B))) content))"
proof -
  obtain s' g' r where D: "Data B m tls tn sl rd s g = (s', g', r)" by (cases "Data B m tls tn sl rd s g") auto
  show ?thesis
  proof (cases "only_records g g'")
    case False
    with Data_relay [OF D] obtain content msg hdr i i' g1 where
      d: "s_identity s = Some i" "rd = ReadOK content" "tn" "sl"
        "parseMessage (sb_lib B) (stripBcc (x_unicode (c_externals (sb_cluster B))) content) = Inr (msg, hdr)"
        "checkCredential B m (s_from s) (s_rcpts s) s g = (s', g1, None)" "s_identity s' = Some i'"
        "(g', r) = (\<lambda>(g2, res). (g2, resultError res m)) (Send (sb_cluster B)
          (smtpRequest B m tls s i (stripBcc (x_unicode (c_externals (sb_cluster B))) content) msg hdr i') g1)"
      by blast
    let ?req = "smtpRequest B m tls s i (stripBcc (x_unicode (c_externals (sb_cluster B))) content) msg hdr i'"
    obtain g2 res where "Send (sb_cluster B) ?req g1 = (g2, res)" by fastforce
    then have s: "Send (sb_cluster B) ?req g1 = (g', res)" "r = resultError res m" using d(8) by simp_all
    note q = smtpRequest_fields [of B m tls s i "stripBcc (x_unicode (c_externals (sb_cluster B))) content" msg hdr i']
    show ?thesis unfolding D prod.case
      by (rule disjI2, intro exI [of _ content] exI [of _ msg] exI [of _ hdr] exI [of _ i] exI [of _ i']
          exI [of _ g1] exI [of _ ?req] exI [of _ res] conjI d(1-7) s q)
  qed (simp add: D)
qed

text \<open>The SMTP reply to a result is right about retrying: success exactly for an accepted message, a
  4xx reply exactly for the results a retry can change (rate limit, unready backend, invalid
  policy, unavailable limiter, transient upstream failure), a 5xx reply for all others; the
  enhanced code has the same class and every refusal quotes the message ID.\<close>

theorem resultError_classes:
  "case resultError res m of
     None \<Rightarrow> re_Status res = StatusAccepted
   | Some e \<Rightarrow> re_Status res \<noteq> StatusAccepted \<and> fst (se_EnhancedCode e) = se_Code e div 100 \<and>
       (se_Code e div 100 = 4 \<longleftrightarrow> re_Status res \<in> {StatusRateLimited, StatusBackendNotReady, StatusPolicyInvalid,
          StatusUnavailable} \<or> re_Status res = StatusUpstreamError \<and> \<not> re_Permanent res) \<and>
       (se_Code e div 100 = 4 \<or> se_Code e div 100 = 5) \<and> suffix (''(id '' @ m @ '')'') (se_Message e)"
proof -
  have e: "se_Code (replyWithID m c enh msg) = c" "se_EnhancedCode (replyWithID m c enh msg) = enh"
      "suffix (''(id '' @ m @ '')'') (se_Message (replyWithID m c enh msg))" for c enh msg
    unfolding replyWithID_def smtpError_def by simp_all (rule suffixI [of _ "msg @ '' ''"], simp)
  show ?thesis
    by (cases "re_Status res"; cases "re_DenyReason res")
      (auto simp: resultError_def Let_def e simp del: append_Cons append.simps split: DenyReason.split)
qed

definition sample_smtp :: "unit smtp_backend" where
  "sample_smtp = \<lparr>sb_cluster = sample_cluster,
     sb_lib = \<lparr>ml_ReadMessage = (\<lambda>_. None), ml_AddressList = (\<lambda>_. None), ml_DecodeHeader = (\<lambda>_. None),
       ml_ParseMediaType = (\<lambda>_. None), ml_Parts = (\<lambda>_ _. ([], False)), ml_Decode = (\<lambda>_ _. None),
       ml_errorText = (\<lambda>_. ''malformed message''),
       ml_ErrAuthUnknownMechanism = smtpError 504 (5, 5, 4) ''Unsupported mechanism''\<rparr>,
     sb_Tokens = None, sb_Pods = None, sb_StillValid = (\<lambda>_. Inl ErrInvalid), sb_Date = [], sb_MaxLine = 2000\<rparr>"

theorem revoked_session_relays_nothing_witness:
  "\<exists>s g s' g'. smtp_step\<^sup>*\<^sup>* (newSession ''10.0.0.1'', False, sample_gateway) (s, True, g) \<and> s_revoked s \<and>
     smtp_step (s, True, g) (s', True, g') \<and> s_revoked s' \<and> only_records g g'"
proof -
  obtain s1 g1 where l: "credentialLogin [] [] (Inr sample_login) (newSession ''10.0.0.1'') sample_gateway = (s1, g1, None)"
      "s_cred s1 = Some sample_login" "\<not> s_revoked s1"
    by (simp add: credentialLogin_def Let_def newSession_def)
  have step1: "smtp_step (newSession ''10.0.0.1'', False, sample_gateway) (s1, True, g1)"
    using smtp_step.login [OF l(1)] by simp
  obtain s2 g2 r where m: "Mail sample_smtp [] [] s1 g1 = (s2, g2, r)" by (cases "Mail sample_smtp [] [] s1 g1") auto
  have rev: "s_revoked s2"
    using m l by (auto simp: Mail_def checkCredential_def sample_smtp_def)
  have step2: "smtp_step (s1, True, g1) (s2, True, g2)" using m by (rule smtp_step.mail)
  have run: "smtp_step\<^sup>*\<^sup>* (newSession ''10.0.0.1'', False, sample_gateway) (s2, True, g2)"
    using step1 step2 by (meson rtranclp.rtrancl_into_rtrancl rtranclp.rtrancl_refl)
  have step3: "smtp_step (s2, True, g2) (Reset s2, True, g2)" by (rule smtp_step.rset)
  from revoked_session_relays_nothing [OF run rev r_into_rtranclp [of smtp_step, OF step3]] run rev step3
  show ?thesis by blast
qed

end
