(* ===== verification/Driver_Encoding.thy ===== *)
theory Driver_Encoding
  imports Go_Encoding
begin

text \<open>
  The encoders of \<^verbatim>\<open>internal/driver/smtp/mime.go\<close>: quoted-printable bodies, base64 attachments in
  lines, folded header lines, RFC 2047 encoded-words and RFC 5987 file names, with the lines they
  produce and what a receiver decodes.
\<close>

section \<open>Lines\<close>

text \<open>\<^verbatim>\<open>strings.Split(s, "\r\n")\<close>.\<close>

function SplitCRLF :: "string \<Rightarrow> string list" where
  "SplitCRLF [] = [[]]"
| "SplitCRLF (c # s) = (if c = CR \<and> prefix [LF] s then [] # SplitCRLF (tl s)
     else (case SplitCRLF s of t # ts \<Rightarrow> (c # t) # ts | [] \<Rightarrow> [[c]]))"
  by pat_completeness auto
termination
  by (relation "measure length") auto

definition longestLine :: "string \<Rightarrow> nat" where
  "longestLine s = foldl (\<lambda>longest l. if length l > longest then length l else longest) 0 (SplitCRLF s)"

definition longestToken :: "string \<Rightarrow> nat" where
  "longestToken s = foldl (\<lambda>longest tok. if length tok > longest then length tok else longest) 0
     (Split s CHR '' '')"

lemma foldl_longest_le:
  "foldl (\<lambda>m l. if length l > m then length l else m) n ls \<le> k \<longleftrightarrow>
     n \<le> k \<and> list_all (\<lambda>l. length l \<le> k) ls"
proof (induction ls arbitrary: n)
  case (Cons l ls)
  show ?case unfolding foldl_Cons Cons.IH list.pred_inject by auto
qed simp

lemma longestLine_le: "longestLine s \<le> k \<longleftrightarrow> list_all (\<lambda>l. length l \<le> k) (SplitCRLF s)"
  by (simp add: longestLine_def foldl_longest_le)

lemma longestToken_le: "longestToken s \<le> k \<longleftrightarrow> list_all (\<lambda>l. length l \<le> k) (Split s CHR '' '')"
  by (simp add: longestToken_def foldl_longest_le)

lemma SplitCRLF_not_Nil [simp]: "SplitCRLF s \<noteq> []"
  by (cases s) (auto split: list.splits)

lemma SplitCRLF_hd_tl: "hd (SplitCRLF s) # tl (SplitCRLF s) = SplitCRLF s"
  by simp

lemma SplitCRLF_crlf: "SplitCRLF (CR # LF # s) = [] # SplitCRLF s"
  by simp

lemma SplitCRLF_append_crlf: "SplitCRLF (a @ CR # LF # b) = SplitCRLF a @ SplitCRLF b"
proof (induction a rule: SplitCRLF.induct)
  case (2 c s)
  have p: "prefix [LF] (s @ CR # LF # b) \<longleftrightarrow> prefix [LF] s" by (cases s) auto
  show ?case
  proof (cases "c = CR \<and> prefix [LF] s")
    case True
    then obtain t where "s = LF # t" by (cases s) auto
    then show ?thesis using 2(1) True by simp
  next
    case False
    then show ?thesis using 2(2) [OF False] p by (auto split: list.splits)
  qed
qed simp

lemma SplitCRLF_prefix:
  "CR \<notin> set a \<Longrightarrow> SplitCRLF (a @ b) = (a @ hd (SplitCRLF b)) # tl (SplitCRLF b)"
  by (induction a) auto

lemma SplitCRLF_id: "CR \<notin> set a \<Longrightarrow> SplitCRLF a = [a]"
  using SplitCRLF_prefix [of a "[]"] by simp

lemma Join_SplitCRLF: "Join (SplitCRLF s) crlf = s"
proof (induction s rule: SplitCRLF.induct)
  case (2 c s)
  show ?case
  proof (cases "c = CR \<and> prefix [LF] s")
    case True
    then obtain t where "s = LF # t" by (cases s) auto
    then show ?thesis using 2(1) True by (simp add: Join_Cons)
  next
    case False
    then show ?thesis using 2(2) [OF False]
      by (cases "SplitCRLF s"; cases "tl (SplitCRLF s)") auto
  qed
qed simp

section \<open>Quoted-printable bodies\<close>

definition upperhex :: string where "upperhex = ''0123456789ABCDEF''"

text \<open>\<^verbatim>\<open>%02X\<close> of a byte.\<close>

definition hex02 :: "char \<Rightarrow> string" where
  "hex02 c = [upperhex ! (byte c div 16), upperhex ! (byte c mod 16)]"

text \<open>The loop of \<^verbatim>\<open>writeQuotedPrintable\<close>: \<open>col\<close> is the column, the result what is written.\<close>

fun writeQP :: "nat \<Rightarrow> string \<Rightarrow> string" where
  "writeQP col [] = []"
| "writeQP col (c # s) =
     (if c = LF then CR # LF # writeQP 0 s
      else if c = CR then writeQP col s
      else let encoded = (if c = CHR ''='' \<or> byte c < 32 \<or> byte c > 126 then CHR ''='' # hex02 c else [c])
        in if col + length encoded > 76 - 1
           then CHR ''='' # CR # LF # encoded @ writeQP (length encoded) s
           else encoded @ writeQP (col + length encoded) s)"

definition writeQuotedPrintable :: "string \<Rightarrow> string" where
  "writeQuotedPrintable s = writeQP 0 s"

text \<open>A receiver's decoder: \<^verbatim>\<open>=\<close> and two hexadecimal digits is a byte, \<^verbatim>\<open>=\<close> before a line break is nothing.\<close>

function decodeQP :: "string \<Rightarrow> string option" where
  "decodeQP [] = Some []"
| "decodeQP (c # s) = (if c = CHR ''='' then
     (case s of a # b # t \<Rightarrow>
        if a = CR \<and> b = LF then decodeQP t
        else (case (hexValue a, hexValue b) of
          (Some x, Some y) \<Rightarrow> map_option ((#) (char_of (16 * x + y))) (decodeQP t) | _ \<Rightarrow> None)
      | _ \<Rightarrow> None)
     else map_option ((#) c) (decodeQP s))"
  by pat_completeness auto
termination
  by (relation "measure length") auto

text \<open>The text in the line breaks of the wire: each \<^verbatim>\<open>\n\<close> is a CRLF, \<^verbatim>\<open>\r\<close> is dropped.\<close>

definition wireText :: "string \<Rightarrow> string" where
  "wireText s = concat (map (\<lambda>c. if c = LF then crlf else if c = CR then [] else [c]) s)"

lemma upperhex_digit: "n < 16 \<Longrightarrow> hexValue (upperhex ! n) = Some n \<and> upperhex ! n \<notin> {CR, LF, CHR '' ''}
    \<and> 32 < byte (upperhex ! n) \<and> byte (upperhex ! n) < 127"
proof -
  assume "n < 16"
  then have "n \<in> {0,1,2,3,4,5,6,7,8,9,10,11,12,13,14,15}"
    by (simp add: eval_nat_numeral less_Suc_eq)
  then show ?thesis by (elim insertE) (simp_all add: hexValue_def upperhex_def go_defs)
qed

lemma byte_halves: "byte c div 16 < 16" "byte c mod 16 < 16"
  using byte_less_256 [of c] by (simp_all add: div_less_iff_less_mult)

lemmas hex02_digits = upperhex_digit [OF byte_halves(1)] upperhex_digit [OF byte_halves(2)]

lemma hex02_no_CR: "CR \<notin> set (hex02 c)" "LF \<notin> set (hex02 c)" "CHR '' '' \<notin> set (hex02 c)"
  using hex02_digits [of c] by (auto simp: hex02_def)

lemma length_hex02 [simp]: "length (hex02 c) = 2"
  by (simp add: hex02_def)

lemma decodeQP_hex: "decodeQP (CHR ''='' # hex02 c @ s) = map_option ((#) c) (decodeQP s)"
  using hex02_digits [of c] by (simp add: hex02_def)

declare decodeQP.simps(2) [simp del]

lemma decodeQP_soft: "decodeQP (CHR ''='' # CR # LF # s) = decodeQP s"
  by (simp add: decodeQP.simps)

lemma decodeQP_plain: "c \<noteq> CHR ''='' \<Longrightarrow> decodeQP (c # s) = map_option ((#) c) (decodeQP s)"
  by (simp add: decodeQP.simps)

lemma decode_writeQP: "decodeQP (writeQP col s) = Some (wireText s)"
proof (induction col s rule: writeQP.induct)
  case (2 col c s)
  show ?case
  proof (cases "c = LF \<or> c = CR")
    case True
    then show ?thesis using 2(1,2) by (auto simp: decodeQP_plain wireText_def)
  next
    case False
    then show ?thesis using 2(3,4)
      by (auto simp: decodeQP_plain decodeQP_soft decodeQP_hex wireText_def Let_def)
  qed
qed (simp add: wireText_def)

lemma writeQP_lines:
  "col \<le> 75 \<Longrightarrow> col + length (hd (SplitCRLF (writeQP col s))) \<le> 76 \<and>
     list_all (\<lambda>l. length l \<le> 76) (tl (SplitCRLF (writeQP col s)))"
proof (induction col s rule: writeQP.induct)
  case (2 col c s)
  let ?e = "if c = CHR ''='' \<or> byte c < 32 \<or> byte c > 126 then CHR ''='' # hex02 c else [c]"
  have all: "list_all (\<lambda>l. length l \<le> 76) (SplitCRLF r)"
    if "length (hd (SplitCRLF r)) \<le> 76 \<and> list_all (\<lambda>l. length l \<le> 76) (tl (SplitCRLF r))" for r
    using that by (metis SplitCRLF_hd_tl list.pred_inject(2))
  consider "c = LF" | "c = CR" | "c \<noteq> LF" "c \<noteq> CR" by blast
  then show ?case
  proof cases
    case 1
    then show ?thesis using 2 all [of "writeQP 0 s"] by (simp add: SplitCRLF_crlf)
  next
    case 2
    then show ?thesis using "2.IH"(2) "2.prems" by simp
  next
    case 3
    have e: "CR \<notin> set ?e" "length ?e \<le> 3" using 3 hex02_no_CR [of c] by auto
    have eq: "SplitCRLF (CHR ''='' # CR # LF # ?e @ r) = ''='' # SplitCRLF (?e @ r)" for r
      using SplitCRLF_append_crlf [of "''=''" "?e @ r"] by simp
    show ?thesis
    proof (cases "col + length ?e > 75")
      case True
      have "length ?e + length (hd (SplitCRLF (writeQP (length ?e) s))) \<le> 76 \<and>
          list_all (\<lambda>l. length l \<le> 76) (tl (SplitCRLF (writeQP (length ?e) s)))"
        using "2.IH"(3) [OF 3 refl] True e(2) by simp
      then show ?thesis using 3 True "2.prems" SplitCRLF_prefix [OF e(1), of "writeQP (length ?e) s"]
        by (simp only: writeQP.simps Let_def if_True if_False refl eq) simp
    next
      case False
      have "col + length ?e + length (hd (SplitCRLF (writeQP (col + length ?e) s))) \<le> 76 \<and>
          list_all (\<lambda>l. length l \<le> 76) (tl (SplitCRLF (writeQP (col + length ?e) s)))"
        using "2.IH"(4) [OF 3 refl] False by simp
      then show ?thesis using 3 False SplitCRLF_prefix [OF e(1), of "writeQP (col + length ?e) s"]
        by (simp only: writeQP.simps Let_def if_True if_False refl) simp
    qed
  qed
qed simp

text \<open>A quoted-printable body decodes to the text it was made from, with every line break a CRLF,
  and none of its lines is longer than 76 characters.
\<close>

theorem quoted_printable_roundtrip:
  "decodeQP (writeQuotedPrintable s) = Some (wireText s) \<and> longestLine (writeQuotedPrintable s) \<le> 76"
proof -
  have "list_all (\<lambda>l. length l \<le> 76) (SplitCRLF (writeQuotedPrintable s))"
    using writeQP_lines [of 0 s] unfolding writeQuotedPrintable_def
    by (metis SplitCRLF_hd_tl add_0 le0 list.pred_inject(2))
  then show ?thesis by (simp add: longestLine_le decode_writeQP writeQuotedPrintable_def)
qed

section \<open>Base64 attachments\<close>

text \<open>
  One \<^verbatim>\<open>Write\<close> of \<^verbatim>\<open>lineBreakWriter\<close>, with \<^verbatim>\<open>every\<close> at the 76 it is made with.  The method has a value
  receiver: the column it counts is not kept between two writes, which all start at \<^verbatim>\<open>col = 0\<close>.
\<close>

function lineBreakWrite :: "nat \<Rightarrow> string \<Rightarrow> string" where
  "lineBreakWrite col p = (if p = [] then []
     else if 76 \<le> col then CR # LF # take 76 p @ lineBreakWrite (min 76 (length p)) (drop 76 p)
     else take (76 - col) p @ lineBreakWrite (col + min (76 - col) (length p)) (drop (76 - col) p))"
  by pat_completeness auto
termination
  by (relation "measure (length \<circ> snd)") (auto simp flip: length_greater_0_conv)

declare lineBreakWrite.simps [simp del]

text \<open>
  The writes \<^verbatim>\<open>base64.NewEncoder\<close> makes for one \<^verbatim>\<open>Write\<close> and \<^verbatim>\<open>Close\<close>: whole groups of three bytes,
  768 bytes at most per write, and the remaining bytes on \<^verbatim>\<open>Close\<close>.
\<close>

function encoderWrites :: "bytes \<Rightarrow> string list" where
  "encoderWrites b =
     (if length b \<ge> 3 then
        let n = (if 768 > length b then length b - length b mod 3 else 768)
        in encode64 stdAlphabet ''='' (take n b) # encoderWrites (drop n b)
      else if b = [] then [] else [encode64 stdAlphabet ''='' b])"
  by pat_completeness auto
termination
proof (relation "measure length")
  fix b :: bytes and n
  assume "3 \<le> length b" "n = (if length b < 768 then length b - length b mod 3 else 768)"
  moreover have "length b mod 3 < 3" by simp
  ultimately have "0 < n" by (auto split: if_splits)
  then show "(drop n b, b) \<in> measure length" using \<open>3 \<le> length b\<close> by simp
qed simp

declare encoderWrites.simps [simp del]

definition attachmentBody :: "bytes \<Rightarrow> string" where
  "attachmentBody content = concat (map (lineBreakWrite 0) (encoderWrites content))"

abbreviation unbroken :: "string \<Rightarrow> string" where
  "unbroken s \<equiv> filter (\<lambda>c. c \<noteq> CR \<and> c \<noteq> LF) s"

lemma alphabet64_nth: "alphabet64 al \<Longrightarrow> v < 64 \<Longrightarrow> al ! v \<in> set al"
  by (simp add: alphabet64_def)

lemma set_encode64: "alphabet64 al \<Longrightarrow> set (encode64 al pad b) \<subseteq> set al \<union> set pad"
  by (induction al pad b rule: encode64.induct) (auto intro!: alphabet64_nth byte_bounds)

lemma encode64_std_plain: "c \<in> set (encode64 stdAlphabet ''='' b) \<Longrightarrow> 32 < byte c \<and> byte c < 127"
proof -
  assume "c \<in> set (encode64 stdAlphabet ''='' b)"
  then have "c \<in> set (stdAlphabet @ ''='')" using set_encode64 [OF alphabet64_std] by fastforce
  moreover have "list_all (\<lambda>c. 32 < byte c \<and> byte c < 127) (stdAlphabet @ ''='')"
    by (simp add: stdAlphabet_def)
  ultimately show ?thesis unfolding list_all_iff by blast
qed

lemma plain_no_break:
  assumes "\<And>c. c \<in> set s \<Longrightarrow> 32 < byte c \<and> byte c < 127"
  shows "CR \<notin> set s" "LF \<notin> set s" "CHR '' '' \<notin> set s"
  using assms [of CR] assms [of LF] assms [of "CHR '' ''"] by auto

lemma encode64_std_no_break:
  "CR \<notin> set (encode64 stdAlphabet ''='' b)" "LF \<notin> set (encode64 stdAlphabet ''='' b)"
  "CHR '' '' \<notin> set (encode64 stdAlphabet ''='' b)"
  using plain_no_break [of "encode64 stdAlphabet ''='' b"] encode64_std_plain by blast+

lemma encode64_append:
  "3 dvd length a \<Longrightarrow> encode64 al pad (a @ b) = encode64 al pad a @ encode64 al pad b"
proof (induction al pad a rule: encode64.induct)
  case (4 al pad x y z s)
  then have "3 dvd length s" by (simp, presburger)
  then show ?case using 4 by simp
qed (auto dest: dvd_imp_le)

lemma length_encode64_std: "length (encode64 al ''='' b) = (length b + 2) div 3 * 4"
proof (induction al "''='' :: string" b rule: encode64.induct)
  case (4 al a b c s)
  have "(length (a # b # c # s) + 2) div 3 = Suc ((length s + 2) div 3)" by simp
  then show ?case using 4 by simp
qed auto

lemma concat_replicate_single: "concat (replicate n [c]) = replicate n c"
  by (induction n) auto

lemma mod3_Suc3: "Suc (Suc (Suc n)) mod 3 = n mod 3"
  by presburger

lemma encode64_pads:
  "encode64 al pad b = encode64 al [] b @ concat (replicate ((3 - length b mod 3) mod 3) pad)"
proof (induction al pad b rule: encode64.induct)
  case (4 al pad a b c s)
  have m: "length (a # b # c # s) mod 3 = length s mod 3" by (simp add: mod3_Suc3)
  show ?case unfolding m encode64.simps append.assoc 4 ..
qed (simp_all add: numeral_2_eq_2)

lemma encode64_pad:
  "encode64 al ''='' b = encode64 al [] b @ replicate ((3 - length b mod 3) mod 3) CHR ''=''"
  using encode64_pads [of al "''=''" b] by (simp add: concat_replicate_single)

lemma decode_encode_std64:
  assumes "alphabet64 al"
  shows "decodeStd64 al (encode64 al ''='' b) = Some b"
proof -
  let ?r = "encode64 al [] b" and ?p = "replicate ((3 - length b mod 3) mod 3) CHR ''=''"
  have r: "c \<noteq> CHR ''='' \<and> c \<noteq> CR \<and> c \<noteq> LF" if "c \<in> set ?r" for c
    using that assms set_encode64 [OF assms, of "[]" b] by (auto simp: alphabet64_def)
  have f: "unbroken (?r @ ?p) = ?r @ ?p" using r by (intro filter_True) auto
  have t: "takeWhile (\<lambda>c. c \<noteq> CHR ''='') (?r @ ?p) = ?r" "dropWhile (\<lambda>c. c \<noteq> CHR ''='') (?r @ ?p) = ?p"
    using r by (simp_all add: takeWhile_append dropWhile_append)
  have l: "length ?r mod 4 = 0 \<and> ?p = [] \<or> length ?r mod 4 = 2 \<and> ?p = ''=='' \<or> length ?r mod 4 = 3 \<and> ?p = ''=''"
  proof -
    have "\<exists>k. length b = 3 * k \<or> length b = 3 * k + 1 \<or> length b = 3 * k + 2" by presburger
    then consider k where "length b = 3 * k" | k where "length b = 3 * k + 1" | k where "length b = 3 * k + 2"
      by blast
    then show ?thesis
    proof cases
      case (2 k)
      then have "length ?r = 4 * k + 2" by (simp add: length_encode_raw64)
      moreover have "(4 * k + 2) mod 4 = 2" by presburger
      ultimately show ?thesis using 2 by (simp add: numeral_2_eq_2)
    next
      case (3 k)
      then have "length ?r = 4 * k + 3" by (simp add: length_encode_raw64)
      then have "length ?r mod 4 = 3" by presburger
      moreover have "length b mod 3 = 2" using 3 by presburger
      ultimately show ?thesis by simp
    next
      case (1 k)
      then have "length ?r = 4 * k" unfolding length_encode_raw64 by presburger
      then show ?thesis using 1 by simp
    qed
  qed
  show ?thesis unfolding decodeStd64_def encode64_pad Let_def f t using l decode_encode_raw64 [OF assms]
    by simp
qed

lemma concat_encoderWrites: "concat (encoderWrites b) = encode64 stdAlphabet ''='' b"
proof (induction b rule: encoderWrites.induct)
  case (1 b)
  show ?case
  proof (cases "length b \<ge> 3")
    case True
    define n where "n = (if 768 > length b then length b - length b mod 3 else 768)"
    have d: "3 dvd n" by (auto simp: n_def dvd_minus_mod)
    moreover have "n \<le> length b" by (simp add: n_def)
    ultimately have "3 dvd length (take n b)" by simp
    from encode64_append [OF this, of stdAlphabet "''=''" "drop n b"]
    show ?thesis using 1 [OF True n_def] True
      by (subst encoderWrites.simps) (simp add: n_def [symmetric])
  qed (simp add: encoderWrites.simps)
qed

lemma unbroken_lineBreakWrite: "unbroken (lineBreakWrite col p) = unbroken p"
proof (induction col p rule: lineBreakWrite.induct)
  case (1 col p)
  have split: "unbroken (take n p) @ unbroken (drop n p) = unbroken p" for n
    by (metis append_take_drop_id filter_append)
  show ?case
  proof (cases "p = [] \<or> 76 \<le> col")
    case True
    then show ?thesis using 1(1) split [of 76] by (subst lineBreakWrite.simps) auto
  next
    case False
    then show ?thesis using 1(2) split [of "76 - col"] by (subst lineBreakWrite.simps) auto
  qed
qed

lemma lineBreakWrite_lines:
  assumes "CR \<notin> set p" "col \<le> 76"
  shows "col + length (hd (SplitCRLF (lineBreakWrite col p))) \<le> 76 \<and>
     list_all (\<lambda>l. length l \<le> 76) (tl (SplitCRLF (lineBreakWrite col p))) \<and>
     (length p > 76 \<longrightarrow> tl (SplitCRLF (lineBreakWrite col p)) \<noteq> [])"
  using assms
proof (induction col p rule: lineBreakWrite.induct)
  case (1 col p)
  have no: "CR \<notin> set (take n p)" "CR \<notin> set (drop n p)" for n
    using 1(3) by (auto dest: in_set_takeD in_set_dropD)
  show ?case
  proof (cases "p = [] \<or> 76 \<le> col")
    case True
    show ?thesis
    proof (cases "p = []")
      case True
      then show ?thesis using 1(4) by (simp add: lineBreakWrite.simps)
    next
      case False
      let ?r = "lineBreakWrite (min 76 (length p)) (drop 76 p)"
      have eq: "lineBreakWrite col p = CR # LF # take 76 p @ ?r"
        using True False by (subst lineBreakWrite.simps) simp
      show ?thesis using 1(1) no True False 1(4) unfolding eq SplitCRLF_crlf SplitCRLF_prefix [OF no(1)]
        by auto
    qed
  next
    case False
    let ?r = "lineBreakWrite (col + min (76 - col) (length p)) (drop (76 - col) p)"
    have eq: "lineBreakWrite col p = take (76 - col) p @ ?r"
      using False by (subst lineBreakWrite.simps) simp
    have r: "tl (SplitCRLF ?r) \<noteq> []" if "length p > 76"
    proof -
      have "?r = CR # LF # take 76 (drop (76 - col) p)
          @ lineBreakWrite (min 76 (length (drop (76 - col) p))) (drop 76 (drop (76 - col) p))"
        using that False by (subst lineBreakWrite.simps) simp
      then show ?thesis by (simp add: SplitCRLF_crlf)
    qed
    have c: "col + min (length p) (76 - col) \<le> 76" using False by linarith
    show ?thesis using 1(2) no False r c unfolding eq SplitCRLF_prefix [OF no(1)]
      by (auto simp: min.commute [of _ "length p"])
  qed
qed

lemma SplitCRLF_append:
  "\<not> prefix [LF] y \<Longrightarrow> SplitCRLF (x @ y) =
     butlast (SplitCRLF x) @ (last (SplitCRLF x) @ hd (SplitCRLF y)) # tl (SplitCRLF y)"
proof (induction x rule: SplitCRLF.induct)
  case (2 c s)
  have p: "prefix [LF] (s @ y) \<longleftrightarrow> prefix [LF] s" using 2(3) by (cases s) auto
  show ?case
  proof (cases "c = CR \<and> prefix [LF] s")
    case True
    then obtain t where "s = LF # t" by (cases s) auto
    then show ?thesis using 2(1) 2(3) True by simp
  next
    case False
    then show ?thesis using 2(2) [OF False 2(3)] p
      by (cases "SplitCRLF s"; cases "tl (SplitCRLF s)") (auto split: list.splits)
  qed
qed simp

lemma lineBreakWrite_take: "p \<noteq> [] \<Longrightarrow> \<exists>r. lineBreakWrite 0 p = take 76 p @ r"
  by (subst lineBreakWrite.simps) auto

lemma encode64_not_Nil: "b \<noteq> [] \<Longrightarrow> encode64 al pad b \<noteq> []"
  by (cases "(al, pad, b)" rule: encode64.cases) auto

lemma lineBreakWrite_hd: "p \<noteq> [] \<Longrightarrow> LF \<notin> set p \<Longrightarrow> \<not> prefix [LF] (lineBreakWrite 0 p @ r)"
  using lineBreakWrite_take [of p] by (cases p) auto

lemma lineBreakWrite_Nil [simp]: "lineBreakWrite col [] = []"
  by (simp add: lineBreakWrite.simps)

lemma attachmentBody_short:
  "length b < 3 \<Longrightarrow> attachmentBody b = encode64 stdAlphabet ''='' b \<and> length (encode64 stdAlphabet ''='' b) \<le> 4"
proof -
  assume b: "length b < 3"
  have l: "length (encode64 stdAlphabet ''='' b) \<le> 4" using b by (auto simp: length_encode64_std)
  have "lineBreakWrite 0 p = p" if "length p \<le> 4" for p
    using that by (subst lineBreakWrite.simps) simp
  then show ?thesis using b l
    by (cases "b = []") (simp_all add: attachmentBody_def encoderWrites.simps [of b] encoderWrites.simps [of "[]"])
qed

lemma attachmentBody_step:
  assumes "length b \<ge> 3"
  obtains n p where "0 < n" "n \<le> length b" "p = encode64 stdAlphabet ''='' (take n b)"
    "attachmentBody b = lineBreakWrite 0 p @ attachmentBody (drop n b)"
    "n = 768 \<or> length (drop n b) < 3"
proof -
  define n where "n = (if 768 > length b then length b - length b mod 3 else 768)"
  have m: "length b mod 3 < 3" "length b mod 3 \<le> length b" by simp_all
  show thesis
  proof (rule that)
    show "0 < n" "n \<le> length b" "n = 768 \<or> length (drop n b) < 3"
      using assms m unfolding n_def by (auto simp del: mod_less_divisor)
    show "attachmentBody b =
        lineBreakWrite 0 (encode64 stdAlphabet ''='' (take n b)) @ attachmentBody (drop n b)"
      unfolding attachmentBody_def using assms
      by (subst encoderWrites.simps) (simp add: n_def [symmetric])
  qed simp
qed

lemma attachmentBody_start: "\<not> prefix [LF] (attachmentBody b)"
proof (cases "length b < 3")
  case True
  then show ?thesis using attachmentBody_short [of b] encode64_std_no_break(2) [of b]
    by (auto simp: prefix_def)
next
  case False
  then obtain n p where "0 < n" "n \<le> length b" "p = encode64 stdAlphabet ''='' (take n b)"
    "attachmentBody b = lineBreakWrite 0 p @ attachmentBody (drop n b)"
    using attachmentBody_step [of b thesis] by (metis not_less)
  then show ?thesis
    using lineBreakWrite_hd [of p] encode64_std_no_break(2) [of "take n b"]
      encode64_not_Nil [of "take n b"] False by fastforce
qed

text \<open>Two writes share at most one line; only the last one can be short.\<close>

lemma attachmentBody_lines:
  "length (hd (SplitCRLF (attachmentBody b))) \<le> 80 \<and> list_all (\<lambda>l. length l \<le> 156) (SplitCRLF (attachmentBody b))"
proof (induction "length b" arbitrary: b rule: less_induct)
  case less
  show ?case
  proof (cases "length b < 3")
    case True
    then have "length (encode64 stdAlphabet ''='' b) \<le> 4" using attachmentBody_short [of b] by simp
    then show ?thesis using attachmentBody_short [OF True] encode64_std_no_break(1) [of b]
      by (simp add: SplitCRLF_id)
  next
    case False
    then obtain n p where n: "0 < n" "n \<le> length b" "p = encode64 stdAlphabet ''='' (take n b)"
      "attachmentBody b = lineBreakWrite 0 p @ attachmentBody (drop n b)" "n = 768 \<or> length (drop n b) < 3"
      using attachmentBody_step [of b thesis] by (metis not_less)
    let ?x = "SplitCRLF (lineBreakWrite 0 p)" and ?y = "SplitCRLF (attachmentBody (drop n b))"
    have x: "length (hd ?x) \<le> 76 \<and> list_all (\<lambda>l. length l \<le> 76) (tl ?x) \<and> (length p > 76 \<longrightarrow> tl ?x \<noteq> [])"
      using lineBreakWrite_lines [of p 0] encode64_std_no_break(1) n(3) by simp
    then have lx: "list_all (\<lambda>l. length l \<le> 76) ?x" by (metis SplitCRLF_hd_tl list.pred_inject(2))
    have "length (drop n b) < length b" using n(1,2) by simp
    from less(1) [OF this] have y: "length (hd ?y) \<le> 80" "list_all (\<lambda>l. length l \<le> 156) ?y" by auto
    have last: "length (last ?x) \<le> 76" using lx by (simp add: list_all_iff)
    have bl: "list_all (\<lambda>l. length l \<le> 156) (butlast ?x)" "list_all (\<lambda>l. length l \<le> 156) (tl ?y)"
      using lx y(2) by (auto simp: list_all_iff dest!: in_set_butlastD list.set_sel(2) [rotated])
    have eq: "SplitCRLF (attachmentBody b) = butlast ?x @ (last ?x @ hd ?y) # tl ?y"
      unfolding n(4) by (rule SplitCRLF_append [OF attachmentBody_start])
    have hd: "length (hd (butlast ?x @ (last ?x @ hd ?y) # tl ?y)) \<le> 80"
    proof (cases "tl ?x = []")
      case True
      then have "length p \<le> 76" using x by linarith
      then have "n \<noteq> 768" using n(2,3) by (auto simp: length_encode64_std)
      then have "length (hd ?y) \<le> 4"
        using n(5) attachmentBody_short [of "drop n b"] encode64_std_no_break(1) [of "drop n b"]
        by (simp add: SplitCRLF_id)
      moreover have "butlast ?x = []" "last ?x = hd ?x"
        using True SplitCRLF_hd_tl by (metis butlast.simps(2), metis last_ConsL)
      ultimately show ?thesis using x by simp
    next
      case False
      then have "hd (butlast ?x @ (last ?x @ hd ?y) # tl ?y) = hd ?x"
        by (cases ?x; cases "tl ?x") auto
      then show ?thesis using x by simp
    qed
    show ?thesis unfolding eq using hd bl last y(1) by simp
  qed
qed

text \<open>The base64 body of an attachment decodes to the attachment's bytes, and none of its lines
  reaches the 998 characters a mail server must accept.
\<close>

theorem attachment_roundtrip:
  "decodeStd64 stdAlphabet (attachmentBody content) = Some content \<and> longestLine (attachmentBody content) \<le> 156"
proof -
  have "unbroken (attachmentBody content) = unbroken (concat (encoderWrites content))"
    by (simp add: attachmentBody_def filter_concat comp_def unbroken_lineBreakWrite)
  then have "decodeStd64 stdAlphabet (attachmentBody content) = decodeStd64 stdAlphabet (concat (encoderWrites content))"
    by (simp add: decodeStd64_def)
  then show ?thesis
    by (simp add: concat_encoderWrites decode_encode_std64 alphabet64_std longestLine_le attachmentBody_lines)
qed

lemma lineBreakWrite_more:
  "length p > 76 \<Longrightarrow> lineBreakWrite 0 p = take 76 p @ CR # LF # lineBreakWrite 0 (drop 76 p)"
proof -
  assume p: "length p > 76"
  have "lineBreakWrite 76 q = CR # LF # lineBreakWrite 0 q" if "q \<noteq> []" for q
    using that lineBreakWrite.simps [of 76 q] lineBreakWrite.simps [of 0 q] by simp
  moreover have "p \<noteq> []" "drop 76 p \<noteq> []" using p by auto
  ultimately show ?thesis using p by (subst lineBreakWrite.simps) (simp add: min_def)
qed

lemma lineBreakWrite_last:
  assumes "CR \<notin> set p" "length p = 76 * k + r" "0 < r" "r \<le> 76"
  shows "length (last (SplitCRLF (lineBreakWrite 0 p))) = r"
  using assms
proof (induction k arbitrary: p)
  case 0
  then have "lineBreakWrite 0 p = p" by (subst lineBreakWrite.simps) simp
  then show ?case using 0 by (simp add: SplitCRLF_id)
next
  case (Suc k)
  have "CR \<notin> set (drop 76 p)" using Suc(2) by (auto dest: in_set_dropD)
  then have "length (last (SplitCRLF (lineBreakWrite 0 (drop 76 p)))) = r" using Suc by simp
  then show ?case using Suc(3,4) lineBreakWrite_more [of p] by (simp add: SplitCRLF_append_crlf)
qed

lemma attachmentBody_first:
  assumes "57 \<le> length b"
  shows "76 \<le> length (hd (SplitCRLF (attachmentBody b)))"
proof -
  obtain n p where n: "0 < n" "n \<le> length b" "p = encode64 stdAlphabet ''='' (take n b)"
    "attachmentBody b = lineBreakWrite 0 p @ attachmentBody (drop n b)" "n = 768 \<or> length (drop n b) < 3"
    using attachmentBody_step [of b thesis] assms by auto
  have l: "76 \<le> length p" using n(2,3,5) assms by (auto simp: length_encode64_std)
  then obtain r where "lineBreakWrite 0 p = take 76 p @ r" using lineBreakWrite_take [of p] by force
  moreover have "CR \<notin> set (take 76 p)" using encode64_std_no_break(1) n(3) by (auto dest: in_set_takeD)
  ultimately show ?thesis using n(4) l by (simp add: SplitCRLF_prefix)
qed

text \<open>C40. \<^verbatim>\<open>lineBreakWriter\<close> is to keep base64 lines at 76 characters, but forgets its column between the
  encoder's writes: every attachment of 825 bytes or more has a line of at least 112.
\<close>

theorem attachment_line_too_long:
  assumes "825 \<le> length content"
  shows "112 \<le> longestLine (attachmentBody content)"
proof -
  let ?c = "drop 768 content" and ?p = "encode64 stdAlphabet ''='' (take 768 content)"
  let ?x = "SplitCRLF (lineBreakWrite 0 ?p)" and ?y = "SplitCRLF (attachmentBody ?c)"
  have eq: "attachmentBody content = lineBreakWrite 0 ?p @ attachmentBody ?c"
    unfolding attachmentBody_def using assms by (subst encoderWrites.simps) simp
  have "length ?p = 76 * 13 + 36" using assms by (simp add: length_encode64_std)
  then have "length (last ?x) = 36" by (rule lineBreakWrite_last [OF encode64_std_no_break(1)]) simp_all
  moreover have "76 \<le> length (hd ?y)" using attachmentBody_first [of ?c] assms by simp
  moreover have "last ?x @ hd ?y \<in> set (SplitCRLF (attachmentBody content))"
    unfolding eq SplitCRLF_append [OF attachmentBody_start] by simp
  ultimately have "\<not> list_all (\<lambda>l. length l \<le> 111) (SplitCRLF (attachmentBody content))"
    by (force simp: list_all_iff)
  then show ?thesis using longestLine_le [of "attachmentBody content" 111] by linarith
qed

theorem attachment_line_too_long_witness:
  "112 \<le> longestLine (attachmentBody (replicate 825 CHR ''A''))"
  by (rule attachment_line_too_long) (simp only: length_replicate order_refl)

section \<open>Header lines\<close>

definition foldHeaderMax :: nat where "foldHeaderMax = 78"

text \<open>The loop of \<^verbatim>\<open>foldHeaderLine\<close> after the first token: \<open>cur\<close> is the line being built.\<close>

fun foldTokens :: "string \<Rightarrow> string list \<Rightarrow> string" where
  "foldTokens cur [] = cur @ crlf"
| "foldTokens cur (tok # ts) =
     (if length cur + 1 + length tok > foldHeaderMax then cur @ crlf @ foldTokens (CHR '' '' # tok) ts
      else foldTokens (cur @ CHR '' '' # tok) ts)"

definition foldHeaderLine :: "string \<Rightarrow> string \<Rightarrow> string" where
  "foldHeaderLine key val =
     (let toks = Split val CHR '' '' in foldTokens (key @ '':'' @ CHR '' '' # hd toks) (tl toks))"

text \<open>A receiver unfolds: a line that begins with a space continues the one before.\<close>

fun unfoldLines :: "string list \<Rightarrow> string list" where
  "unfoldLines [] = []"
| "unfoldLines (l # ls) = (case unfoldLines ls of
     [] \<Rightarrow> [l] | f # fs \<Rightarrow> if prefix '' '' f then (l @ f) # fs else l # f # fs)"

lemma SplitCRLF_line: "CR \<notin> set cur \<Longrightarrow> SplitCRLF (cur @ CR # LF # r) = cur # SplitCRLF r"
  using SplitCRLF_append_crlf [of cur r] by (simp add: SplitCRLF_id)

lemma foldTokens_lines:
  assumes "CR \<notin> set cur" "list_all (\<lambda>t. CR \<notin> set t) ts"
  shows "unfoldLines (SplitCRLF (foldTokens cur ts)) = [cur @ concat (map ((#) CHR '' '') ts), []]"
    "length cur \<le> k \<Longrightarrow> 78 \<le> k \<Longrightarrow> list_all (\<lambda>t. length t < k) ts \<Longrightarrow>
       list_all (\<lambda>l. length l \<le> k) (SplitCRLF (foldTokens cur ts))"
  using assms
proof (induction cur ts rule: foldTokens.induct)
  case (1 cur)
  { case 1 then show ?case by (simp add: SplitCRLF_line) }
  { case 2 then show ?case by (simp add: SplitCRLF_line) }
next
  case (2 cur tok ts)
  note IH = "2.IH"
  { case 1
    then show ?case using IH(1) IH(3) by (simp add: SplitCRLF_line) }
  { case 2
    then show ?case using IH(2) IH(4) by (simp add: SplitCRLF_line foldHeaderMax_def) }
qed

lemma Split_concat: "hd (Split v c) @ concat (map ((#) c) (tl (Split v c))) = v"
proof -
  have "Join (t # ts) [c] = t @ concat (map ((#) c) ts)" for t ts
  proof (induction ts arbitrary: t)
    case (Cons u ts)
    have "Join (t # u # ts) [c] = t @ c # Join (u # ts) [c]" by simp
    then show ?case by (simp only: Cons.IH) simp
  qed simp
  from this [of "hd (Split v c)" "tl (Split v c)"] show ?thesis by simp
qed

text \<open>A folded header line unfolds to the field name, a colon and the value, unchanged, and its
  lines are at most 78 characters long unless a single word does not fit.
\<close>

theorem foldHeaderLine_unfolds:
  assumes "CR \<notin> set key" "CR \<notin> set val"
  shows "unfoldLines (SplitCRLF (foldHeaderLine key val)) = [key @ '': '' @ val, []] \<and>
    longestLine (foldHeaderLine key val) \<le> max 78 (length key + 2 + longestToken val)"
proof -
  let ?t = "Split val CHR '' ''" and ?k = "max 78 (length key + 2 + longestToken val)"
  have no: "list_all (\<lambda>t. CR \<notin> set t) ?t"
    using assms(2) set_Split_subset by (fastforce simp: list_all_iff)
  have len: "list_all (\<lambda>t. length t \<le> longestToken val) ?t" using longestToken_le by blast
  then have tl: "list_all (\<lambda>t. length t < ?k) (tl ?t)" and hd: "length (hd ?t) \<le> longestToken val"
    by (cases ?t; force simp: list_all_iff)+
  have cur: "CR \<notin> set (key @ '':'' @ CHR '' '' # hd ?t)" "list_all (\<lambda>t. CR \<notin> set t) (tl ?t)"
    using assms(1) no by (cases ?t; force)+
  have "unfoldLines (SplitCRLF (foldHeaderLine key val)) = [key @ '': '' @ val, []]"
    using foldTokens_lines(1) [OF cur] Split_concat [of val "CHR '' ''"]
    by (simp add: foldHeaderLine_def Let_def)
  moreover have "list_all (\<lambda>l. length l \<le> ?k) (SplitCRLF (foldHeaderLine key val))"
    unfolding foldHeaderLine_def Let_def using hd by (intro foldTokens_lines(2) cur tl) auto
  ultimately show ?thesis by (simp only: longestLine_le)
qed

theorem foldHeaderLine_unfolds_witness:
  "unfoldLines (SplitCRLF (foldHeaderLine ''Subject'' ''good news'')) = [''Subject: good news'', []]"
  using foldHeaderLine_unfolds [of "''Subject''" "''good news''"] by simp

section \<open>File names\<close>

definition isASCII :: "string \<Rightarrow> bool" where
  "isASCII s \<longleftrightarrow> list_all (\<lambda>c. \<not> (byte c > 0x7e \<or> byte c < 0x20)) s"

definition asciiFilenameFallback :: "string \<Rightarrow> string" where
  "asciiFilenameFallback s = concat (map (\<lambda>r. if 0x20 \<le> r \<and> r \<le> 0x7e then encode_rune r else ''_'') (runes s))"

definition attrChar :: "char \<Rightarrow> bool" where
  "attrChar c \<longleftrightarrow> is_lower c \<or> is_upper c \<or> is_digit c \<or> IndexByte ''!#$&+-.^_`|~'' c \<noteq> None"

definition rfc5987Encode :: "string \<Rightarrow> string" where
  "rfc5987Encode s = concat (map (\<lambda>c. if attrChar c then [c] else CHR ''%'' # hex02 c) s)"

text \<open>\<^verbatim>\<open>strings.ReplaceAll(s, old, old')\<close> for one byte \<open>old\<close>.\<close>

definition ReplaceAll1 :: "string \<Rightarrow> char \<Rightarrow> string \<Rightarrow> string" where
  "ReplaceAll1 s old rep = concat (map (\<lambda>c. if c = old then rep else [c]) s)"

abbreviation quote :: char where "quote \<equiv> CHR 0x22"
abbreviation bslash :: char where "bslash \<equiv> CHR 0x5C"

definition contentDispositionValue :: "string \<Rightarrow> string \<Rightarrow> string" where
  "contentDispositionValue disp filename =
     (let ascii = asciiFilenameFallback filename;
          escaped = ReplaceAll1 (ReplaceAll1 ascii bslash [bslash, bslash]) quote [bslash, quote];
          v = disp @ ''; filename='' @ quote # escaped @ [quote]
      in if \<not> isASCII filename
         then v @ ''; filename*=UTF-8'' @ CHR 0x27 # CHR 0x27 # rfc5987Encode filename else v)"

text \<open>A receiver's reading of a quoted string, after its opening quote, and of an RFC 5987 value.\<close>

fun unquote :: "string \<Rightarrow> (string \<times> string) option" where
  "unquote [] = None"
| "unquote (c # s) = (if c = quote then Some ([], s)
     else if c = bslash then (case s of [] \<Rightarrow> None | d # t \<Rightarrow> map_option (apfst ((#) d)) (unquote t))
     else map_option (apfst ((#) c)) (unquote s))"

fun percentDecode :: "string \<Rightarrow> string option" where
  "percentDecode [] = Some []"
| "percentDecode (c # s) = (if c = CHR ''%'' then
     (case s of a # b # t \<Rightarrow> (case (hexValue a, hexValue b) of
        (Some x, Some y) \<Rightarrow> map_option ((#) (char_of (16 * x + y))) (percentDecode t) | _ \<Rightarrow> None)
      | _ \<Rightarrow> None)
     else map_option ((#) c) (percentDecode s))"

lemma percentDecode_Encode: "percentDecode (rfc5987Encode s) = Some s"
proof (induction s)
  case (Cons c s)
  have "attrChar CHR ''%'' = False" by (simp add: attrChar_def go_defs)
  then show ?case using Cons hex02_digits [of c] by (auto simp: rfc5987Encode_def hex02_def)
qed (simp add: rfc5987Encode_def)

lemma unquote_escaped:
  "unquote (ReplaceAll1 (ReplaceAll1 s bslash [bslash, bslash]) quote [bslash, quote] @ quote # r) = Some (s, r)"
  by (induction s) (auto simp: ReplaceAll1_def)

text \<open>The \<^verbatim>\<open>filename\<close> of a Content-Disposition is read back whole, whatever quotes and backslashes it
  has: nothing of it can end the parameter and start another.  A name that is not printable ASCII
  is followed by a second form that decodes to exactly its bytes.
\<close>

theorem contentDisposition_filename:
  "\<exists>q. contentDispositionValue disp filename = disp @ ''; filename='' @ quote # q \<and>
     unquote q = Some (asciiFilenameFallback filename,
       if isASCII filename then [] else ''; filename*=UTF-8'' @ CHR 0x27 # CHR 0x27 # rfc5987Encode filename) \<and>
     percentDecode (rfc5987Encode filename) = Some filename"
  by (auto simp: contentDispositionValue_def Let_def percentDecode_Encode
      intro!: exI [of _ "ReplaceAll1 (ReplaceAll1 (asciiFilenameFallback filename) bslash [bslash, bslash])
        quote [bslash, quote] @ quote # _"] unquote_escaped)

section \<open>Encoded-words\<close>

text \<open>\<^verbatim>\<open>forceEncodedWords\<close>: the inner loop picks whole runes up to 45 bytes, the outer one encodes them.\<close>

function chunkLen :: "string \<Rightarrow> nat \<Rightarrow> nat" where
  "chunkLen s n = (if n < length s then
     (let size = snd (decode_rune (drop n s)) in
      if n + size > 45 \<and> n > 0 then n else chunkLen s (n + size)) else n)"
  by pat_completeness auto
termination
proof (relation "measure (\<lambda>(s, n). length s - n)")
  fix s :: string and n size
  assume "n < length s" "size = snd (decode_rune (drop n s))"
  moreover from this have "0 < size" using decode_rune_width_pos [of "drop n s"] by simp
  ultimately show "((s, n + size), s, n) \<in> measure (\<lambda>(s, n). length s - n)" by simp
qed simp

declare chunkLen.simps [simp del]

lemma decode_rune_width_4: "snd (decode_rune s) \<le> 4"
  by (cases s) (auto split: list.splits)

lemma chunkLen_bounds:
  "n \<le> length s \<Longrightarrow> n \<le> 45 \<Longrightarrow> n \<le> chunkLen s n \<and> chunkLen s n \<le> 45 \<and> chunkLen s n \<le> length s \<and>
     (n < length s \<longrightarrow> 0 < chunkLen s n)"
proof (induction s n rule: chunkLen.induct)
  case (1 s n)
  let ?size = "snd (decode_rune (drop n s))"
  have size: "?size \<le> 4" "?size \<le> length s - n" "n < length s \<Longrightarrow> 0 < ?size"
    using decode_rune_width_4 decode_rune_width_le [of "drop n s"] decode_rune_width_pos [of "drop n s"] by auto
  show ?case
  proof (cases "n < length s \<and> \<not> (n + ?size > 45 \<and> n > 0)")
    case True
    then have eq: "chunkLen s n = chunkLen s (n + ?size)" by (subst chunkLen.simps) (auto simp: Let_def)
    have "n + ?size \<le> length s" "n + ?size \<le> 45" using True size by auto
    then show ?thesis using 1(1) [OF _ refl] True size(3) unfolding eq by auto
  next
    case False
    then have "chunkLen s n = n" by (subst chunkLen.simps) (simp add: Let_def)
    then show ?thesis using False 1(2,3) by auto
  qed
qed

definition encodedWord :: "string \<Rightarrow> string" where
  "encodedWord s = ''=?utf-8?b?'' @ encode64 stdAlphabet ''='' s @ ''?=''"

function encodedWords :: "string \<Rightarrow> string list" where
  "encodedWords s = (if s = [] then [] else
     (let n = chunkLen s 0 in encodedWord (take n s) # encodedWords (drop n s)))"
  by pat_completeness auto
termination
  using chunkLen_bounds [of 0] by (relation "measure length") auto

declare encodedWords.simps [simp del]

definition forceEncodedWords :: "string \<Rightarrow> string" where
  "forceEncodedWords s = Join (encodedWords s) '' ''"

text \<open>A receiver decodes one word; white space between two encoded-words is dropped.\<close>

definition decodeWord :: "string \<Rightarrow> string option" where
  "decodeWord w = (if prefix ''=?utf-8?b?'' w \<and> suffix ''?='' w
     then decodeStd64 stdAlphabet (take (length w - 12) (drop 10 w)) else None)"

fun decodeWords :: "string list \<Rightarrow> string option" where
  "decodeWords [] = Some []"
| "decodeWords (w # ws) = (case (decodeWord w, decodeWords ws) of
     (Some a, Some b) \<Rightarrow> Some (a @ b) | _ \<Rightarrow> None)"

lemma decodeWord_encodedWord: "decodeWord (encodedWord s) = Some s"
proof -
  have "take (length (encodedWord s) - 12) (drop 10 (encodedWord s)) = encode64 stdAlphabet ''='' s"
    by (simp add: encodedWord_def)
  then show ?thesis
    by (simp add: decodeWord_def decode_encode_std64 alphabet64_std)
      (simp add: encodedWord_def suffix_def)
qed

lemma encodedWord_form: "CHR '' '' \<notin> set (encodedWord s)" "length s \<le> 45 \<Longrightarrow> length (encodedWord s) \<le> 72"
  using encode64_std_no_break(3) [of s] by (auto simp: encodedWord_def length_encode64_std)

lemma encodedWords_props:
  "decodeWords (encodedWords s) = Some s \<and> list_all (\<lambda>w. length w \<le> 72 \<and> CHR '' '' \<notin> set w) (encodedWords s)"
proof (induction s rule: encodedWords.induct)
  case (1 s)
  show ?case
  proof (cases "s = []")
    case False
    then show ?thesis using 1 [OF False refl] chunkLen_bounds [of 0 s]
      by (subst (1 2) encodedWords.simps) (simp add: Let_def decodeWord_encodedWord encodedWord_form)
  qed (simp add: encodedWords.simps)
qed

lemma Split_Join:
  "ws \<noteq> [] \<Longrightarrow> list_all (\<lambda>w. c \<notin> set w) ws \<Longrightarrow> Split (Join ws [c]) c = ws"
proof (induction ws "[c]" rule: Join.induct)
  case (3 t u ts)
  then have "Split (Join (u # ts) [c]) c = u # ts" by simp
  moreover have "Join (t # u # ts) [c] = t @ c # Join (u # ts) [c]" by simp
  ultimately show ?case using 3(3) Split_append [of c t] by (simp del: Join.simps)
qed (simp_all add: Split_id)

text \<open>\<^verbatim>\<open>forceEncodedWords\<close> always gives a header places to fold: the words of its result are at most 72
  characters long, and together they decode to the text.
\<close>

theorem forceEncodedWords_roundtrip:
  assumes "s \<noteq> []"
  shows "decodeWords (Split (forceEncodedWords s) CHR '' '') = Some s \<and> longestToken (forceEncodedWords s) \<le> 72"
proof -
  have "encodedWords s \<noteq> []" using assms by (subst encodedWords.simps) (simp add: Let_def)
  then have "Split (forceEncodedWords s) CHR '' '' = encodedWords s"
    using encodedWords_props [of s] by (simp add: forceEncodedWords_def Split_Join list_all_iff)
  then show ?thesis using encodedWords_props [of s] by (simp add: longestToken_le list_all_iff)
qed

theorem forceEncodedWords_roundtrip_witness:
  "decodeWords (Split (forceEncodedWords ''hello'') CHR '' '') = Some ''hello''"
  using forceEncodedWords_roundtrip [of "''hello''"] by simp

end
