(* ===== verification/Driver_Mime.thy ===== *)
theory Driver_Mime
  imports Driver_Encoding Backend_Config
begin

text \<open>
  \<^verbatim>\<open>AssembleMessage\<close> of \<^verbatim>\<open>internal/driver/smtp/mime.go\<close>: addresses and subjects as header text, the
  multipart body, and the header block, with what a receiver reads back.  The clock, the random
  bytes and \<^verbatim>\<open>mime.ParseMediaType\<close> and \<^verbatim>\<open>FormatMediaType\<close> are arguments; of \<^verbatim>\<open>net/mail\<close>, \<^verbatim>\<open>mime\<close>,
  \<^verbatim>\<open>net/textproto\<close> and \<^verbatim>\<open>mime/multipart\<close> the functions used are defined.
\<close>

section \<open>Header text\<close>

text \<open>\<^verbatim>\<open>mime.WordEncoder\<close> with charset utf-8, in its Q and B forms; 63 is the room in one word.\<close>

definition needsEncoding :: "string \<Rightarrow> bool" where
  "needsEncoding s \<longleftrightarrow> list_ex (\<lambda>r. (r < 32 \<or> r > 126) \<and> r \<noteq> 9) (runes s)"

definition qSafe :: "char \<Rightarrow> bool" where
  "qSafe b \<longleftrightarrow> 32 < byte b \<and> byte b < 127 \<and> b \<noteq> CHR ''='' \<and> b \<noteq> CHR ''?'' \<and> b \<noteq> CHR ''_''"

definition writeQString :: "string \<Rightarrow> string" where
  "writeQString s = concat (map (\<lambda>b. if b = CHR '' '' then ''_'' else if qSafe b then [b]
     else CHR ''='' # hex02 b) s)"

function qEncode :: "nat \<Rightarrow> string \<Rightarrow> string" where
  "qEncode cur s = (if s = [] then [] else
     let plain = (hd s = CHR '' '' \<or> qSafe (hd s));
         runeLen = (if plain then 1 else snd (decode_rune s));
         encLen = (if plain then 1 else 3 * runeLen);
         out = writeQString (take runeLen s)
     in if cur + encLen > 63 then ''?= =?utf-8?q?'' @ out @ qEncode encLen (drop runeLen s)
        else out @ qEncode (cur + encLen) (drop runeLen s))"
  by pat_completeness auto
termination
  using decode_rune_width_pos by (relation "measure (length \<circ> snd)") (auto simp: Let_def)

definition QEncode :: "string \<Rightarrow> string" where
  "QEncode s = (if needsEncoding s then ''=?utf-8?q?'' @ qEncode 0 s @ ''?='' else s)"

text \<open>The pieces of a long text in the B form; \<open>acc\<close> is the piece being collected.\<close>

function bPieces :: "string \<Rightarrow> string \<Rightarrow> string list" where
  "bPieces acc s = (if s = [] then [acc] else
     let n = snd (decode_rune s)
     in if length acc + n \<le> 45 then bPieces (acc @ take n s) (drop n s)
        else acc # bPieces (take n s) (drop n s))"
  by pat_completeness auto
termination
  using decode_rune_width_pos by (relation "measure (length \<circ> snd)") (auto simp: Let_def)

declare qEncode.simps [simp del] bPieces.simps [simp del]

definition BEncode :: "string \<Rightarrow> string" where
  "BEncode s = (if \<not> needsEncoding s then s
     else if (length s + 2) div 3 * 4 \<le> 63 then encodedWord s
     else Join (map encodedWord (bPieces [] s)) '' '')"

text \<open>\<^verbatim>\<open>mail.Address.String\<close> for a printable name.\<close>

definition isVchar :: "nat \<Rightarrow> bool" where
  "isVchar r \<longleftrightarrow> 33 \<le> r \<and> r \<le> 126 \<or> 128 \<le> r"

definition isAtext :: "nat \<Rightarrow> bool" where
  "isAtext r \<longleftrightarrow> r \<notin> byte ` set ''.()<>[]:;@,'' \<and> r \<noteq> 0x5C \<and> r \<noteq> 0x22 \<and> isVchar r"

definition quoteString :: "string \<Rightarrow> string" where
  "quoteString s = quote # concat (map (\<lambda>r.
      if isVchar r \<and> r \<noteq> 0x5C \<and> r \<noteq> 0x22 \<or> r = 32 \<or> r = 9 then encode_rune r
      else if isVchar r then bslash # encode_rune r else []) (runes s)) @ [quote]"

text \<open>
  A dot needs no quotes between two bytes that are not dots.  \<open>prev\<close> is the byte before, \<open>None\<close> at
  the start.
\<close>

function quoteLocal :: "char option \<Rightarrow> string \<Rightarrow> bool" where
  "quoteLocal prev s = (if s = [] then False else
     (case decode_rune s of (r, n) \<Rightarrow>
       if isAtext r \<or> (r = 46 \<and> prev \<noteq> None \<and> prev \<noteq> Some CHR ''.'' \<and> tl s \<noteq> [] \<and> hd (tl s) \<noteq> CHR ''.'')
       then quoteLocal (Some (last (take n s))) (drop n s) else True))"
  by pat_completeness auto
termination
  by (relation "measure (length \<circ> snd)") (auto dest: decode_rune_pos)

declare quoteLocal.simps [simp del]

definition AddressString :: "string \<Rightarrow> string \<Rightarrow> string" where
  "AddressString name addr =
     (let (local, domain) = (case LastIndexByte addr CHR ''@'' of
            None \<Rightarrow> (addr, []) | Some i \<Rightarrow> (take i addr, drop (Suc i) addr));
          local = (if quoteLocal None local then quoteString local else local)
      in quoteString name @ '' <'' @ local @ ''@'' @ domain @ ''>'')"

definition maxHeaderLine :: nat where "maxHeaderLine = 998"

definition maxFoldableToken :: nat where
  "maxFoldableToken = maxHeaderLine - length ''Content-Transfer-Encoding: ''"

definition formatAddress :: "Address \<Rightarrow> string" where
  "formatAddress a =
     (if ad_Name a = [] then ad_Address a
      else if list_ex (\<lambda>c. (byte c < 32 \<and> c \<noteq> CHR 0x09) \<or> byte c > 126) (ad_Name a)
      then BEncode (ad_Name a) @ '' <'' @ ad_Address a @ ''>''
      else let s = AddressString (ad_Name a) (ad_Address a) in
        if longestToken s > maxFoldableToken then forceEncodedWords (ad_Name a) @ '' <'' @ ad_Address a @ ''>''
        else s)"

definition formatAddressList :: "Address list \<Rightarrow> string" where
  "formatAddressList addrs = Join (map formatAddress addrs) '', ''"

definition extractAddrs :: "Address list \<Rightarrow> string list" where
  "extractAddrs addrs = map ad_Address addrs"

definition formatSubject :: "string \<Rightarrow> string" where
  "formatSubject s = (let subject = QEncode s in
     if longestToken subject > maxFoldableToken then forceEncodedWords s else subject)"

section \<open>Header fields\<close>

text \<open>\<^verbatim>\<open>textproto.CanonicalMIMEHeaderKey\<close> and \<^verbatim>\<open>MIMEHeader.Set\<close>.\<close>

definition validHeaderFieldByte :: "char \<Rightarrow> bool" where
  "validHeaderFieldByte c \<longleftrightarrow> is_alnum c \<or> c \<in> set (''!#$%&*+-.^_`|~'' @ [CHR 0x27])"

fun canonBytes :: "bool \<Rightarrow> string \<Rightarrow> string" where
  "canonBytes upper [] = []"
| "canonBytes upper (c # s) =
     (if upper \<and> is_lower c then char_of (byte c - 32) else if \<not> upper \<and> is_upper c then char_of (byte c + 32) else c)
     # canonBytes (c = CHR ''-'') s"

definition canonicalKey :: "string \<Rightarrow> string" where
  "canonicalKey k = (if list_all validHeaderFieldByte k then canonBytes True k else k)"

definition headerSet :: "string \<Rightarrow> string \<Rightarrow> labels \<Rightarrow> labels" where
  "headerSet k v h = (canonicalKey k, v) # filter (\<lambda>p. fst p \<noteq> canonicalKey k) h"

datatype mime_error =
    NilMessage | FromRequired | RecipientRequired | HeaderKeyEmpty | HeaderKeyInvalid string
  | HeaderInjection string | HeaderUnfoldable string | BadMediaType string | FilenameInjection
  | BadContentID content_id_error

definition isReservedHeader :: "unicode_tables \<Rightarrow> string \<Rightarrow> bool" where
  "isReservedHeader U k \<longleftrightarrow> ToLower U k \<in> set [''from'', ''to'', ''cc'', ''bcc'', ''subject'', ''date'',
     ''message-id'', ''mime-version'', ''content-type'', ''content-transfer-encoding'']"

definition containsInjectionChars :: "string \<Rightarrow> bool" where
  "containsInjectionChars s = ContainsAny s [CR, LF, NUL]"

definition validateHeaderKey :: "string \<Rightarrow> mime_error option" where
  "validateHeaderKey k = (if k = [] then Some HeaderKeyEmpty
     else if list_ex (\<lambda>c. c < 33 \<or> c > 126 \<or> c = byte CHR '':'') (runes k) then Some (HeaderKeyInvalid k)
     else None)"

text \<open>The loop over the caller's headers, in the order the map gives them.\<close>

fun setHeaders :: "unicode_tables \<Rightarrow> labels \<Rightarrow> labels \<Rightarrow> mime_error + labels" where
  "setHeaders U [] hdr = Inr hdr"
| "setHeaders U ((k, v) # r) hdr =
     (if isReservedHeader U k then setHeaders U r hdr
      else case validateHeaderKey k of Some e \<Rightarrow> Inl e
      | None \<Rightarrow> if containsInjectionChars v then Inl (HeaderInjection k)
                else setHeaders U r (headerSet k v hdr))"

section \<open>Parts\<close>

record mime_lib =
  mm_unicode :: unicode_tables
  mm_ParseMediaType :: "string \<Rightarrow> (string \<times> labels) option"
  mm_FormatMediaType :: "string \<Rightarrow> labels \<Rightarrow> string"

text \<open>The random bytes of one message: of its Message-ID and of its three boundaries.\<close>

record draws =
  dr_id :: bytes
  dr_mixed :: bytes
  dr_alternative :: bytes
  dr_related :: bytes

definition generateBoundary :: "bytes \<Rightarrow> string" where
  "generateBoundary b = ''sigillum-'' @ encode64 urlAlphabet [] b"

definition generateMessageID :: "bytes \<Rightarrow> string \<Rightarrow> string" where
  "generateMessageID b domain = ''<'' @ encode64 urlAlphabet [] b @ ''@''
     @ (if domain = [] then ''sigillum.local'' else domain) @ ''>''"

text \<open>\<^verbatim>\<open>multipart.Writer\<close>.\<close>

record mwriter =
  mw_buf :: string
  mw_boundary :: string
  mw_started :: bool

definition mwNew :: "string \<Rightarrow> mwriter" where
  "mwNew boundary = \<lparr>mw_buf = [], mw_boundary = boundary, mw_started = False\<rparr>"

definition mwCreatePart :: "labels \<Rightarrow> mwriter \<Rightarrow> mwriter" where
  "mwCreatePart ph w = w\<lparr>mw_buf := mw_buf w @ (if mw_started w then crlf else []) @ ''--'' @ mw_boundary w @ crlf
     @ concat (map (\<lambda>(k, v). k @ '': '' @ v @ crlf) (sort_key fst ph)) @ crlf, mw_started := True\<rparr>"

definition mwWrite :: "string \<Rightarrow> mwriter \<Rightarrow> mwriter" where
  "mwWrite s w = w\<lparr>mw_buf := mw_buf w @ s\<rparr>"

definition mwClose :: "mwriter \<Rightarrow> string" where
  "mwClose w = mw_buf w @ crlf @ ''--'' @ mw_boundary w @ ''--'' @ crlf"

definition sanitizeContentType :: "mime_lib \<Rightarrow> string \<Rightarrow> mime_error + string" where
  "sanitizeContentType L ct =
     (if TrimSpace ct = [] then Inr ''application/octet-stream''
      else case mm_ParseMediaType L ct of None \<Rightarrow> Inl (BadMediaType ct)
      | Some (mt, params) \<Rightarrow>
         let kept = (if HasPrefix mt ''text/'' then
               (case map_of params ''charset'' of None \<Rightarrow> [] | Some cs \<Rightarrow> if cs \<noteq> [] then [(''charset'', cs)] else [])
               else []);
             out = mm_FormatMediaType L mt kept
         in if out = [] then Inl (BadMediaType ct) else Inr out)"

definition writeAttachment :: "mime_lib \<Rightarrow> Attachment \<Rightarrow> mwriter \<Rightarrow> mime_error + mwriter" where
  "writeAttachment L a w = (case sanitizeContentType L (at_ContentType a) of Inl e \<Rightarrow> Inl e
    | Inr ct \<Rightarrow>
       let ph = headerSet ''Content-Type'' ct [];
           disp = (if EqualFold (mm_unicode L) (at_Disposition a) ''inline'' then ''inline'' else ''attachment'')
       in if at_Filename a \<noteq> [] \<and> containsInjectionChars (at_Filename a) then Inl FilenameInjection
          else let ph = headerSet ''Content-Disposition''
                 (if at_Filename a \<noteq> [] then contentDispositionValue disp (at_Filename a) else disp) ph
          in case (if at_ContentID a \<noteq> [] then ValidateContentID (at_ContentID a) else None) of
               Some e \<Rightarrow> Inl (BadContentID e)
             | None \<Rightarrow>
               let ph = (if at_ContentID a \<noteq> [] then headerSet ''Content-ID'' (''<'' @ at_ContentID a @ ''>'') ph else ph);
                   ph = headerSet ''Content-Transfer-Encoding'' ''base64'' ph
               in Inr (mwWrite (attachmentBody (at_Content a)) (mwCreatePart ph w)))"

fun writeAttachments :: "mime_lib \<Rightarrow> Attachment list \<Rightarrow> mwriter \<Rightarrow> mime_error + mwriter" where
  "writeAttachments L [] w = Inr w"
| "writeAttachments L (a # as) w = (case writeAttachment L a w of Inl e \<Rightarrow> Inl e | Inr w \<Rightarrow> writeAttachments L as w)"

definition textHeader :: "string \<Rightarrow> labels" where
  "textHeader subtype = headerSet ''Content-Transfer-Encoding'' ''quoted-printable''
     (headerSet ''Content-Type'' (''text/'' @ subtype @ ''; charset=utf-8'') [])"

definition multipartHeader :: "string \<Rightarrow> string \<Rightarrow> labels" where
  "multipartHeader kind boundary =
     [(''Content-Type'', ''multipart/'' @ kind @ ''; boundary='' @ quote # boundary @ [quote])]"

definition buildRelated :: "mime_lib \<Rightarrow> draws \<Rightarrow> string \<Rightarrow> Attachment list \<Rightarrow> mime_error + (string \<times> labels)" where
  "buildRelated L d html inline =
     (let boundary = generateBoundary (dr_related d);
          w = mwWrite (writeQuotedPrintable html) (mwCreatePart (textHeader ''html'') (mwNew boundary))
      in case writeAttachments L inline w of Inl e \<Rightarrow> Inl e
         | Inr w \<Rightarrow> Inr (mwClose w,
             multipartHeader (''related; type='' @ quote # ''text/html'' @ [quote]) boundary))"

definition hasContent :: "string \<Rightarrow> bool" where
  "hasContent s \<longleftrightarrow> TrimSpace s \<noteq> []"

definition buildAlternative :: "mime_lib \<Rightarrow> draws \<Rightarrow> Body \<Rightarrow> Attachment list \<Rightarrow> mime_error + (string \<times> labels)" where
  "buildAlternative L d b related =
     (let boundary = generateBoundary (dr_alternative d); w = mwNew boundary;
          w = (if hasContent (bd_Text b)
               then mwWrite (writeQuotedPrintable (bd_Text b)) (mwCreatePart (textHeader ''plain'') w) else w);
          r = (if \<not> hasContent (bd_HTML b) then Inr w
               else if related \<noteq> [] then
                 (case buildRelated L d (bd_HTML b) related of Inl e \<Rightarrow> Inl e
                  | Inr (raw, ph) \<Rightarrow> Inr (mwWrite raw (mwCreatePart ph w)))
               else Inr (mwWrite (writeQuotedPrintable (bd_HTML b)) (mwCreatePart (textHeader ''html'') w)))
      in case r of Inl e \<Rightarrow> Inl e | Inr w \<Rightarrow> Inr (mwClose w, multipartHeader ''alternative'' boundary))"

definition setAll :: "labels \<Rightarrow> labels \<Rightarrow> labels" where
  "setAll ph hdr = fold (\<lambda>(k, v). headerSet k v) ph hdr"

definition writeAlternative ::
    "mime_lib \<Rightarrow> draws \<Rightarrow> labels \<Rightarrow> Body \<Rightarrow> Attachment list \<Rightarrow> mime_error + (labels \<times> string)" where
  "writeAlternative L d hdr b related =
     (let multi = (\<lambda>r. case r of Inl e \<Rightarrow> Inl e | Inr (raw, ph) \<Rightarrow> Inr (setAll ph hdr, raw));
          plain = (\<lambda>subtype s. Inr (headerSet ''Content-Transfer-Encoding'' ''quoted-printable''
            (headerSet ''Content-Type'' (''text/'' @ subtype @ ''; charset=utf-8'') hdr), writeQuotedPrintable s))
      in if hasContent (bd_Text b) \<and> hasContent (bd_HTML b) then multi (buildAlternative L d b related)
         else if hasContent (bd_HTML b) \<and> related \<noteq> [] then multi (buildRelated L d (bd_HTML b) related)
         else if hasContent (bd_HTML b) then plain ''html'' (bd_HTML b)
         else plain ''plain'' (bd_Text b))"

section \<open>The message\<close>

text \<open>The body of \<^verbatim>\<open>AssembleMessage\<close>: header fields and body text after the caller's headers are set.\<close>

definition assembleBody :: "mime_lib \<Rightarrow> draws \<Rightarrow> Message \<Rightarrow> labels \<Rightarrow> mime_error + (labels \<times> string)" where
  "assembleBody L d msg hdr =
     (let b = ms_Body msg; hasText = hasContent (bd_Text b); hasHTML = hasContent (bd_HTML b);
          isRelated = (\<lambda>a. hasHTML \<and> at_ContentID a \<noteq> [] \<and> EqualFold (mm_unicode L) (at_Disposition a) ''inline'');
          related = filter isRelated (ms_Attachments msg);
          regular = filter (\<lambda>a. \<not> isRelated a) (ms_Attachments msg)
      in if regular = [] \<and> \<not> hasText \<and> \<not> hasHTML then
           Inr (headerSet ''Content-Transfer-Encoding'' ''7bit''
             (headerSet ''Content-Type'' ''text/plain; charset=utf-8'' hdr), [])
         else if regular = [] then writeAlternative L d hdr b related
         else
           let boundary = generateBoundary (dr_mixed d);
               hdr = headerSet ''Content-Type'' (''multipart/mixed; boundary='' @ quote # boundary @ [quote]) hdr;
               w = (if hasText \<or> hasHTML then
                      (case buildAlternative L d b related of Inl e \<Rightarrow> Inl e
                       | Inr (altBuf, altHeader) \<Rightarrow> Inr (mwWrite altBuf (mwCreatePart altHeader (mwNew boundary))))
                    else Inr (mwNew boundary))
           in case w of Inl e \<Rightarrow> Inl e
              | Inr w \<Rightarrow> (case writeAttachments L regular w of Inl e \<Rightarrow> Inl e
                  | Inr w \<Rightarrow> Inr (hdr, mwClose w)))"

text \<open>The fields \<^verbatim>\<open>AssembleMessage\<close> sets itself, before those of the caller.\<close>

definition baseHeaders :: "string \<Rightarrow> string \<Rightarrow> Message \<Rightarrow> labels" where
  "baseHeaders date messageID msg =
     (let hdr = headerSet ''From'' (formatAddress (ms_From msg))
            (headerSet ''Message-ID'' messageID (headerSet ''Date'' date []));
          hdr = (if ms_To msg \<noteq> [] then headerSet ''To'' (formatAddressList (ms_To msg)) hdr else hdr);
          hdr = (if ms_Cc msg \<noteq> [] then headerSet ''Cc'' (formatAddressList (ms_Cc msg)) hdr else hdr);
          hdr = (if ms_Subject msg \<noteq> [] then headerSet ''Subject'' (formatSubject (ms_Subject msg)) hdr else hdr)
      in headerSet ''MIME-Version'' ''1.0'' hdr)"

fun writeHeaders :: "labels \<Rightarrow> mime_error + string" where
  "writeHeaders [] = Inr []"
| "writeHeaders ((k, v) # r) = (let line = foldHeaderLine k v in
     if longestLine line > maxHeaderLine then Inl (HeaderUnfoldable k)
     else case writeHeaders r of Inl e \<Rightarrow> Inl e | Inr out \<Rightarrow> Inr (line @ out))"

definition messageIDFor :: "draws \<Rightarrow> Message \<Rightarrow> string \<Rightarrow> string" where
  "messageIDFor d msg heloDomain =
     (if ms_MessageID msg = [] then generateMessageID (dr_id d) heloDomain else ms_MessageID msg)"

definition assembleFields :: "mime_lib \<Rightarrow> draws \<Rightarrow> Message \<Rightarrow> labels \<Rightarrow> mime_error + string" where
  "assembleFields L d msg hdr = (case setHeaders (mm_unicode L) (ms_Headers msg) hdr of
      Inl e \<Rightarrow> Inl e
    | Inr hdr \<Rightarrow> (case assembleBody L d msg hdr of Inl e \<Rightarrow> Inl e
        | Inr (hdr, body) \<Rightarrow> (case writeHeaders (sort_key fst hdr) of Inl e \<Rightarrow> Inl e
            | Inr out \<Rightarrow> Inr (out @ crlf @ body))))"

text \<open>The result is the error or the wire text, with the Message-ID that is returned beside it.\<close>

definition AssembleMessage ::
    "mime_lib \<Rightarrow> draws \<Rightarrow> string \<Rightarrow> Message option \<Rightarrow> string \<Rightarrow> (mime_error + string) \<times> string" where
  "AssembleMessage L d date m heloDomain = (case m of None \<Rightarrow> (Inl NilMessage, [])
    | Some msg \<Rightarrow>
       if ad_Address (ms_From msg) = [] then (Inl FromRequired, [])
       else if length (ms_To msg) + length (ms_Cc msg) + length (ms_Bcc msg) = 0 then (Inl RecipientRequired, [])
       else let messageID = messageIDFor d msg heloDomain
            in (assembleFields L d msg (baseHeaders date messageID msg), messageID))"

section \<open>Text without line breaks\<close>

definition clean :: "string \<Rightarrow> bool" where
  "clean s \<longleftrightarrow> CR \<notin> set s \<and> LF \<notin> set s"

lemma clean_simps [simp]:
  "clean []" "clean (a @ b) \<longleftrightarrow> clean a \<and> clean b"
  "clean (c # s) \<longleftrightarrow> c \<noteq> CR \<and> c \<noteq> LF \<and> clean s"
  by (auto simp: clean_def)

lemma clean_subset: "clean s \<Longrightarrow> set t \<subseteq> set s \<Longrightarrow> clean t"
  by (auto simp: clean_def)

lemma clean_concat: "(\<And>t. t \<in> set ts \<Longrightarrow> clean t) \<Longrightarrow> clean (concat ts)"
  by (auto simp: clean_def)

lemma clean_Join: "(\<And>t. t \<in> set ts \<Longrightarrow> clean t) \<Longrightarrow> clean sep \<Longrightarrow> clean (Join ts sep)"
  by (induction ts sep rule: Join.induct) auto

lemma clean_take: "clean s \<Longrightarrow> clean (take n s)" and clean_drop: "clean s \<Longrightarrow> clean (drop n s)"
  by (auto elim: clean_subset dest: in_set_takeD in_set_dropD)

lemma clean_hex02 [simp]: "clean (hex02 c)"
  using hex02_no_CR by (simp add: clean_def)

lemma clean_encodedWord [simp]: "clean (encodedWord s)"
  using encode64_std_no_break [of s] by (simp add: encodedWord_def clean_def)

lemma clean_url64 [simp]: "clean (encode64 urlAlphabet [] b)"
  using set_encode64 [OF alphabet64_url, of "[]" b] alphabet64_url by (auto simp: clean_def alphabet64_def)

lemma decode_rune_ascii_iff: "s \<noteq> [] \<Longrightarrow> fst (decode_rune s) < 128 \<Longrightarrow> is_ascii (hd s)"
  by (cases s) (auto simp: go_defs is_cont_def rune_error_def split: list.splits if_splits)

lemma runes_small: "list_all (\<lambda>r. r < 128) (runes s) \<Longrightarrow> list_all is_ascii s"
proof (induction s)
  case (Cons c s)
  have "list_all (\<lambda>r. r < 128) (fst (decode_rune (c # s)) # runes (drop (snd (decode_rune (c # s))) (c # s)))"
    using Cons.prems by (subst (asm) runes.simps) (simp add: case_prod_beta del: decode_rune.simps)
  then have "is_ascii c" using decode_rune_ascii_iff [of "c # s"] by simp
  then show ?case using Cons by simp
qed simp

lemma clean_plain: "\<not> needsEncoding s \<Longrightarrow> clean s"
proof -
  assume s: "\<not> needsEncoding s"
  then have "list_all (\<lambda>r. r < 128) (runes s)"
    by (auto simp: needsEncoding_def list_ex_iff list_all_iff)
  then have "runes s = map byte s" by (intro runes_ascii runes_small)
  then show ?thesis using s by (auto simp: needsEncoding_def list_ex_iff clean_def)
qed

lemma clean_BEncode [simp]: "clean (BEncode s)"
  by (auto simp: BEncode_def clean_plain intro!: clean_Join)

lemma clean_forceEncodedWords [simp]: "clean (forceEncodedWords s)"
proof -
  have "w \<in> set (encodedWords s) \<Longrightarrow> clean w" for w
  proof (induction s rule: encodedWords.induct)
    case (1 s)
    then show ?case
      by (subst (asm) (2) encodedWords.simps) (auto simp: Let_def split: if_splits)
  qed
  then show ?thesis by (auto simp: forceEncodedWords_def intro!: clean_Join)
qed

lemma clean_writeQString [simp]: "clean (writeQString s)"
  by (auto simp: writeQString_def qSafe_def intro!: clean_concat)

lemma clean_qEncode [simp]: "clean (qEncode cur s)"
proof (induction cur s rule: qEncode.induct)
  case (1 cur s)
  then show ?case by (subst qEncode.simps) (simp add: Let_def)
qed

lemma clean_formatSubject: "clean (formatSubject s)"
  by (simp add: formatSubject_def Let_def QEncode_def clean_plain)

lemma char_of_high: "128 \<le> n \<Longrightarrow> n < 256 \<Longrightarrow> char_of n \<noteq> CR \<and> char_of n \<noteq> LF" for n :: nat
proof -
  assume n: "128 \<le> n" "n < 256"
  have b: "byte (char_of n) = n" using n by simp
  show ?thesis using n by (auto dest!: arg_cong [of _ _ byte] simp: b simp del: of_char_of)
qed

lemma clean_encode_rune: "r \<noteq> 10 \<Longrightarrow> r \<noteq> 13 \<Longrightarrow> clean (encode_rune r)"
proof -
  assume r: "r \<noteq> 10" "r \<noteq> 13"
  have low: "char_of r \<noteq> CR \<and> char_of r \<noteq> LF" if "r \<le> 127"
  proof -
    have b: "byte (char_of r) = r" using that by simp
    show ?thesis using r by (auto dest!: arg_cong [of _ _ byte] simp: b simp del: of_char_of)
  qed
  have six: "char_of (128 + k mod 64) \<noteq> CR \<and> char_of (128 + k mod 64) \<noteq> LF" for k :: nat
  proof (rule char_of_high)
    show "128 + k mod 64 < 256" using mod_less_divisor [of 64 k] by linarith
  qed simp
  have lead: "r div 64 \<le> 31" if "r \<le> 0x7FF" using div_le_mono [OF that, of 64] by simp
  have lead3: "r div 4096 \<le> 15" if "r \<le> 0xFFFF" using div_le_mono [OF that, of 4096] by simp
  have lead4: "r div 262144 \<le> 4" if "r \<le> 0x10FFFF" using div_le_mono [OF that, of 262144] by simp
  show ?thesis
    using low six lead lead3 lead4 char_of_high [of "192 + r div 64"] char_of_high [of "224 + r div 4096"]
      char_of_high [of "240 + r div 262144"] unfolding encode_rune_def
    by (simp del: char_of_eval split del: if_split) (auto simp del: char_of_eval)
qed

lemma clean_quoteString [simp]: "clean (quoteString s)"
  by (auto simp: quoteString_def isVchar_def intro!: clean_concat clean_encode_rune)

lemma clean_AddressString: "clean addr \<Longrightarrow> clean (AddressString name addr)"
  by (auto simp: AddressString_def Let_def clean_take clean_drop split: option.splits)

lemma clean_formatAddress: "clean (ad_Address a) \<Longrightarrow> clean (formatAddress a)"
  by (simp add: formatAddress_def Let_def clean_AddressString)

lemma clean_formatAddressList:
  "(\<And>a. a \<in> set as \<Longrightarrow> clean (ad_Address a)) \<Longrightarrow> clean (formatAddressList as)"
  by (auto simp: formatAddressList_def intro!: clean_Join clean_formatAddress)

section \<open>Well-formed header fields\<close>

definition fieldName :: "string \<Rightarrow> bool" where
  "fieldName k \<longleftrightarrow> k \<noteq> [] \<and> list_all (\<lambda>c. 32 < byte c \<and> byte c < 127) k"

definition fields_ok :: "labels \<Rightarrow> bool" where
  "fields_ok h \<longleftrightarrow> list_all (\<lambda>(k, v). fieldName k \<and> clean v) h \<and> distinct (map fst h)"

lemma fieldName_no_break: "fieldName k \<Longrightarrow> CR \<notin> set k \<and> LF \<notin> set k \<and> hd k \<noteq> CHR '' ''"
  by (cases k) (auto simp: fieldName_def list_all_iff)

lemma lower_canonBytes: "map ascii_lower (canonBytes u k) = map ascii_lower k"
  by (induction u k rule: canonBytes.induct) (auto simp: go_defs)

lemma lower_canonicalKey: "map ascii_lower (canonicalKey k) = map ascii_lower k"
  by (simp add: canonicalKey_def lower_canonBytes)

lemma canonBytes_printable:
  "list_all (\<lambda>c. 32 < byte c \<and> byte c < 127) k \<Longrightarrow> list_all (\<lambda>c. 32 < byte c \<and> byte c < 127) (canonBytes u k)"
  by (induction u k rule: canonBytes.induct) (auto simp: go_defs)

lemma canonBytes_Nil_iff [simp]: "canonBytes u k = [] \<longleftrightarrow> k = []"
  by (cases k) auto

lemma fieldName_canonicalKey: "fieldName k \<Longrightarrow> fieldName (canonicalKey k)"
  by (simp add: fieldName_def canonicalKey_def canonBytes_printable)

lemma fields_ok_headerSet: "fieldName k \<Longrightarrow> clean v \<Longrightarrow> fields_ok h \<Longrightarrow> fields_ok (headerSet k v h)"
  by (auto simp: fields_ok_def headerSet_def fieldName_canonicalKey list_all_iff
      intro: distinct_map_filter)

lemma map_of_headerSet: "map_of (headerSet k v h) x = (if x = canonicalKey k then Some v else map_of h x)"
proof -
  have "map_of (filter (\<lambda>p. fst p \<noteq> c) h) x = (if x = c then None else map_of h x)" for c
    by (induction h) auto
  then show ?thesis by (simp add: headerSet_def)
qed

lemma validateHeaderKey_None: "validateHeaderKey k = None \<Longrightarrow> fieldName k \<and> list_all is_ascii k"
proof -
  assume k: "validateHeaderKey k = None"
  then have r: "list_all (\<lambda>r. 33 \<le> r \<and> r \<le> 126) (runes k)" "k \<noteq> []"
    by (auto simp: validateHeaderKey_def list_all_iff list_ex_iff split: if_splits)
  then have a: "list_all is_ascii k" by (intro runes_small) (auto simp: list_all_iff)
  then show ?thesis using r by (auto simp: fieldName_def runes_ascii list_all_iff)
qed

text \<open>A key that is not reserved never has the canonical form of a reserved one.\<close>

lemma unreserved_key:
  assumes "\<not> isReservedHeader U k" "list_all is_ascii k" "canonicalKey k = K"
    and "map ascii_lower K \<in> set [''from'', ''to'', ''cc'', ''bcc'', ''subject'', ''date'',
      ''message-id'', ''mime-version'', ''content-type'', ''content-transfer-encoding'']"
  shows False
  using assms lower_canonicalKey [of k] unfolding isReservedHeader_def by (metis ToLower_ascii)

text \<open>What the caller gave for a field: the last header that is not reserved and has that canonical name.\<close>

fun givenHeader :: "unicode_tables \<Rightarrow> labels \<Rightarrow> string \<Rightarrow> string option" where
  "givenHeader U [] K = None"
| "givenHeader U ((k, v) # r) K = (case givenHeader U r K of Some x \<Rightarrow> Some x
     | None \<Rightarrow> if \<not> isReservedHeader U k \<and> canonicalKey k = K then Some v else None)"

definition reservedName :: "string \<Rightarrow> bool" where
  "reservedName K \<longleftrightarrow> map ascii_lower K \<in> set [''from'', ''to'', ''cc'', ''bcc'', ''subject'', ''date'',
      ''message-id'', ''mime-version'', ''content-type'', ''content-transfer-encoding'']"

lemma setHeaders_keeps:
  assumes "setHeaders U hs hdr = Inr hdr'" "fields_ok hdr"
  shows "fields_ok hdr' \<and> (\<forall>K. map_of hdr' K =
      (case givenHeader U hs K of Some v \<Rightarrow> Some v | None \<Rightarrow> map_of hdr K)) \<and>
    (\<forall>K. reservedName K \<longrightarrow> givenHeader U hs K = None)"
  using assms
proof (induction U hs hdr rule: setHeaders.induct)
  case (2 U k v r hdr)
  show ?case
  proof (cases "isReservedHeader U k")
    case True
    with 2 have "fields_ok hdr' \<and> (\<forall>K. map_of hdr' K =
      (case givenHeader U r K of Some v \<Rightarrow> Some v | None \<Rightarrow> map_of hdr K)) \<and>
      (\<forall>K. reservedName K \<longrightarrow> givenHeader U r K = None)" by simp
    then show ?thesis using True by (simp split: option.splits)
  next
    case False
    then have k: "validateHeaderKey k = None" and v: "\<not> containsInjectionChars v"
      using "2.prems" by (auto split: option.splits if_splits)
    have "clean v" using v by (auto simp: containsInjectionChars_def go_defs list_ex_iff clean_def)
    then have "fields_ok (headerSet k v hdr)"
      using fields_ok_headerSet validateHeaderKey_None [OF k] "2.prems"(2) by blast
    moreover have "setHeaders U r (headerSet k v hdr) = Inr hdr'" using "2.prems"(1) False k v by simp
    ultimately have ih: "fields_ok hdr'" "\<And>K. map_of hdr' K =
        (case givenHeader U r K of Some v \<Rightarrow> Some v | None \<Rightarrow> map_of (headerSet k v hdr) K)"
      "\<And>K. reservedName K \<Longrightarrow> givenHeader U r K = None"
      using "2.IH"(2) [OF False k v] by auto
    have "\<not> reservedName (canonicalKey k)"
      using unreserved_key [OF False _ refl] validateHeaderKey_None [OF k] unfolding reservedName_def by blast
    then show ?thesis using ih False by (auto simp: map_of_headerSet split: option.splits)
  qed
qed simp

lemma fieldName_eval [simp]:
  "fieldName ''Date''" "fieldName ''Message-ID''" "fieldName ''From''" "fieldName ''To''" "fieldName ''Cc''"
  "fieldName ''Subject''" "fieldName ''MIME-Version''" "fieldName ''Content-Type''"
  "fieldName ''Content-Transfer-Encoding''"
  by (simp_all add: fieldName_def)

lemma canonicalKey_eval [simp]:
  "canonicalKey ''Date'' = ''Date''" "canonicalKey ''Message-ID'' = ''Message-Id''"
  "canonicalKey ''From'' = ''From''" "canonicalKey ''To'' = ''To''" "canonicalKey ''Cc'' = ''Cc''"
  "canonicalKey ''Subject'' = ''Subject''" "canonicalKey ''MIME-Version'' = ''Mime-Version''"
  "canonicalKey ''Content-Type'' = ''Content-Type''"
  "canonicalKey ''Content-Transfer-Encoding'' = ''Content-Transfer-Encoding''"
  by (simp_all add: canonicalKey_def validHeaderFieldByte_def go_defs)

text \<open>The addresses and texts of a message that come from outside are single lines.\<close>

definition cleanMessage :: "Message \<Rightarrow> bool" where
  "cleanMessage msg \<longleftrightarrow> clean (ms_MessageID msg) \<and>
     list_all (\<lambda>a. clean (ad_Address a)) (ms_From msg # ms_To msg @ ms_Cc msg)"

lemma baseHeaders_ok:
  assumes "clean date" "clean messageID" "cleanMessage msg"
  shows "fields_ok (baseHeaders date messageID msg)"
proof -
  have "fields_ok []" by (simp add: fields_ok_def)
  moreover have "clean (formatAddress (ms_From msg))" "clean (formatAddressList (ms_To msg))"
    "clean (formatAddressList (ms_Cc msg))"
    using assms(3) by (auto simp: cleanMessage_def list_all_iff intro: clean_formatAddress clean_formatAddressList)
  ultimately show ?thesis using assms
    by (simp add: baseHeaders_def Let_def fields_ok_headerSet clean_formatSubject)
qed

text \<open>
  The fields a message is meant to have, the two that describe its content apart: those of the
  message, and for every other name what the caller gave.
\<close>

definition meantField :: "unicode_tables \<Rightarrow> string \<Rightarrow> string \<Rightarrow> Message \<Rightarrow> string \<Rightarrow> string option" where
  "meantField U date messageID msg K =
     (if K = ''Date'' then Some date else if K = ''Message-Id'' then Some messageID
      else if K = ''From'' then Some (formatAddress (ms_From msg))
      else if K = ''To'' then (if ms_To msg = [] then None else Some (formatAddressList (ms_To msg)))
      else if K = ''Cc'' then (if ms_Cc msg = [] then None else Some (formatAddressList (ms_Cc msg)))
      else if K = ''Subject'' then (if ms_Subject msg = [] then None else Some (formatSubject (ms_Subject msg)))
      else if K = ''Mime-Version'' then Some ''1.0''
      else if K = ''Bcc'' then None
      else givenHeader U (ms_Headers msg) K)"

definition contentField :: "string \<Rightarrow> bool" where
  "contentField K \<longleftrightarrow> K = ''Content-Type'' \<or> K = ''Content-Transfer-Encoding''"

lemma reservedName_eval:
  "reservedName ''Date''" "reservedName ''Message-Id''" "reservedName ''From''" "reservedName ''To''"
  "reservedName ''Cc''" "reservedName ''Subject''" "reservedName ''Mime-Version''" "reservedName ''Bcc''"
  by (simp_all add: reservedName_def go_defs)

lemma baseHeaders_fields:
  "map_of (baseHeaders date messageID msg) K =
     (if K = ''Date'' then Some date else if K = ''Message-Id'' then Some messageID
      else if K = ''From'' then Some (formatAddress (ms_From msg))
      else if K = ''To'' then (if ms_To msg = [] then None else Some (formatAddressList (ms_To msg)))
      else if K = ''Cc'' then (if ms_Cc msg = [] then None else Some (formatAddressList (ms_Cc msg)))
      else if K = ''Subject'' then (if ms_Subject msg = [] then None else Some (formatSubject (ms_Subject msg)))
      else if K = ''Mime-Version'' then Some ''1.0'' else None)"
  by (simp add: baseHeaders_def Let_def map_of_headerSet)

lemma meantField_set:
  assumes "setHeaders U (ms_Headers msg) (baseHeaders date messageID msg) = Inr hdr"
    and "fields_ok (baseHeaders date messageID msg)"
  shows "map_of hdr K = meantField U date messageID msg K"
proof -
  note k = setHeaders_keeps [OF assms]
  then have r: "\<And>K. reservedName K \<Longrightarrow> givenHeader U (ms_Headers msg) K = None" by blast
  have "map_of hdr K = (case givenHeader U (ms_Headers msg) K of Some v \<Rightarrow> Some v
      | None \<Rightarrow> map_of (baseHeaders date messageID msg) K)" using k by blast
  then show ?thesis
    unfolding baseHeaders_fields meantField_def using r [OF reservedName_eval(1)] r [OF reservedName_eval(2)]
      r [OF reservedName_eval(3)] r [OF reservedName_eval(4)] r [OF reservedName_eval(5)]
      r [OF reservedName_eval(6)] r [OF reservedName_eval(7)] r [OF reservedName_eval(8)]
    by (simp split: option.split)
qed

text \<open>Building the body only sets the two content fields.\<close>

definition content_closed :: "(labels \<Rightarrow> bool) \<Rightarrow> bool" where
  "content_closed P \<longleftrightarrow> (\<forall>h v. P h \<longrightarrow> clean v \<longrightarrow>
     P (headerSet ''Content-Type'' v h) \<and> P (headerSet ''Content-Transfer-Encoding'' v h))"

lemma clean_boundary [simp]: "clean (generateBoundary b)"
  by (simp add: generateBoundary_def)

lemma multipart_built:
  "buildRelated L d html inline = Inr (raw, ph) \<Longrightarrow> \<exists>v. clean v \<and> ph = [(''Content-Type'', v)]"
  "buildAlternative L d b inline = Inr (raw, ph) \<Longrightarrow> \<exists>v. clean v \<and> ph = [(''Content-Type'', v)]"
  by (auto simp: buildRelated_def buildAlternative_def multipartHeader_def Let_def split: sum.splits)

lemma writeAlternative_keeps:
  assumes "content_closed P" "P hdr" "writeAlternative L d hdr b related = Inr (hdr', body)"
  shows "P hdr'"
proof -
  have multi: "P (setAll ph hdr)" if "\<exists>v. clean v \<and> ph = [(''Content-Type'', v)]" for ph
    using that assms(1,2) by (auto simp: setAll_def content_closed_def)
  have plain: "P (headerSet ''Content-Transfer-Encoding'' ''quoted-printable''
      (headerSet ''Content-Type'' (''text/'' @ t @ ''; charset=utf-8'') hdr))" if "clean t" for t
  proof -
    have "P (headerSet ''Content-Type'' (''text/'' @ t @ ''; charset=utf-8'') hdr)"
      using assms(1,2) that unfolding content_closed_def by simp
    then show ?thesis using assms(1) unfolding content_closed_def by simp
  qed
  show ?thesis using assms(3) plain [of "''html''"] plain [of "''plain''"]
    unfolding writeAlternative_def Let_def
    by (auto simp del: append.simps split: if_splits sum.splits dest!: multipart_built intro!: multi)
qed

lemma assembleBody_keeps:
  assumes "content_closed P" "P hdr" "assembleBody L d msg hdr = Inr (hdr', body)"
  shows "P hdr'"
proof -
  have "P (headerSet ''Content-Type'' v hdr)" if "clean v" for v
    using assms(1,2) that unfolding content_closed_def by blast
  moreover from this have "P (headerSet ''Content-Transfer-Encoding'' ''7bit''
      (headerSet ''Content-Type'' ''text/plain; charset=utf-8'' hdr))"
    using assms(1) unfolding content_closed_def by simp
  ultimately show ?thesis using assms(3) writeAlternative_keeps [OF assms(1,2)]
    unfolding assembleBody_def Let_def
    by (auto split: if_splits sum.splits simp: clean_boundary)
qed

section \<open>Reading a message back\<close>

text \<open>
  A receiver splits a message into lines; lines up to the first empty one are the header, where a
  line that begins with a space continues the field before.
\<close>

fun readFields :: "string list \<Rightarrow> string list \<times> string list" where
  "readFields [] = ([], [])"
| "readFields (l # ls) = (if l = [] then ([], ls) else
     (case readFields ls of (fs, r) \<Rightarrow> (case fs of [] \<Rightarrow> ([l], r)
        | f # fs' \<Rightarrow> if prefix '' '' f then ((l @ f) # fs', r) else (l # fs, r))))"

definition readMessage :: "string \<Rightarrow> string list \<times> string" where
  "readMessage s = (case readFields (SplitCRLF s) of (fs, r) \<Rightarrow> (fs, Join r crlf))"

lemma readFields_folded:
  assumes "CR \<notin> set cur" "list_all (\<lambda>t. CR \<notin> set t) ts" "cur \<noteq> []"
    "readFields (SplitCRLF rest) = (fs, r)" "\<not> list_ex (prefix '' '') (take 1 fs)"
  shows "readFields (SplitCRLF (foldTokens cur ts @ rest)) = ((cur @ concat (map ((#) CHR '' '') ts)) # fs, r)"
  using assms(1-3)
proof (induction cur ts rule: foldTokens.induct)
  case (1 cur)
  then show ?case using assms(4,5) by (cases fs) (auto simp: SplitCRLF_line)
next
  case (2 cur tok ts)
  then show ?case by (auto simp: SplitCRLF_line)
qed

lemma readFields_header:
  assumes "fieldName k" "clean v" "readFields (SplitCRLF rest) = (fs, r)" "\<not> list_ex (prefix '' '') (take 1 fs)"
  shows "readFields (SplitCRLF (foldHeaderLine k v @ rest)) = ((k @ '': '' @ v) # fs, r)"
proof -
  let ?t = "Split v CHR '' ''"
  have no: "list_all (\<lambda>t. CR \<notin> set t) ?t"
    using assms(2) set_Split_subset by (fastforce simp: list_all_iff clean_def)
  have "CR \<notin> set (k @ '':'' @ CHR '' '' # hd ?t)" "list_all (\<lambda>t. CR \<notin> set t) (tl ?t)"
    using fieldName_no_break [OF assms(1)] no by (cases ?t; force)+
  from readFields_folded [OF this _ assms(3,4)]
  show ?thesis using Split_concat [of v "CHR '' ''"] by (simp add: foldHeaderLine_def Let_def)
qed

lemma writeHeaders_read:
  assumes "writeHeaders h = Inr out" "list_all (\<lambda>(k, v). fieldName k \<and> clean v) h"
  shows "readFields (SplitCRLF (out @ CR # LF # body)) = (map (\<lambda>(k, v). k @ '': '' @ v) h, SplitCRLF body)"
  using assms
proof (induction h arbitrary: out rule: writeHeaders.induct)
  case (2 k v h)
  obtain o' where o: "writeHeaders h = Inr o'" "out = foldHeaderLine k v @ o'"
    using "2.prems"(1) by (auto simp: Let_def split: if_splits sum.splits)
  have len: "\<not> longestLine (foldHeaderLine k v) > maxHeaderLine"
    using "2.prems"(1) by (auto simp: Let_def split: if_splits)
  have IH: "readFields (SplitCRLF (o' @ CR # LF # body)) = (map (\<lambda>(k, v). k @ '': '' @ v) h, SplitCRLF body)"
    using "2.IH" [OF refl len] o(1) "2.prems"(2) by simp
  have "\<not> list_ex (prefix '' '') (take 1 (map (\<lambda>(k, v). k @ '': '' @ v) h))"
    using "2.prems"(2) fieldName_no_break by (cases h; cases "fst (hd h)") (auto simp: fieldName_def)
  from readFields_header [OF _ _ IH this] show ?case using "2.prems"(2) o(2) by simp
qed simp

lemma map_of_sort_fst: "distinct (map fst h) \<Longrightarrow> map_of (sort_key fst h) = map_of h"
proof
  fix x
  assume d: "distinct (map fst h)"
  have "distinct (map fst (sort_key fst h))"
    using d by (metis distinct_map distinct_sort set_sort)
  then show "map_of (sort_key fst h) x = map_of h x"
    using d by (metis map_of_eq_None_iff map_of_eq_Some_iff not_Some_eq set_map set_sort)
qed

lemma content_closed_ok:
  "content_closed (\<lambda>h. fields_ok h \<and> (\<forall>K. \<not> contentField K \<longrightarrow> map_of h K = F K))"
  by (auto simp: content_closed_def fields_ok_headerSet map_of_headerSet contentField_def)

subsection \<open>The texts and attachments of the body\<close>

text \<open>The encoded texts and attachments a body has to carry.\<close>

definition carried :: "Message \<Rightarrow> string list" where
  "carried msg = map writeQuotedPrintable (filter hasContent [bd_Text (ms_Body msg), bd_HTML (ms_Body msg)])
     @ map (\<lambda>a. attachmentBody (at_Content a)) (ms_Attachments msg)"

lemma sublist_append_left: "sublist x a \<Longrightarrow> sublist x (a @ b)"
  using sublist_order.order_trans [of x a "a @ b"] by simp

lemma sublist_append_right: "sublist x b \<Longrightarrow> sublist x (a @ b)"
  using sublist_order.order_trans [of x b "a @ b"] by simp

lemma mwCreatePart_carries: "sublist x (mw_buf w) \<Longrightarrow> sublist x (mw_buf (mwCreatePart ph w))"
  unfolding mwCreatePart_def by (simp add: sublist_append_left)

lemma mwWrite_carries: "sublist x (mw_buf w) \<or> sublist x y \<Longrightarrow> sublist x (mw_buf (mwWrite y w))"
  unfolding mwWrite_def using sublist_append_left sublist_append_right by auto

lemma mwClose_carries: "sublist x (mw_buf w) \<Longrightarrow> sublist x (mwClose w)"
  unfolding mwClose_def by (rule sublist_append_left)

lemma writeAttachment_Inr:
  "writeAttachment L a w = Inr w' \<Longrightarrow> \<exists>ph. w' = mwWrite (attachmentBody (at_Content a)) (mwCreatePart ph w)"
  unfolding writeAttachment_def Let_def by (auto simp del: append.simps split: sum.splits if_splits option.splits)

lemma writeAttachment_carries:
  assumes "writeAttachment L a w = Inr w'"
  shows "sublist (attachmentBody (at_Content a)) (mw_buf w')"
    and "sublist x (mw_buf w) \<Longrightarrow> sublist x (mw_buf w')"
  using writeAttachment_Inr [OF assms] by (auto intro: mwWrite_carries mwCreatePart_carries)

lemma writeAttachments_carries:
  assumes "writeAttachments L as w = Inr w'" "(\<exists>a\<in>set as. x = attachmentBody (at_Content a)) \<or> sublist x (mw_buf w)"
  shows "sublist x (mw_buf w')"
  using assms
proof (induction L as w rule: writeAttachments.induct)
  case (2 L a as w)
  then obtain u where u: "writeAttachment L a w = Inr u" "writeAttachments L as u = Inr w'"
    by (auto split: sum.splits)
  show ?case using "2.IH" [OF u] "2.prems"(2) writeAttachment_carries [OF u(1)] by auto
qed auto

lemma buildRelated_carries:
  assumes "buildRelated L d html inline = Inr (raw, ph)"
    and "x = writeQuotedPrintable html \<or> (\<exists>a\<in>set inline. x = attachmentBody (at_Content a))"
  shows "sublist x raw"
proof -
  let ?w = "mwWrite (writeQuotedPrintable html) (mwCreatePart (textHeader ''html'') (mwNew (generateBoundary (dr_related d))))"
  obtain w where w: "writeAttachments L inline ?w = Inr w" "raw = mwClose w"
    using assms(1) unfolding buildRelated_def Let_def by (auto split: sum.splits)
  have "sublist (writeQuotedPrintable html) (mw_buf ?w)" by (rule mwWrite_carries) simp
  then have "sublist x (mw_buf w)" using writeAttachments_carries [OF w(1)] assms(2) by blast
  then show ?thesis unfolding w(2) by (rule mwClose_carries)
qed

lemma buildRelated_html: "buildRelated L d html inline = Inr (raw, ph) \<Longrightarrow> sublist (writeQuotedPrintable html) raw"
  by (rule buildRelated_carries) auto

lemma buildRelated_inline:
  "buildRelated L d html inline = Inr (raw, ph) \<Longrightarrow> a \<in> set inline \<Longrightarrow> sublist (attachmentBody (at_Content a)) raw"
  by (rule buildRelated_carries) auto

text \<open>The writer of an alternative after its text part.\<close>

definition altText :: "draws \<Rightarrow> Body \<Rightarrow> mwriter" where
  "altText d b = (let w = mwNew (generateBoundary (dr_alternative d)) in
     if hasContent (bd_Text b) then mwWrite (writeQuotedPrintable (bd_Text b)) (mwCreatePart (textHeader ''plain'') w) else w)"

lemma buildAlternative_Inr:
  assumes "buildAlternative L d b related = Inr (raw, ph)"
  shows "if \<not> hasContent (bd_HTML b) then raw = mwClose (altText d b)
    else if related = [] then raw = mwClose (mwWrite (writeQuotedPrintable (bd_HTML b))
      (mwCreatePart (textHeader ''html'') (altText d b)))
    else \<exists>raw' ph'. buildRelated L d (bd_HTML b) related = Inr (raw', ph') \<and>
      raw = mwClose (mwWrite raw' (mwCreatePart ph' (altText d b)))"
  using assms unfolding buildAlternative_def Let_def altText_def [unfolded Let_def, symmetric]
  by (simp split: if_splits sum.splits prod.splits)

lemma altText_carries: "hasContent (bd_Text b) \<Longrightarrow> sublist (writeQuotedPrintable (bd_Text b)) (mw_buf (altText d b))"
  unfolding altText_def Let_def by (simp add: mwWrite_carries)

lemma buildAlternative_carries:
  assumes "buildAlternative L d b related = Inr (raw, ph)"
  shows "hasContent (bd_Text b) \<Longrightarrow> sublist (writeQuotedPrintable (bd_Text b)) raw"
    and "hasContent (bd_HTML b) \<Longrightarrow> sublist (writeQuotedPrintable (bd_HTML b)) raw"
    and "hasContent (bd_HTML b) \<Longrightarrow> a \<in> set related \<Longrightarrow> sublist (attachmentBody (at_Content a)) raw"
proof -
  note r = buildAlternative_Inr [OF assms]
  show "sublist (writeQuotedPrintable (bd_Text b)) raw" if "hasContent (bd_Text b)"
    using r altText_carries [OF that, of d]
    by (auto split: if_splits intro!: mwClose_carries mwWrite_carries intro: mwCreatePart_carries)
  show "sublist (writeQuotedPrintable (bd_HTML b)) raw" if h: "hasContent (bd_HTML b)"
  proof (cases "related = []")
    case False
    then obtain raw' ph' where "buildRelated L d (bd_HTML b) related = Inr (raw', ph')"
        "raw = mwClose (mwWrite raw' (mwCreatePart ph' (altText d b)))" using r h by auto
    then show ?thesis using buildRelated_html by (auto intro!: mwClose_carries mwWrite_carries)
  qed (use r h in \<open>auto intro!: mwClose_carries mwWrite_carries\<close>)
  show "sublist (attachmentBody (at_Content a)) raw" if h: "hasContent (bd_HTML b)" and a: "a \<in> set related"
  proof -
    obtain raw' ph' where "buildRelated L d (bd_HTML b) related = Inr (raw', ph')"
        "raw = mwClose (mwWrite raw' (mwCreatePart ph' (altText d b)))" using r h a by (auto split: if_splits)
    then show ?thesis using buildRelated_inline a by (auto intro!: mwClose_carries mwWrite_carries)
  qed
qed

lemma writeAlternative_carries:
  assumes "writeAlternative L d hdr b related = Inr (hdr', body)"
  shows "hasContent (bd_Text b) \<Longrightarrow> sublist (writeQuotedPrintable (bd_Text b)) body"
    and "hasContent (bd_HTML b) \<Longrightarrow> sublist (writeQuotedPrintable (bd_HTML b)) body"
    and "hasContent (bd_HTML b) \<Longrightarrow> a \<in> set related \<Longrightarrow> sublist (attachmentBody (at_Content a)) body"
proof -
  consider "hasContent (bd_Text b)" "hasContent (bd_HTML b)" "\<exists>ph. buildAlternative L d b related = Inr (body, ph)"
    | "\<not> hasContent (bd_Text b)" "hasContent (bd_HTML b)" "related \<noteq> []" "\<exists>ph. buildRelated L d (bd_HTML b) related = Inr (body, ph)"
    | "\<not> hasContent (bd_Text b)" "hasContent (bd_HTML b)" "related = []" "body = writeQuotedPrintable (bd_HTML b)"
    | "\<not> hasContent (bd_HTML b)" "body = writeQuotedPrintable (bd_Text b)"
    using assms unfolding writeAlternative_def Let_def
    by (auto simp del: append.simps split: if_splits sum.splits prod.splits)
  note cases = this
  show "sublist (writeQuotedPrintable (bd_Text b)) body" if "hasContent (bd_Text b)"
    by (rule cases) (use that buildAlternative_carries(1) in auto)
  show "sublist (writeQuotedPrintable (bd_HTML b)) body" if "hasContent (bd_HTML b)"
    by (rule cases) (use that buildAlternative_carries(2) buildRelated_html in auto)
  show "sublist (attachmentBody (at_Content a)) body" if "hasContent (bd_HTML b)" "a \<in> set related"
    by (rule cases) (use that buildAlternative_carries(3) buildRelated_inline in auto)
qed

lemma assembleBody_cases:
  assumes "assembleBody L d msg hdr = Inr (hdr', body)"
  defines "b \<equiv> ms_Body msg"
  defines "isRelated \<equiv> \<lambda>a. hasContent (bd_HTML b) \<and> at_ContentID a \<noteq> [] \<and>
    EqualFold (mm_unicode L) (at_Disposition a) ''inline''"
  obtains (empty) "ms_Attachments msg = []" "\<not> hasContent (bd_Text b)" "\<not> hasContent (bd_HTML b)"
    | (alt) "\<forall>a\<in>set (ms_Attachments msg). isRelated a"
        "writeAlternative L d hdr b (filter isRelated (ms_Attachments msg)) = Inr (hdr', body)"
    | (mixed) w w' where "hasContent (bd_Text b) \<or> hasContent (bd_HTML b) \<Longrightarrow>
        \<exists>altBuf altHeader w0. buildAlternative L d b (filter isRelated (ms_Attachments msg)) = Inr (altBuf, altHeader)
          \<and> w = mwWrite altBuf w0"
        "writeAttachments L (filter (\<lambda>a. \<not> isRelated a) (ms_Attachments msg)) w = Inr w'" "body = mwClose w'"
proof -
  let ?reg = "filter (\<lambda>a. \<not> isRelated a) (ms_Attachments msg)"
  have i: "(hasContent (bd_HTML b) \<and> at_ContentID a \<noteq> [] \<and> EqualFold (mm_unicode L) (at_Disposition a) ''inline'')
      = isRelated a" for a by (simp add: isRelated_def)
  note d = assms(1) [unfolded assembleBody_def Let_def, folded b_def, unfolded i]
  show ?thesis
  proof (cases "?reg = []")
    case True
    then have rel: "\<forall>a\<in>set (ms_Attachments msg). isRelated a" by (auto simp: filter_empty_conv)
    show ?thesis
    proof (cases "hasContent (bd_Text b) \<or> hasContent (bd_HTML b)")
      case True
      then show ?thesis using alt rel d \<open>?reg = []\<close> by auto
    next
      case False
      then have "ms_Attachments msg = []" using rel by (cases "ms_Attachments msg") (auto simp: isRelated_def)
      then show ?thesis using empty False by blast
    qed
  next
    case False
    show ?thesis
    proof (cases "hasContent (bd_Text b) \<or> hasContent (bd_HTML b)")
      case True
      then obtain altBuf altHeader w' where
        "buildAlternative L d b (filter isRelated (ms_Attachments msg)) = Inr (altBuf, altHeader)"
        "writeAttachments L ?reg (mwWrite altBuf (mwCreatePart altHeader (mwNew (generateBoundary (dr_mixed d))))) = Inr w'"
        "body = mwClose w'"
        using d False by (simp split: sum.splits prod.splits)
      then show ?thesis using mixed by blast
    next
      case no: False
      then obtain w' where "writeAttachments L ?reg (mwNew (generateBoundary (dr_mixed d))) = Inr w'" "body = mwClose w'"
        using d False by (simp split: sum.splits prod.splits)
      then show ?thesis using mixed no by blast
    qed
  qed
qed

lemma assembleBody_carries:
  assumes "assembleBody L d msg hdr = Inr (hdr', body)"
  shows "list_all (\<lambda>s. sublist s body) (carried msg)"
  using assms
proof (cases rule: assembleBody_cases)
  case empty
  then show ?thesis by (simp add: carried_def)
next
  case alt
  then show ?thesis using writeAlternative_carries [OF alt(2)] by (auto simp: carried_def list_all_iff)
next
  case (mixed w w')
  have kept: "sublist x body" if "sublist x (mw_buf w)" for x
    using writeAttachments_carries [OF mixed(2)] that mwClose_carries mixed(3) by blast
  have reg: "sublist (attachmentBody (at_Content a)) body" if "a \<in> set (ms_Attachments msg)"
      "\<not> (hasContent (bd_HTML (ms_Body msg)) \<and> at_ContentID a \<noteq> [] \<and> EqualFold (mm_unicode L) (at_Disposition a) ''inline'')" for a
    unfolding mixed(3) by (rule mwClose_carries, rule writeAttachments_carries [OF mixed(2)]) (use that in auto)
  show ?thesis
  proof (cases "hasContent (bd_Text (ms_Body msg)) \<or> hasContent (bd_HTML (ms_Body msg))")
    case True
    then obtain altBuf altHeader w0 where alt: "buildAlternative L d (ms_Body msg) (filter (\<lambda>a. hasContent (bd_HTML (ms_Body msg)) \<and>
        at_ContentID a \<noteq> [] \<and> EqualFold (mm_unicode L) (at_Disposition a) ''inline'') (ms_Attachments msg)) = Inr (altBuf, altHeader)"
        "w = mwWrite altBuf w0" using mixed(1) by blast
    have k: "sublist x body" if "sublist x altBuf" for x
      using kept mwWrite_carries that alt(2) by blast
    show ?thesis using k buildAlternative_carries [OF alt(1)] reg unfolding carried_def list_all_iff by auto
  next
    case False
    then show ?thesis using reg unfolding carried_def list_all_iff by auto
  qed
qed

text \<open>A message of one text: what its content fields say and what its body decodes to.\<close>

lemma assembleBody_single:
  assumes "assembleBody L d msg hdr = Inr (hdr', body)" "ms_Attachments msg = []"
    and "\<not> (hasContent (bd_Text (ms_Body msg)) \<and> hasContent (bd_HTML (ms_Body msg)))"
  defines "html \<equiv> hasContent (bd_HTML (ms_Body msg))"
  defines "s \<equiv> if html then bd_HTML (ms_Body msg) else bd_Text (ms_Body msg)"
  shows "map_of hdr' ''Content-Type'' = Some (''text/'' @ (if html then ''html'' else ''plain'') @ ''; charset=utf-8'') \<and>
    (if hasContent s then map_of hdr' ''Content-Transfer-Encoding'' = Some ''quoted-printable'' \<and>
       decodeQP body = Some (wireText s) else body = [])"
  using assms(1-3) unfolding html_def s_def assembleBody_def writeAlternative_def Let_def writeQuotedPrintable_def
  by (auto simp: map_of_headerSet decode_writeQP split: if_splits)

lemma assembleFields_Inr:
  "assembleFields L d msg hdr0 = Inr out \<Longrightarrow> \<exists>hdr hdr' body out'.
     setHeaders (mm_unicode L) (ms_Headers msg) hdr0 = Inr hdr \<and> assembleBody L d msg hdr = Inr (hdr', body) \<and>
     writeHeaders (sort_key fst hdr') = Inr out' \<and> out = out' @ CR # LF # body"
  unfolding assembleFields_def by (simp split: sum.splits prod.splits)


definition sample_mime_lib :: mime_lib where
  "sample_mime_lib = \<lparr>mm_unicode = \<lparr>lower_rune = id, same_fold = (=)\<rparr>, mm_ParseMediaType = (\<lambda>_. None),
     mm_FormatMediaType = (\<lambda>_ _. [])\<rparr>"

definition sample_message :: Message where
  "sample_message = \<lparr>ms_MessageID = ''<1@x.io>'', ms_From = \<lparr>ad_Name = ''A'', ad_Address = ''a@x.io''\<rparr>,
     ms_To = [\<lparr>ad_Name = [], ad_Address = ''b@y.io''\<rparr>], ms_Cc = [], ms_Bcc = [], ms_Subject = ''Hi'',
     ms_Body = \<lparr>bd_Text = ''hello'', bd_HTML = []\<rparr>, ms_Attachments = [], ms_Headers = [(''x-tag'', ''t'')]\<rparr>"

definition sample_draws :: draws where
  "sample_draws = \<lparr>dr_id = [], dr_mixed = [], dr_alternative = [], dr_related = []\<rparr>"

lemma sample_assembles:
  "(case AssembleMessage sample_mime_lib sample_draws ''now'' (Some sample_message) ''x.io'' of
     (Inr _, m) \<Rightarrow> m = ''<1@x.io>'' | _ \<Rightarrow> False)"
  by code_simp

lemma sample_content: "hasContent ''hello''" "\<not> hasContent []"
  by code_simp+


end
