(* ===== verification/Credential_Controller.thy ===== *)
theory Credential_Controller
  imports Credential_Guard Credential_Verifier
begin

text \<open>
  The MailCredential controller: \<^verbatim>\<open>internal/controller/mailcredential_controller.go\<close>,
  \<^verbatim>\<open>credential_guard.go\<close> and \<^verbatim>\<open>conditions.go\<close>.  The API server is a parameter: a state with the Secrets
  it holds and the operations the controller calls, whose documented behaviour is \<open>secret_api_ok\<close>.
  One reconcile is a pipeline of stages over the state of its local variables.
\<close>

section \<open>Conditions\<close>

fun setCondition :: "Condition list \<Rightarrow> Condition \<Rightarrow> Condition list" where
  "setCondition [] new = [new]"
| "setCondition (c # cs) new =
     (if cond_Type c = cond_Type new
      then (if cond_Status c = cond_Status new
            then new\<lparr>cond_LastTransitionTime := cond_LastTransitionTime c\<rparr> else new) # cs
      else c # setCondition cs new)"

text \<open>\<^verbatim>\<open>meta.RemoveStatusCondition\<close>.\<close>

definition removeCondition :: "Condition list \<Rightarrow> string \<Rightarrow> Condition list" where
  "removeCondition cs t = filter (\<lambda>c. cond_Type c \<noteq> t) cs"

section \<open>The guard's verdict\<close>

record guard_checker =
  gc_checked :: bool
  gc_err :: "guard_verify_error option"

text \<open>\<open>text\<close> is the text of an error; a nil checker is \<^term>\<open>None\<close>.\<close>

definition guard_OK :: "(guard_verify_error \<Rightarrow> string) \<Rightarrow> guard_checker option \<Rightarrow> bool \<times> string" where
  "guard_OK text g = (case g of None \<Rightarrow> (False, ''credential Secret guard is not being checked'')
    | Some g \<Rightarrow> if \<not> gc_checked g then (False, ''credential Secret guard not verified yet'')
        else (case gc_err g of
            Some e \<Rightarrow> (False, ''credential Secret guard missing or changed, refusing to write Secrets: '' @ text e)
          | None \<Rightarrow> (True, [])))"

text \<open>\<open>missing\<close> tells whether a failed lookup was answered with not found or forbidden.\<close>

definition definitive :: "(string \<Rightarrow> bool) \<Rightarrow> guard_verify_error \<Rightarrow> bool" where
  "definitive missing e = (case e of ErrGuardChanged _ \<Rightarrow> True | GuardLookup l \<Rightarrow> missing l)"

text \<open>The new checker and whether the verdict changed.\<close>

definition guard_Check ::
    "(guard_verify_error \<Rightarrow> string) \<Rightarrow> (string \<Rightarrow> bool) \<Rightarrow> guard_verify_error option \<Rightarrow> guard_checker
     \<Rightarrow> guard_checker \<times> bool" where
  "guard_Check text missing err g =
     (if (case err of None \<Rightarrow> False | Some e \<Rightarrow> gc_checked g \<and> \<not> definitive missing e) then (g, False)
      else (\<lparr>gc_checked = True, gc_err = err\<rparr>,
        \<not> gc_checked g \<or> (gc_err g = None) \<noteq> (err = None) \<or>
        (case (err, gc_err g) of (Some e, Some e') \<Rightarrow> text e \<noteq> text e' | _ \<Rightarrow> False)))"

abbreviation retryInterval :: duration where "retryInterval \<equiv> 30 * second"

text \<open>How long \<^verbatim>\<open>Start\<close> waits before the next check.\<close>

definition guard_wait :: "duration \<Rightarrow> bool \<Rightarrow> duration" where
  "guard_wait interval ok = (if \<not> ok \<and> retryInterval < interval \<or> interval \<le> 0 then retryInterval else interval)"

text \<open>\<^verbatim>\<open>requeueAll\<close>: the credentials that are queued again after a change.\<close>

definition requeueAll :: "MailCredential list \<Rightarrow> MailCredential list" where
  "requeueAll = filter Generated"

section \<open>Secrets\<close>

record stored_secret =
  ss_Labels :: "string \<rightharpoonup> string"
  ss_Annotations :: "string \<rightharpoonup> string"
  ss_OwnerReferences :: "OwnerReference list"
  ss_Type :: string
  ss_Data :: labels

datatype api_error = AlreadyExists | Invalid string | Conflict string | OtherStatus string bool | NoStatus string

text \<open>
  \<^verbatim>\<open>transient\<close>.  \<open>OtherStatus\<close> is any other API status; its flag tells whether it is a timeout,
  throttling, an unavailable or a failing server.  \<open>NoStatus\<close> is an error without an API status.
\<close>

fun transient :: "api_error \<Rightarrow> bool" where
  "transient (NoStatus _) = True"
| "transient (Conflict _) = True"
| "transient (OtherStatus _ t) = t"
| "transient AlreadyExists = False"
| "transient (Invalid _) = False"

text \<open>The operations of a JSON patch: a test of a string at a path, and the data to put at one.\<close>

datatype patch_op = Test string string | Add string labels

definition jsonPointerEscape :: "string \<Rightarrow> string" where
  "jsonPointerEscape s = concat (map (\<lambda>c. if c = CHR ''~'' then ''~0'' else if c = CHR ''/'' then ''~1'' else [c]) s)"

record 's secret_api =
  sa_get :: "'s \<Rightarrow> string \<Rightarrow> string \<Rightarrow> stored_secret option"
  sa_create :: "'s \<Rightarrow> string \<Rightarrow> string \<Rightarrow> stored_secret \<Rightarrow> 's \<times> api_error option"
  sa_patch :: "'s \<Rightarrow> string \<Rightarrow> string \<Rightarrow> patch_op list \<Rightarrow> 's \<times> api_error option"

record controller =
  ct_sha :: "bytes \<Rightarrow> bytes"
  ct_goDuration :: "string \<Rightarrow> duration option"
  ct_labelErrs :: "string \<Rightarrow> string list"
  ct_argonText :: "argon2_error \<Rightarrow> string"
  ct_rotationText :: "RotationError list \<Rightarrow> string"
  ct_apiText :: "api_error \<Rightarrow> string"
  ct_Exclusions :: Exclusions
  ct_GeneratedEnabled :: bool
  ct_SMTPHost :: string
  ct_SMTPPort :: int

definition secretData :: "controller \<Rightarrow> string \<Rightarrow> string \<Rightarrow> labels" where
  "secretData R username password = [(''username'', username), (''password'', password),
     (''host'', ct_SMTPHost R), (''port'', Itoa (ct_SMTPPort R))]"

definition newSecret :: "controller \<Rightarrow> MailCredential \<Rightarrow> labels \<Rightarrow> stored_secret" where
  "newSecret R mc data = \<lparr>ss_Labels = [CredentialLabel \<mapsto> mc_Name mc],
     ss_Annotations = [CredentialUIDAnnotation \<mapsto> om_UID (mc_Meta mc)],
     ss_OwnerReferences = [\<lparr>or_APIVersion = ''sigillum.dev/v1alpha1'', or_Kind = ''MailCredential'',
       or_Name = mc_Name mc, or_UID = om_UID (mc_Meta mc), or_Controller = True\<rparr>],
     ss_Type = ''Opaque'', ss_Data = data\<rparr>"

definition secretPatch :: "MailCredential \<Rightarrow> labels \<Rightarrow> patch_op list" where
  "secretPatch mc data =
     [Test (''/metadata/labels/'' @ jsonPointerEscape CredentialLabel) (mc_Name mc),
      Test (''/metadata/annotations/'' @ jsonPointerEscape CredentialUIDAnnotation) (om_UID (mc_Meta mc)),
      Add ''/data'' data]"

text \<open>The state of the API server, whether the name is taken by a foreign Secret, and the error.\<close>

definition writeSecret ::
    "controller \<Rightarrow> 's secret_api \<Rightarrow> MailCredential \<Rightarrow> string \<Rightarrow> string \<Rightarrow> 's \<Rightarrow> 's \<times> bool \<times> api_error option" where
  "writeSecret R A mc username password s =
     (let data = secretData R username password; ns = mc_Namespace mc; name = mcs_SecretName (mc_Spec mc) in
      case sa_create A s ns name (newSecret R mc data) of
        (s, Some AlreadyExists) \<Rightarrow>
          (case sa_patch A s ns name (secretPatch mc data) of (s, err) \<Rightarrow>
             (s, (case err of Some (Invalid _) \<Rightarrow> True | _ \<Rightarrow> False), err))
      | (s, err) \<Rightarrow> (s, False, err))"

section \<open>Rotation\<close>

definition rotationDue :: "MailCredential \<Rightarrow> time \<Rightarrow> duration \<Rightarrow> string" where
  "rotationDue mc now interval =
     (let st = mc_Status mc in
      case mst_Current st of None \<Rightarrow> ''initial''
      | Some cur \<Rightarrow>
         if mst_SecretName st \<noteq> mcs_SecretName (mc_Spec mc) then ''secretName changed''
         else if (case map_of (om_Annotations (mc_Meta mc)) RotateAnnotation of None \<Rightarrow> False
                  | Some v \<Rightarrow> v \<noteq> [] \<and> v \<noteq> mst_LastRotateRequest st) then ''rotation requested''
         else if interval > 0 \<and> \<not> now < ch_CreatedAt cur + interval then ''rotation interval elapsed''
         else [])"

text \<open>With invalid settings, \<^verbatim>\<open>ParseRotation\<close> returns no interval beside its error.\<close>

definition rotationLooksDue :: "controller \<Rightarrow> MailCredential \<Rightarrow> time \<Rightarrow> bool" where
  "rotationLooksDue R mc now =
     (if \<not> Generated mc then False
      else rotationDue mc now (case ParseRotation (ct_goDuration R) (mcs_Rotation (mc_Spec mc)) of
        Inl _ \<Rightarrow> 0 | Inr (interval, _) \<Rightarrow> interval) \<noteq> [])"

definition minPositive :: "duration \<Rightarrow> duration \<Rightarrow> duration" where
  "minPositive a b = (if a \<le> 0 then b else if b \<le> 0 \<or> a < b then a else b)"

definition nextCredentialEvent :: "MailCredentialStatus \<Rightarrow> time \<Rightarrow> duration \<Rightarrow> duration" where
  "nextCredentialEvent st now interval =
     (let next = (case mst_Previous st of None \<Rightarrow> 0 | Some p \<Rightarrow> minPositive 0 (pch_ValidUntil p - now + second))
      in case mst_Current st of None \<Rightarrow> next
         | Some cur \<Rightarrow> if interval > 0 then minPositive next (ch_CreatedAt cur + interval - now + second) else next)"

section \<open>Reconcile\<close>

abbreviation secretConflictRequeue :: duration where "secretConflictRequeue \<equiv> minute"
abbreviation guardMissingRequeue :: duration where "guardMissingRequeue \<equiv> 5 * minute"

datatype sa_lookup = SAFound | SANotFound | SAError string

text \<open>What one reconcile reads: the clock, the ServiceAccount, the guard (twice) and a new password.\<close>

record inputs =
  in_now :: time
  in_ServiceAccount :: sa_lookup
  in_guard :: "bool \<times> string"
  in_guard2 :: "bool \<times> string"
  in_password :: "string option"

text \<open>The local variables of \<^verbatim>\<open>Reconcile\<close> and the state of the API server.\<close>

record 's locals =
  lo_mc :: MailCredential
  lo_ready :: bool
  lo_reason :: string
  lo_message :: string
  lo_finished :: bool
  lo_requeue :: duration
  lo_retErr :: "api_error option"
  lo_secretWritten :: bool
  lo_interval :: duration
  lo_grace :: duration
  lo_api :: 's

abbreviation lo_st :: "'s locals \<Rightarrow> MailCredentialStatus" where "lo_st l \<equiv> mc_Status (lo_mc l)"

definition setStatus :: "(MailCredentialStatus \<Rightarrow> MailCredentialStatus) \<Rightarrow> 's locals \<Rightarrow> 's locals" where
  "setStatus f l = l\<lparr>lo_mc := (lo_mc l)\<lparr>mc_Status := f (lo_st l)\<rparr>\<rparr>"

definition fail :: "string \<Rightarrow> string \<Rightarrow> 's locals \<Rightarrow> 's locals" where
  "fail rsn msg l = l\<lparr>lo_reason := rsn, lo_message := msg, lo_finished := True\<rparr>"

definition startLocals :: "MailCredential \<Rightarrow> 's \<Rightarrow> 's locals" where
  "startLocals mc s = setStatus (\<lambda>st. st\<lparr>mst_Username := Username (mc_Name mc) (mc_Namespace mc),
       mst_ObservedGeneration := om_Generation (mc_Meta mc)\<rparr>)
     \<lparr>lo_mc = mc, lo_ready = False, lo_reason = [], lo_message = [], lo_finished = False, lo_requeue = 0,
      lo_retErr = None, lo_secretWritten = False, lo_interval = 0, lo_grace = 0, lo_api = s\<rparr>"

definition checkExcluded :: "controller \<Rightarrow> 's locals \<Rightarrow> 's locals" where
  "checkExcluded R l = (if Excluded (ct_Exclusions R) (mc_Namespace (lo_mc l))
     then fail ''NamespaceExcluded'' (''namespace '' @ mc_Namespace (lo_mc l) @ '' may not hold mail credentials'') l
     else l)"

definition checkOwnHash :: "controller \<Rightarrow> 's locals \<Rightarrow> 's locals" where
  "checkOwnHash R l = (if \<not> lo_finished l \<and> \<not> Generated (lo_mc l) then
     let l = setStatus (\<lambda>st. st\<lparr>mst_SecretName := [], mst_Current := None, mst_Previous := None\<rparr>) l;
         spec = mc_Spec (lo_mc l) in
     (case ParseArgon2id (mcs_PasswordHash spec) of
        Inl e \<Rightarrow> fail ''InvalidConfiguration'' (''spec.passwordHash: '' @ ct_argonText R e) l
      | Inr _ \<Rightarrow> if mcs_SecretName spec \<noteq> [] \<or> mcs_Rotation spec \<noteq> None
          then fail ''InvalidConfiguration'' ''spec.passwordHash cannot be combined with spec.secretName or spec.rotation'' l
          else l)
     else l)"

definition checkSettings :: "controller \<Rightarrow> 's locals \<Rightarrow> 's locals" where
  "checkSettings R l =
     (let spec = mc_Spec (lo_mc l); nameErr = GeneratedNameError (ct_labelErrs R) (mc_Name (lo_mc l)) in
      if mcs_SecretName spec = []
      then fail ''InvalidConfiguration'' ''set spec.secretName (generated mode) or spec.passwordHash (bring your own hash)'' l
      else if nameErr \<noteq> [] then fail ''InvalidConfiguration'' nameErr l
      else case ParseRotation (ct_goDuration R) (mcs_Rotation spec) of
        Inl e \<Rightarrow> fail ''InvalidConfiguration'' (ct_rotationText R e) l
      | Inr (interval, grace) \<Rightarrow> l\<lparr>lo_interval := interval, lo_grace := grace\<rparr>)"

text \<open>After a switch from a hash of one's own, nothing of it is kept.\<close>

definition dropOwnHash :: "'s locals \<Rightarrow> 's locals" where
  "dropOwnHash l = (case mst_Current (lo_st l) of None \<Rightarrow> l
     | Some cur \<Rightarrow> if \<not> IsGeneratedHash (ch_Hash cur)
         then setStatus (\<lambda>st. st\<lparr>mst_Current := None, mst_Previous := None\<rparr>) l else l)"

definition checkGeneratedSpec :: "controller \<Rightarrow> 's locals \<Rightarrow> 's locals" where
  "checkGeneratedSpec R l = (if \<not> lo_finished l \<and> Generated (lo_mc l) then dropOwnHash (checkSettings R l) else l)"

definition checkServiceAccount :: "inputs \<Rightarrow> 's locals \<Rightarrow> string + 's locals" where
  "checkServiceAccount I l = (if lo_finished l then Inr l
     else case in_ServiceAccount I of
       SANotFound \<Rightarrow> Inr (fail ''ServiceAccountNotFound'' (''ServiceAccount '' @ mc_Namespace (lo_mc l) @ ''/''
         @ mcs_ServiceAccountName (mc_Spec (lo_mc l)) @ '' not found'') l)
     | SAError e \<Rightarrow> Inl e
     | SAFound \<Rightarrow> Inr l)"

text \<open>\<open>accepted\<close> is the current hash before this reconcile.\<close>

definition acceptOwnHash :: "inputs \<Rightarrow> CredentialHash option \<Rightarrow> 's locals \<Rightarrow> 's locals" where
  "acceptOwnHash I accepted l = (if \<not> lo_finished l \<and> \<not> Generated (lo_mc l) then
     let h = mcs_PasswordHash (mc_Spec (lo_mc l));
         created = (case accepted of Some a \<Rightarrow> if ch_Hash a = h then ch_CreatedAt a else in_now I | None \<Rightarrow> in_now I)
     in (setStatus (\<lambda>st. st\<lparr>mst_Current := Some \<lparr>ch_Hash = h, ch_CreatedAt = created\<rparr>\<rparr>) l)
        \<lparr>lo_ready := True, lo_reason := ''BringYourOwnHash'',
         lo_message := ''credential ready; password verified against spec.passwordHash'', lo_finished := True\<rparr>
     else l)"

definition keepOrFail :: "bool \<Rightarrow> string \<Rightarrow> string \<Rightarrow> 's locals \<Rightarrow> 's locals" where
  "keepOrFail usable rsn msg l = (if usable
     then l\<lparr>lo_message := ''password in Secret '' @ mst_SecretName (lo_st l) @ '' still valid, but rotation failed: '' @ msg\<rparr>
     else fail rsn msg l)"

definition conflictMessage :: "MailCredential \<Rightarrow> string" where
  "conflictMessage mc = ''Secret '' @ mc_Namespace mc @ ''/'' @ mcs_SecretName (mc_Spec mc)
     @ '' exists and is not owned by this MailCredential (only a Secret with the label '' @ CredentialLabel @ ''=''
     @ mc_Name mc @ '' and the annotation '' @ CredentialUIDAnnotation @ ''='' @ om_UID (mc_Meta mc)
     @ '' is updated); set spec.secretName to an unused name, or delete that Secret if nothing else uses it''"

text \<open>The new password is in the Secret: the status takes its hash and keeps the old one for the grace period.\<close>

definition recordPassword :: "controller \<Rightarrow> inputs \<Rightarrow> string \<Rightarrow> 's locals \<Rightarrow> 's locals" where
  "recordPassword R I password l =
     (let mc = lo_mc l in
      (setStatus (\<lambda>st. st\<lparr>
         mst_Previous := (case mst_Current st of
             Some cur \<Rightarrow> if lo_grace l > 0
               then Some \<lparr>pch_Hash = ch_Hash cur, pch_ValidUntil = in_now I + lo_grace l\<rparr> else None
           | None \<Rightarrow> None),
         mst_Current := Some \<lparr>ch_Hash = HashGenerated (ct_sha R) password, ch_CreatedAt = in_now I\<rparr>,
         mst_SecretName := mcs_SecretName (mc_Spec mc),
         mst_LastRotateRequest := (case map_of (om_Annotations (mc_Meta mc)) RotateAnnotation of
             None \<Rightarrow> [] | Some v \<Rightarrow> v)\<rparr>) l)\<lparr>lo_secretWritten := True\<rparr>)"

definition rotate :: "controller \<Rightarrow> 's secret_api \<Rightarrow> inputs \<Rightarrow> bool \<Rightarrow> 's locals \<Rightarrow> string + 's locals" where
  "rotate R A I usable l = (case in_password I of None \<Rightarrow> Inl ''generate password''
    | Some password \<Rightarrow>
       (case writeSecret R A (lo_mc l) (mst_Username (lo_st l)) password (lo_api l) of (s, conflict, err) \<Rightarrow>
          let l = l\<lparr>lo_api := s\<rparr> in
          Inr (if conflict then (keepOrFail usable ''SecretConflict'' (conflictMessage (lo_mc l)) l)
                 \<lparr>lo_requeue := secretConflictRequeue\<rparr>
               else case err of
                 Some e \<Rightarrow> (keepOrFail usable ''SecretWriteFailed'' (ct_apiText R e) l)\<lparr>lo_retErr := Some e\<rparr>
               | None \<Rightarrow> recordPassword R I password l)))"

definition expirePrevious :: "inputs \<Rightarrow> 's locals \<Rightarrow> 's locals" where
  "expirePrevious I l = (case mst_Previous (lo_st l) of None \<Rightarrow> l
    | Some p \<Rightarrow> if \<not> in_now I < pch_ValidUntil p then setStatus (\<lambda>st. st\<lparr>mst_Previous := None\<rparr>) l else l)"

definition generatedReady :: "inputs \<Rightarrow> 's locals \<Rightarrow> 's locals" where
  "generatedReady I l =
     (let l = (if lo_finished l then l
               else l\<lparr>lo_ready := True, lo_reason := ''Ready'',
                 lo_message := (if lo_message l = [] then ''credential ready; password in Secret '' @ mst_SecretName (lo_st l)
                   else lo_message l)\<rparr>)
      in l\<lparr>lo_requeue := minPositive (lo_requeue l) (nextCredentialEvent (lo_st l) (in_now I) (lo_interval l))\<rparr>)"

text \<open>The switch of generated mode.\<close>

definition issue :: "controller \<Rightarrow> 's secret_api \<Rightarrow> inputs \<Rightarrow> string \<Rightarrow> bool \<Rightarrow> 's locals \<Rightarrow> string + 's locals" where
  "issue R A I why usable l =
     (if \<not> ct_GeneratedEnabled R then Inr (fail ''GeneratedModeDisabled''
        ''generated credentials are disabled (chart credentials.enabled=false); use spec.passwordHash'' l)
      else if why = [] then Inr l
      else if \<not> fst (in_guard I) then
        Inr ((keepOrFail usable ''GuardMissing'' (snd (in_guard I)) l)\<lparr>lo_requeue := guardMissingRequeue\<rparr>)
      else rotate R A I usable l)"

definition generatedMode :: "controller \<Rightarrow> 's secret_api \<Rightarrow> inputs \<Rightarrow> 's locals \<Rightarrow> string + 's locals" where
  "generatedMode R A I l = (if lo_finished l then Inr l else
     let l = expirePrevious I l;
         why = rotationDue (lo_mc l) (in_now I) (lo_interval l);
         usable = (mst_Current (lo_st l) \<noteq> None \<and> mst_SecretName (lo_st l) \<noteq> [])
     in (case issue R A I why usable l of Inl e \<Rightarrow> Inl e | Inr l \<Rightarrow> Inr (generatedReady I l)))"

definition reportGuard :: "controller \<Rightarrow> inputs \<Rightarrow> 's locals \<Rightarrow> 's locals" where
  "reportGuard R I l = (if Generated (lo_mc l) \<and> ct_GeneratedEnabled R then
     setStatus (\<lambda>st. st\<lparr>mst_Conditions := setCondition (mst_Conditions st)
       \<lparr>cond_Type = ''SecretsManaged'', cond_Status = (if fst (in_guard2 I) then ''True'' else ''False''),
        cond_ObservedGeneration = om_Generation (mc_Meta (lo_mc l)), cond_LastTransitionTime = in_now I,
        cond_Reason = (if fst (in_guard2 I) then ''Ready'' else ''GuardMissing''),
        cond_Message = (if fst (in_guard2 I) then ''credential Secret guard verified'' else snd (in_guard2 I))\<rparr>\<rparr>) l
     else setStatus (\<lambda>st. st\<lparr>mst_Conditions := removeCondition (mst_Conditions st) ''SecretsManaged''\<rparr>) l)"

definition reportReady :: "inputs \<Rightarrow> 's locals \<Rightarrow> 's locals" where
  "reportReady I l =
     (let l = (if lo_ready l then setStatus (\<lambda>st. st\<lparr>mst_ServiceAccountName := mcs_ServiceAccountName (mc_Spec (lo_mc l))\<rparr>) l
               else l)
      in setStatus (\<lambda>st. st\<lparr>mst_Conditions := setCondition (mst_Conditions st)
        \<lparr>cond_Type = ''Ready'', cond_Status = (if lo_ready l then ''True'' else ''False''),
         cond_ObservedGeneration = om_Generation (mc_Meta (lo_mc l)), cond_LastTransitionTime = in_now I,
         cond_Reason = lo_reason l, cond_Message = lo_message l\<rparr>\<rparr>) l)"

text \<open>\<^verbatim>\<open>Reconcile\<close> from the object it decides on to the status it wants to write.\<close>

definition reconcileStatus ::
    "controller \<Rightarrow> 's secret_api \<Rightarrow> inputs \<Rightarrow> MailCredential \<Rightarrow> 's \<Rightarrow> string + 's locals" where
  "reconcileStatus R A I mc s =
     (case checkServiceAccount I (checkGeneratedSpec R (checkOwnHash R (checkExcluded R (startLocals mc s)))) of
        Inl e \<Rightarrow> Inl e
      | Inr l \<Rightarrow> (case generatedMode R A I (acceptOwnHash I (mst_Current (mc_Status mc)) l) of
          Inl e \<Rightarrow> Inl e
        | Inr l \<Rightarrow> Inr (reportReady I (reportGuard R I l))))"

section \<open>Writing the status\<close>

text \<open>
  One attempt of the retry loop: whether the context is alive, the fresh object (\<open>Inr None\<close>: not
  found) and the answer to the update.
\<close>

record attempt =
  at_alive :: bool
  at_latest :: "api_error + MailCredential option"
  at_update :: "api_error option"

text \<open>What an attempt does: the status it stored (if any) and its error.\<close>

definition tryStatus :: "string \<Rightarrow> MailCredentialStatus \<Rightarrow> attempt \<Rightarrow> MailCredential option \<times> api_error option" where
  "tryStatus uid status a = (case at_latest a of
     Inl e \<Rightarrow> (None, Some e)
   | Inr None \<Rightarrow> (None, None)
   | Inr (Some latest) \<Rightarrow> if om_UID (mc_Meta latest) \<noteq> uid then (None, None)
       else (case at_update a of None \<Rightarrow> (Some (latest\<lparr>mc_Status := status\<rparr>), None) | Some e \<Rightarrow> (None, Some e)))"

text \<open>\<^verbatim>\<open>retry.OnError\<close>: the attempts that are left, at most the six steps of the backoff.\<close>

fun retryStatus :: "string \<Rightarrow> MailCredentialStatus \<Rightarrow> attempt list \<Rightarrow> api_error \<Rightarrow> MailCredential option \<times> api_error option" where
  "retryStatus uid status [] e0 = (None, Some e0)"
| "retryStatus uid status (a # as) e0 = (case tryStatus uid status a of
     (w, None) \<Rightarrow> (w, None)
   | (w, Some e) \<Rightarrow> if at_alive a \<and> transient e then retryStatus uid status as e else (None, Some e))"

definition statusRetrySteps :: nat where "statusRetrySteps = 6"

definition updateStatus ::
    "MailCredential \<Rightarrow> bool \<Rightarrow> api_error option \<Rightarrow> attempt list \<Rightarrow> MailCredential option \<times> api_error option" where
  "updateStatus mc secretWritten first attempts = (case first of
     None \<Rightarrow> (Some mc, None)
   | Some e \<Rightarrow> if \<not> secretWritten then (None, Some e)
       else retryStatus (om_UID (mc_Meta mc)) (mc_Status mc) (take statusRetrySteps attempts) e)"

text \<open>The outcome of a reconcile: its error, the delay of the next one and the object it stored.\<close>

record 's reconciled =
  rc_err :: "(string + api_error) option"
  rc_requeue :: duration
  rc_stored :: "MailCredential option"
  rc_api :: 's

text \<open>\<open>first\<close> and \<open>attempts\<close> are the answers to the status writes.\<close>

definition reconcileObject ::
    "controller \<Rightarrow> 's secret_api \<Rightarrow> inputs \<Rightarrow> MailCredential \<Rightarrow> api_error option \<Rightarrow> attempt list \<Rightarrow> 's \<Rightarrow> 's reconciled" where
  "reconcileObject R A I mc first attempts s = (case reconcileStatus R A I mc s of
     Inl e \<Rightarrow> \<lparr>rc_err = Some (Inl e), rc_requeue = 0, rc_stored = None, rc_api = s\<rparr>
   | Inr l \<Rightarrow>
      let (stored, uerr) = (if mc_Status (lo_mc l) \<noteq> mc_Status mc \<or> lo_secretWritten l
            then updateStatus (lo_mc l) (lo_secretWritten l) first attempts else (None, None));
          err = (case uerr of None \<Rightarrow> lo_retErr l | Some e \<Rightarrow> Some e)
      in \<lparr>rc_err = map_option Inr err, rc_requeue = (if err = None then lo_requeue l else 0),
          rc_stored = stored, rc_api = lo_api l\<rparr>)"

text \<open>The cached copy and, when a password looks due, the fresh copy; \<^term>\<open>Inr None\<close> is not found.\<close>

definition Reconcile ::
    "controller \<Rightarrow> 's secret_api \<Rightarrow> inputs \<Rightarrow> string + MailCredential option \<Rightarrow> string + MailCredential option
     \<Rightarrow> api_error option \<Rightarrow> attempt list \<Rightarrow> 's \<Rightarrow> 's reconciled" where
  "Reconcile R A I cached fresh first attempts s =
     (let stop = (\<lambda>e. \<lparr>rc_err = e, rc_requeue = 0, rc_stored = None, rc_api = s\<rparr>) in
      case cached of Inl e \<Rightarrow> stop (Some (Inl e)) | Inr None \<Rightarrow> stop None
      | Inr (Some mc) \<Rightarrow>
         if \<not> rotationLooksDue R mc (in_now I) then reconcileObject R A I mc first attempts s
         else (case fresh of Inl e \<Rightarrow> stop (Some (Inl e)) | Inr None \<Rightarrow> stop None
           | Inr (Some mc) \<Rightarrow> reconcileObject R A I mc first attempts s))"

section \<open>The API server\<close>

text \<open>JSON pointers (RFC 6901): a path is split at its slashes, then \<^verbatim>\<open>~1\<close> is a slash and \<^verbatim>\<open>~0\<close> a tilde.\<close>

fun pointerUnescape :: "string \<Rightarrow> string" where
  "pointerUnescape [] = []"
| "pointerUnescape [c] = [c]"
| "pointerUnescape (c # d # s) = (if c = CHR ''~'' \<and> d = CHR ''0'' then CHR ''~'' # pointerUnescape s
     else if c = CHR ''~'' \<and> d = CHR ''1'' then CHR ''/'' # pointerUnescape s
     else c # pointerUnescape (d # s))"

definition patchHolds :: "stored_secret \<Rightarrow> patch_op \<Rightarrow> bool" where
  "patchHolds sec op = (case op of Add _ _ \<Rightarrow> True
     | Test path v \<Rightarrow> (case Split path CHR ''/'' of
         [r, m, f, k] \<Rightarrow> r = [] \<and> m = ''metadata'' \<and>
           (f = ''labels'' \<and> ss_Labels sec (pointerUnescape k) = Some v \<or>
            f = ''annotations'' \<and> ss_Annotations sec (pointerUnescape k) = Some v)
       | _ \<Rightarrow> False))"

fun patched :: "patch_op list \<Rightarrow> stored_secret \<Rightarrow> stored_secret" where
  "patched [] sec = sec"
| "patched (Add path d # ops) sec = patched ops (if path = ''/data'' then sec\<lparr>ss_Data := d\<rparr> else sec)"
| "patched (Test _ _ # ops) sec = patched ops sec"

definition put :: "(string \<Rightarrow> string \<Rightarrow> stored_secret option) \<Rightarrow> string \<Rightarrow> string \<Rightarrow> stored_secret
    \<Rightarrow> string \<Rightarrow> string \<Rightarrow> stored_secret option" where
  "put g ns n sec = g(ns := (g ns)(n \<mapsto> sec))"

text \<open>
  A Secret is created only under a free name; a patch changes only a Secret that passes its tests.
  A failed request changes nothing, except that its answer may be lost after it was carried out;
  the answers \<open>AlreadyExists\<close> and \<open>Invalid\<close> say that it was not.
\<close>

definition refused :: "api_error \<Rightarrow> bool" where
  "refused e = (case e of AlreadyExists \<Rightarrow> True | Invalid _ \<Rightarrow> True | _ \<Rightarrow> False)"

definition secret_api_ok :: "'s secret_api \<Rightarrow> bool" where
  "secret_api_ok A \<longleftrightarrow>
     (\<forall>s ns n sec s' e. sa_create A s ns n sec = (s', e) \<longrightarrow>
        sa_get A s' = sa_get A s \<and> e \<noteq> None \<or>
        sa_get A s ns n = None \<and> sa_get A s' = put (sa_get A s) ns n sec \<and> (case e of Some e \<Rightarrow> \<not> refused e | None \<Rightarrow> True)) \<and>
     (\<forall>s ns n ops s' e. sa_patch A s ns n ops = (s', e) \<longrightarrow>
        sa_get A s' = sa_get A s \<and> e \<noteq> None \<or>
        (\<exists>sec. sa_get A s ns n = Some sec \<and> list_all (patchHolds sec) ops \<and>
           sa_get A s' = put (sa_get A s) ns n (patched ops sec) \<and> (case e of Some e \<Rightarrow> \<not> refused e | None \<Rightarrow> True)))"

section \<open>Lemmas\<close>

lemma pointerUnescape_Escape: "pointerUnescape (jsonPointerEscape k) = k"
proof (induction k)
  case (Cons c k)
  have plain: "pointerUnescape (c # r) = c # pointerUnescape r" if "c \<noteq> CHR ''~''" for r
    using that by (cases r) auto
  show ?case using Cons by (auto simp: jsonPointerEscape_def plain)
qed (simp add: jsonPointerEscape_def)

definition ownsSecret :: "MailCredential \<Rightarrow> stored_secret \<Rightarrow> bool" where
  "ownsSecret mc sec \<longleftrightarrow> ss_Labels sec CredentialLabel = Some (mc_Name mc) \<and>
     ss_Annotations sec CredentialUIDAnnotation = Some (om_UID (mc_Meta mc))"

lemma secretPatch_eval:
  "list_all (patchHolds sec) (secretPatch mc data) \<longleftrightarrow> ownsSecret mc sec"
  "patched (secretPatch mc data) sec = sec\<lparr>ss_Data := data\<rparr>"
  by (simp_all add: secretPatch_def patchHolds_def jsonPointerEscape_def ownsSecret_def)

lemma put_simps: "put g ns n sec ns' n' = (if ns' = ns \<and> n' = n then Some sec else g ns' n')"
  by (simp add: put_def)

text \<open>What one call of \<^verbatim>\<open>writeSecret\<close> can do to the Secrets.\<close>

lemma writeSecret_effect:
  assumes "secret_api_ok A" "writeSecret R A mc u pw s = (s', conflict, err)"
  defines "g \<equiv> sa_get A s" and "ns \<equiv> mc_Namespace mc" and "n \<equiv> mcs_SecretName (mc_Spec mc)"
    and "d \<equiv> secretData R u pw"
  shows "sa_get A s' = g \<and> err \<noteq> None \<or>
    (\<exists>sec. sa_get A s' = put g ns n sec \<and> ss_Data sec = d \<and> ownsSecret mc sec \<and> \<not> conflict \<and>
      (g ns n = None \<and> sec = newSecret R mc d \<or>
       (\<exists>old. g ns n = Some old \<and> ownsSecret mc old \<and> sec = old\<lparr>ss_Data := d\<rparr>)))"
proof -
  obtain s1 e1 where c: "sa_create A s ns n (newSecret R mc d) = (s1, e1)" by force
  have law: "sa_get A s1 = g \<and> e1 \<noteq> None \<or> g ns n = None \<and> sa_get A s1 = put g ns n (newSecret R mc d) \<and>
      (case e1 of Some e \<Rightarrow> \<not> refused e | None \<Rightarrow> True)"
    using assms(1) c unfolding secret_api_ok_def g_def by blast
  have own: "ownsSecret mc (newSecret R mc d)" "ss_Data (newSecret R mc d) = d"
    by (simp_all add: ownsSecret_def newSecret_def)
  show ?thesis
  proof (cases "e1 = Some AlreadyExists")
    case False
    then have w: "s' = s1" "\<not> conflict" "err = e1"
      using assms(2) c unfolding writeSecret_def ns_def n_def d_def Let_def
      by (auto split: option.splits api_error.splits)
    then show ?thesis using law own by auto
  next
    case True
    then have same: "sa_get A s1 = g" using law by (auto simp: refused_def)
    obtain s2 e2 where p: "sa_patch A s1 ns n (secretPatch mc d) = (s2, e2)" by force
    have w: "s' = s2" "conflict = (case e2 of Some (Invalid _) \<Rightarrow> True | _ \<Rightarrow> False)" "err = e2"
      using assms(2) c p True unfolding writeSecret_def ns_def n_def d_def Let_def by auto
    have "sa_get A s2 = sa_get A s1 \<and> e2 \<noteq> None \<or> (\<exists>sec. sa_get A s1 ns n = Some sec \<and>
        list_all (patchHolds sec) (secretPatch mc d) \<and>
        sa_get A s2 = put (sa_get A s1) ns n (patched (secretPatch mc d) sec) \<and>
        (case e2 of Some e \<Rightarrow> \<not> refused e | None \<Rightarrow> True))"
      using assms(1) p unfolding secret_api_ok_def by blast
    then have "sa_get A s2 = g \<and> e2 \<noteq> None \<or> (\<exists>sec. g ns n = Some sec \<and> ownsSecret mc sec \<and>
        sa_get A s2 = put g ns n (sec\<lparr>ss_Data := d\<rparr>) \<and> (case e2 of Some e \<Rightarrow> \<not> refused e | None \<Rightarrow> True))"
      unfolding secretPatch_eval same .
    then show ?thesis
    proof
      assume "\<exists>sec. g ns n = Some sec \<and> ownsSecret mc sec \<and> sa_get A s2 = put g ns n (sec\<lparr>ss_Data := d\<rparr>) \<and>
        (case e2 of Some e \<Rightarrow> \<not> refused e | None \<Rightarrow> True)"
      then obtain sec where sec: "g ns n = Some sec" "ownsSecret mc sec"
        "sa_get A s2 = put g ns n (sec\<lparr>ss_Data := d\<rparr>)" "\<not> (\<exists>x. e2 = Some (Invalid x))"
        by (auto simp: refused_def split: option.splits api_error.splits)
      have "\<not> conflict" using w(2) sec(4) by (auto split: option.splits api_error.splits)
      moreover have "ownsSecret mc (sec\<lparr>ss_Data := d\<rparr>)" using sec(2) by (simp add: ownsSecret_def)
      ultimately show ?thesis using sec w(1) by auto
    qed (use w in auto)
  qed
qed

text \<open>What the stages leave alone.\<close>

lemma setStatus_frame [simp]:
  "mc_Meta (lo_mc (setStatus f l)) = mc_Meta (lo_mc l)" "mc_Spec (lo_mc (setStatus f l)) = mc_Spec (lo_mc l)"
  "lo_st (setStatus f l) = f (lo_st l)" "lo_ready (setStatus f l) = lo_ready l" "lo_reason (setStatus f l) = lo_reason l"
  "lo_message (setStatus f l) = lo_message l" "lo_finished (setStatus f l) = lo_finished l"
  "lo_requeue (setStatus f l) = lo_requeue l" "lo_retErr (setStatus f l) = lo_retErr l"
  "lo_secretWritten (setStatus f l) = lo_secretWritten l" "lo_interval (setStatus f l) = lo_interval l"
  "lo_grace (setStatus f l) = lo_grace l" "lo_api (setStatus f l) = lo_api l"
  by (simp_all add: setStatus_def)

lemma fail_frame [simp]:
  "lo_mc (fail r m l) = lo_mc l" "lo_ready (fail r m l) = lo_ready l" "lo_finished (fail r m l)"
  "lo_requeue (fail r m l) = lo_requeue l" "lo_retErr (fail r m l) = lo_retErr l"
  "lo_secretWritten (fail r m l) = lo_secretWritten l" "lo_interval (fail r m l) = lo_interval l"
  "lo_grace (fail r m l) = lo_grace l" "lo_api (fail r m l) = lo_api l"
  by (simp_all add: fail_def)

lemma keepOrFail_frame [simp]:
  "lo_mc (keepOrFail u r m l) = lo_mc l" "lo_ready (keepOrFail u r m l) = lo_ready l"
  "lo_finished (keepOrFail u r m l) = (lo_finished l \<or> \<not> u)" "lo_retErr (keepOrFail u r m l) = lo_retErr l"
  "lo_secretWritten (keepOrFail u r m l) = lo_secretWritten l" "lo_api (keepOrFail u r m l) = lo_api l"
  by (simp_all add: keepOrFail_def)

lemma Generated_spec: "mc_Spec a = mc_Spec b \<Longrightarrow> Generated a = Generated b"
  by (simp add: Generated_def)

definition prepared :: "controller \<Rightarrow> MailCredential \<Rightarrow> 's \<Rightarrow> 's locals" where
  "prepared R mc s = checkGeneratedSpec R (checkOwnHash R (checkExcluded R (startLocals mc s)))"

definition keeps :: "'s locals \<Rightarrow> 's locals \<Rightarrow> bool" where
  "keeps l l' \<longleftrightarrow> mc_Meta (lo_mc l') = mc_Meta (lo_mc l) \<and> mc_Spec (lo_mc l') = mc_Spec (lo_mc l) \<and>
     mst_Username (lo_st l') = mst_Username (lo_st l) \<and> mst_Conditions (lo_st l') = mst_Conditions (lo_st l) \<and>
     lo_api l' = lo_api l \<and> lo_secretWritten l' = lo_secretWritten l \<and> lo_retErr l' = lo_retErr l"

lemma keeps_trans: "keeps a b \<Longrightarrow> keeps b c \<Longrightarrow> keeps a c"
  by (simp add: keeps_def)

lemma keeps_refl [simp]: "keeps l l" by (simp add: keeps_def)

lemma keeps_settings: "keeps l (checkSettings R l)" "keeps l (dropOwnHash l)"
  by (simp_all add: keeps_def checkSettings_def dropOwnHash_def Let_def split: option.split sum.split)

lemma keeps_stages:
  "keeps l (checkExcluded R l)" "keeps l (checkOwnHash R l)" "keeps l (checkGeneratedSpec R l)"
  "keeps l (acceptOwnHash I acc l)" "keeps l (expirePrevious I l)" "keeps l (keepOrFail u rsn msg l)"
  "keeps l (generatedReady I l)"
proof -
  show "keeps l (checkGeneratedSpec R l)"
    unfolding checkGeneratedSpec_def using keeps_settings keeps_trans by fastforce
qed (simp_all add: keeps_def checkExcluded_def checkOwnHash_def acceptOwnHash_def
      expirePrevious_def keepOrFail_def generatedReady_def Let_def split: option.split sum.split)

lemma keeps_prepared: "keeps (startLocals mc s) (prepared R mc s)"
  unfolding prepared_def by (meson keeps_stages keeps_trans)

lemma startLocals_simps [simp]:
  "mc_Meta (lo_mc (startLocals mc s)) = mc_Meta mc" "mc_Spec (lo_mc (startLocals mc s)) = mc_Spec mc"
  "mst_Username (lo_st (startLocals mc s)) = Username (mc_Name mc) (mc_Namespace mc)"
  "lo_api (startLocals mc s) = s" "\<not> lo_secretWritten (startLocals mc s)" "lo_retErr (startLocals mc s) = None"
  "\<not> lo_ready (startLocals mc s)" "\<not> lo_finished (startLocals mc s)"
  "mst_Conditions (lo_st (startLocals mc s)) = mst_Conditions (mc_Status mc)"
  "mst_Current (lo_st (startLocals mc s)) = mst_Current (mc_Status mc)"
  "mst_Previous (lo_st (startLocals mc s)) = mst_Previous (mc_Status mc)"
  "mst_SecretName (lo_st (startLocals mc s)) = mst_SecretName (mc_Status mc)"
  "mst_LastRotateRequest (lo_st (startLocals mc s)) = mst_LastRotateRequest (mc_Status mc)"
  by (simp_all add: startLocals_def)

lemma prepared_simps [simp]:
  "mc_Meta (lo_mc (prepared R mc s)) = mc_Meta mc" "mc_Spec (lo_mc (prepared R mc s)) = mc_Spec mc"
  "mst_Username (lo_st (prepared R mc s)) = Username (mc_Name mc) (mc_Namespace mc)"
  "lo_api (prepared R mc s) = s" "\<not> lo_secretWritten (prepared R mc s)" "lo_retErr (prepared R mc s) = None"
  "mst_Conditions (lo_st (prepared R mc s)) = mst_Conditions (mc_Status mc)"
  "Generated (lo_mc (prepared R mc s)) = Generated mc"
  using keeps_prepared [of mc s R] by (simp_all add: keeps_def Generated_def)

text \<open>A generated credential that passed the checks of its spec.\<close>

lemma prepared_generated:
  assumes "\<not> lo_finished (prepared R mc s)" "Generated mc"
  shows "\<not> Excluded (ct_Exclusions R) (mc_Namespace mc)" "mcs_SecretName (mc_Spec mc) \<noteq> []"
    "ParseRotation (ct_goDuration R) (mcs_Rotation (mc_Spec mc)) =
       Inr (lo_interval (prepared R mc s), lo_grace (prepared R mc s))"
    "\<not> lo_ready (prepared R mc s)"
    "mst_Current (lo_st (prepared R mc s)) = (case mst_Current (mc_Status mc) of None \<Rightarrow> None
       | Some cur \<Rightarrow> if IsGeneratedHash (ch_Hash cur) then Some cur else None)"
    "mst_SecretName (lo_st (prepared R mc s)) = mst_SecretName (mc_Status mc)"
    "mst_LastRotateRequest (lo_st (prepared R mc s)) = mst_LastRotateRequest (mc_Status mc)"
proof -
  let ?l = "startLocals mc s"
  have g: "Generated (lo_mc ?l)" using assms(2) by (simp add: Generated_def)
  show ex: "\<not> Excluded (ct_Exclusions R) (mc_Namespace mc)"
  proof
    assume "Excluded (ct_Exclusions R) (mc_Namespace mc)"
    then have "lo_finished (checkExcluded R ?l)" by (simp add: checkExcluded_def)
    then have "lo_finished (prepared R mc s)" by (simp add: prepared_def checkOwnHash_def checkGeneratedSpec_def)
    then show False using assms(1) by simp
  qed
  then have eq: "prepared R mc s = checkGeneratedSpec R ?l"
    using g by (simp add: prepared_def checkExcluded_def checkOwnHash_def)
  have fin: "lo_finished (dropOwnHash l) = lo_finished l" "lo_ready (dropOwnHash l) = lo_ready l"
    "lo_interval (dropOwnHash l) = lo_interval l" "lo_grace (dropOwnHash l) = lo_grace l" for l :: "'a locals"
    by (simp_all add: dropOwnHash_def split: option.split)
  have "\<not> lo_finished (checkSettings R ?l)" using assms(1) g by (simp add: eq checkGeneratedSpec_def fin)
  then have settings: "mcs_SecretName (mc_Spec mc) \<noteq> []"
      "ParseRotation (ct_goDuration R) (mcs_Rotation (mc_Spec mc)) = Inr (lo_interval (checkSettings R ?l), lo_grace (checkSettings R ?l))"
      "lo_mc (checkSettings R ?l) = lo_mc ?l" "\<not> lo_ready (checkSettings R ?l)"
    by (auto simp: checkSettings_def Let_def split: if_splits sum.splits)
  show "mcs_SecretName (mc_Spec mc) \<noteq> []"
    "ParseRotation (ct_goDuration R) (mcs_Rotation (mc_Spec mc)) =
       Inr (lo_interval (prepared R mc s), lo_grace (prepared R mc s))"
    "\<not> lo_ready (prepared R mc s)"
    "mst_Current (lo_st (prepared R mc s)) = (case mst_Current (mc_Status mc) of None \<Rightarrow> None
       | Some cur \<Rightarrow> if IsGeneratedHash (ch_Hash cur) then Some cur else None)"
    "mst_SecretName (lo_st (prepared R mc s)) = mst_SecretName (mc_Status mc)"
    "mst_LastRotateRequest (lo_st (prepared R mc s)) = mst_LastRotateRequest (mc_Status mc)"
    using assms(1) g unfolding eq checkGeneratedSpec_def
    by (simp_all add: settings fin) (simp_all add: settings dropOwnHash_def split: option.split)
qed

text \<open>How a reconcile of a generated credential ends; \<open>l1\<close> is the state before the password is due.\<close>

definition due :: "controller \<Rightarrow> inputs \<Rightarrow> MailCredential \<Rightarrow> 's \<Rightarrow> 's locals" where
  "due R I mc s = expirePrevious I (prepared R mc s)"

lemma keeps_due: "keeps (prepared R mc s) (due R I mc s)"
  by (simp add: due_def keeps_stages)

lemma due_simps [simp]:
  "mc_Meta (lo_mc (due R I mc s)) = mc_Meta mc" "mc_Spec (lo_mc (due R I mc s)) = mc_Spec mc"
  "mst_Username (lo_st (due R I mc s)) = Username (mc_Name mc) (mc_Namespace mc)"
  "lo_api (due R I mc s) = s" "\<not> lo_secretWritten (due R I mc s)" "lo_retErr (due R I mc s) = None"
  "mst_Conditions (lo_st (due R I mc s)) = mst_Conditions (mc_Status mc)"
  "Generated (lo_mc (due R I mc s)) = Generated mc"
  "mst_Current (lo_st (due R I mc s)) = mst_Current (lo_st (prepared R mc s))"
  "mst_SecretName (lo_st (due R I mc s)) = mst_SecretName (lo_st (prepared R mc s))"
  "mst_LastRotateRequest (lo_st (due R I mc s)) = mst_LastRotateRequest (lo_st (prepared R mc s))"
  "lo_interval (due R I mc s) = lo_interval (prepared R mc s)" "lo_grace (due R I mc s) = lo_grace (prepared R mc s)"
  "lo_finished (due R I mc s) = lo_finished (prepared R mc s)" "lo_ready (due R I mc s) = lo_ready (prepared R mc s)"
  using keeps_due [of R mc s I]
  by (simp_all add: keeps_def Generated_def due_def expirePrevious_def split: option.split)

definition finishGenerated :: "controller \<Rightarrow> inputs \<Rightarrow> 's locals \<Rightarrow> 's locals" where
  "finishGenerated R I l = reportReady I (reportGuard R I (generatedReady I l))"

lemma finish_frame [simp]:
  "lo_api (finishGenerated R I l) = lo_api l" "lo_secretWritten (finishGenerated R I l) = lo_secretWritten l"
  "mc_Meta (lo_mc (finishGenerated R I l)) = mc_Meta (lo_mc l)" "mc_Spec (lo_mc (finishGenerated R I l)) = mc_Spec (lo_mc l)"
  "mst_Current (lo_st (finishGenerated R I l)) = mst_Current (lo_st l)"
  "mst_Previous (lo_st (finishGenerated R I l)) = mst_Previous (lo_st l)"
  "mst_Username (lo_st (finishGenerated R I l)) = mst_Username (lo_st l)"
  "mst_SecretName (lo_st (finishGenerated R I l)) = mst_SecretName (lo_st l)"
  "mst_LastRotateRequest (lo_st (finishGenerated R I l)) = mst_LastRotateRequest (lo_st l)"
  by (simp_all add: finishGenerated_def reportReady_def reportGuard_def generatedReady_def Let_def)

lemma ready_stages:
  "lo_ready (checkExcluded R l) = lo_ready l" "lo_ready (checkOwnHash R l) = lo_ready l"
  "lo_ready (dropOwnHash l) = lo_ready l" "lo_ready (checkSettings R l) = lo_ready l"
  by (simp_all add: checkExcluded_def checkOwnHash_def checkSettings_def dropOwnHash_def Let_def
      split: option.split sum.split)

lemma prepared_not_ready [simp]: "\<not> lo_ready (prepared R mc s)"
  by (simp add: prepared_def ready_stages checkGeneratedSpec_def)

lemma prepared_own:
  assumes "\<not> lo_finished (prepared R mc s)" "\<not> Generated mc"
  shows "mst_Previous (lo_st (prepared R mc s)) = None"
proof -
  let ?o = "checkOwnHash R (checkExcluded R (startLocals mc s))"
  have "\<not> Generated (lo_mc ?o)" using assms(2) keeps_stages(1,2)
    by (metis Generated_spec keeps_def startLocals_simps(2))
  then have eq: "prepared R mc s = ?o" by (simp add: prepared_def checkGeneratedSpec_def)
  have "\<not> lo_finished (checkExcluded R (startLocals mc s))"
    using assms(1) unfolding eq by (auto simp: checkOwnHash_def)
  then show ?thesis unfolding eq using assms(2)
    by (auto simp: checkOwnHash_def checkExcluded_def Let_def Generated_def split: sum.split if_splits)
qed

text \<open>A reconcile that ends before generated mode; it is ready only with the hash of its spec.\<close>

definition endsEarly :: "controller \<Rightarrow> inputs \<Rightarrow> MailCredential \<Rightarrow> 's \<Rightarrow> 's locals \<Rightarrow> bool" where
  "endsEarly R I mc s l0 \<longleftrightarrow> keeps (prepared R mc s) l0 \<and> lo_finished l0 \<and>
     (lo_ready l0 \<longrightarrow> \<not> Generated mc \<and> mst_Previous (lo_st l0) = None \<and>
        (\<exists>cur. mst_Current (lo_st l0) = Some cur \<and> ch_Hash cur = mcs_PasswordHash (mc_Spec mc)))"

abbreviation usableBefore :: "controller \<Rightarrow> inputs \<Rightarrow> MailCredential \<Rightarrow> 's \<Rightarrow> bool" where
  "usableBefore R I mc s \<equiv> mst_Current (lo_st (due R I mc s)) \<noteq> None \<and> mst_SecretName (lo_st (due R I mc s)) \<noteq> []"

abbreviation whyDue :: "controller \<Rightarrow> inputs \<Rightarrow> MailCredential \<Rightarrow> 's \<Rightarrow> string" where
  "whyDue R I mc s \<equiv> rotationDue (lo_mc (due R I mc s)) (in_now I) (lo_interval (prepared R mc s))"

text \<open>The ways through generated mode that write no Secret.\<close>

definition keptAs :: "controller \<Rightarrow> inputs \<Rightarrow> MailCredential \<Rightarrow> 's \<Rightarrow> 's locals \<Rightarrow> bool" where
  "keptAs R I mc s l' \<longleftrightarrow>
     l' = due R I mc s \<and> whyDue R I mc s = [] \<or>
     (\<exists>m. l' = fail ''GeneratedModeDisabled'' m (due R I mc s)) \<or>
     (\<exists>m. l' = (keepOrFail (usableBefore R I mc s) ''GuardMissing'' m (due R I mc s))\<lparr>lo_requeue := guardMissingRequeue\<rparr>)"

lemma generatedMode_cases:
  assumes "generatedMode R A I (prepared R mc s) = Inr l'" "\<not> lo_finished (prepared R mc s)"
  shows "(\<exists>k. keptAs R I mc s k \<and> l' = generatedReady I k) \<or>
    ct_GeneratedEnabled R \<and> fst (in_guard I) \<and> whyDue R I mc s \<noteq> [] \<and>
    (\<exists>k. rotate R A I (usableBefore R I mc s) (due R I mc s) = Inr k \<and> l' = generatedReady I k)"
proof -
  have iv: "lo_interval (due R I mc s) = lo_interval (prepared R mc s)" by simp
  obtain k where k: "issue R A I (whyDue R I mc s) (usableBefore R I mc s) (due R I mc s) = Inr k"
    "l' = generatedReady I k"
    using assms unfolding generatedMode_def Let_def due_def [symmetric] iv by (simp split: sum.splits)
  then show ?thesis unfolding issue_def keptAs_def by (auto split: if_splits)
qed

lemma reconcileStatus_cases:
  assumes "reconcileStatus R A I mc s = Inr l"
  obtains (early) l0 where "endsEarly R I mc s l0" "l = reportReady I (reportGuard R I l0)"
    | (kept) k where "Generated mc" "\<not> lo_finished (prepared R mc s)" "keptAs R I mc s k" "l = finishGenerated R I k"
    | (rotated) k where "Generated mc" "\<not> lo_finished (prepared R mc s)"
      "ct_GeneratedEnabled R" "fst (in_guard I)" "whyDue R I mc s \<noteq> []"
      "rotate R A I (usableBefore R I mc s) (due R I mc s) = Inr k" "l = finishGenerated R I k"
proof -
  let ?p = "prepared R mc s" and ?acc = "mst_Current (mc_Status mc)"
  obtain l1 l2 where l1: "checkServiceAccount I ?p = Inr l1"
    and l2: "generatedMode R A I (acceptOwnHash I ?acc l1) = Inr l2" and l: "l = reportReady I (reportGuard R I l2)"
    using assms unfolding reconcileStatus_def prepared_def [symmetric] by (auto split: sum.splits)
  have stop: thesis if "lo_finished l1" "keeps ?p l1" "\<not> lo_ready l1"
  proof -
    have "l2 = l1" using l2 that(1) by (simp add: acceptOwnHash_def generatedMode_def)
    then show thesis using early [of l1] that l by (simp add: endsEarly_def)
  qed
  show thesis
  proof (cases "lo_finished ?p")
    case True
    then have "l1 = ?p" using l1 by (simp add: checkServiceAccount_def)
    then show thesis using stop True by (simp add: keeps_def)
  next
    case False
    show thesis
    proof (cases "in_ServiceAccount I")
      case SANotFound
      then show thesis using l1 False stop by (auto simp: checkServiceAccount_def keeps_def)
    next
      case SAError
      then show thesis using l1 False by (simp add: checkServiceAccount_def)
    next
      case SAFound
      then have p: "l1 = ?p" using l1 False by (simp add: checkServiceAccount_def)
      show thesis
      proof (cases "Generated mc")
        case True
        then have "generatedMode R A I ?p = Inr l2" using l2 p by (simp add: acceptOwnHash_def)
        from generatedMode_cases [OF this False] show thesis
          using kept [OF True False] rotated [OF True False] l by (auto simp: finishGenerated_def)
      next
        case own: False
        let ?a = "acceptOwnHash I ?acc ?p"
        have fin: "lo_finished ?a" using own False by (simp add: acceptOwnHash_def Let_def)
        then have "l2 = ?a" using l2 p by (simp add: generatedMode_def)
        moreover have "endsEarly R I mc s ?a"
          using own False prepared_own [OF False own] fin keeps_stages(4) [of ?p I ?acc]
          by (simp add: endsEarly_def) (simp add: acceptOwnHash_def Let_def)
        ultimately show thesis using early l by blast
      qed
    qed
  qed
qed

lemma report_frame [simp]:
  "lo_api (reportReady I (reportGuard R I l)) = lo_api l"
  "lo_secretWritten (reportReady I (reportGuard R I l)) = lo_secretWritten l"
  "mc_Meta (lo_mc (reportReady I (reportGuard R I l))) = mc_Meta (lo_mc l)"
  "mc_Spec (lo_mc (reportReady I (reportGuard R I l))) = mc_Spec (lo_mc l)"
  "mst_Current (lo_st (reportReady I (reportGuard R I l))) = mst_Current (lo_st l)"
  "mst_Previous (lo_st (reportReady I (reportGuard R I l))) = mst_Previous (lo_st l)"
  "mst_Username (lo_st (reportReady I (reportGuard R I l))) = mst_Username (lo_st l)"
  by (simp_all add: reportReady_def reportGuard_def Let_def)

text \<open>The Ready condition and the ServiceAccount that a reconcile reports.\<close>

lemma Find_setCondition:
  "\<exists>c. FindStatusCondition (setCondition cs new) (cond_Type new) = Some c \<and> cond_Status c = cond_Status new"
  by (induction cs new rule: setCondition.induct) (auto simp: FindStatusCondition_def)

lemma reported_Ready:
  "\<exists>c. FindStatusCondition (mst_Conditions (lo_st (reportReady I l))) ''Ready'' = Some c \<and>
     cond_Status c = (if lo_ready l then ''True'' else ''False'')"
  using Find_setCondition [of "mst_Conditions (lo_st l)" "\<lparr>cond_Type = ''Ready'',
      cond_Status = (if lo_ready l then ''True'' else ''False''),
      cond_ObservedGeneration = om_Generation (mc_Meta (lo_mc l)), cond_LastTransitionTime = in_now I,
      cond_Reason = lo_reason l, cond_Message = lo_message l\<rparr>"]
  by (cases "lo_ready l") (simp_all add: reportReady_def Let_def)

lemma reported_ServiceAccount:
  "lo_ready l \<Longrightarrow> mst_ServiceAccountName (lo_st (reportReady I l)) = mcs_ServiceAccountName (mc_Spec (lo_mc l))"
  by (simp add: reportReady_def Let_def)

lemma ready_reportGuard [simp]:
  "lo_ready (reportGuard R I l) = lo_ready l" "mc_Spec (lo_mc (reportGuard R I l)) = mc_Spec (lo_mc l)"
  by (simp_all add: reportGuard_def)

lemma Usable_reported:
  assumes "lo_ready l"
    "Generated (lo_mc l) \<or> (\<exists>cur. mst_Current (lo_st l) = Some cur \<and> ch_Hash cur = mcs_PasswordHash (mc_Spec (lo_mc l)))"
  shows "Usable (lo_mc (reportReady I (reportGuard R I l)))"
proof -
  let ?m = "reportReady I (reportGuard R I l)"
  obtain c where "FindStatusCondition (mst_Conditions (lo_st ?m)) ''Ready'' = Some c" "cond_Status c = ''True''"
    using reported_Ready [of I "reportGuard R I l"] assms(1) by auto
  moreover have "mst_ServiceAccountName (lo_st ?m) = mcs_ServiceAccountName (mc_Spec (lo_mc ?m))"
    using reported_ServiceAccount [of "reportGuard R I l" I] assms(1) by simp
  moreover have "Generated (lo_mc ?m) = Generated (lo_mc l)" by (simp add: Generated_def)
  ultimately show ?thesis using assms(2) by (auto simp: Usable_def)
qed

text \<open>A reconcile that wrote a password recorded the one it put into the Secret.\<close>

lemma rotate_cases:
  assumes "rotate R A I usable l = Inr k"
  obtains pw s' conflict err where "in_password I = Some pw"
    "writeSecret R A (lo_mc l) (mst_Username (lo_st l)) pw (lo_api l) = (s', conflict, err)" "lo_api k = s'"
    "lo_secretWritten k \<longrightarrow> lo_secretWritten l \<or> \<not> conflict \<and> err = None \<and> k = recordPassword R I pw (l\<lparr>lo_api := s'\<rparr>)"
proof -
  obtain pw where pw: "in_password I = Some pw" using assms by (auto simp: rotate_def split: option.splits)
  obtain s' conflict err where w: "writeSecret R A (lo_mc l) (mst_Username (lo_st l)) pw (lo_api l) = (s', conflict, err)"
    by (metis prod_cases3)
  have "lo_api (recordPassword R I pw l') = lo_api l'" for l' :: "'a locals" by (simp add: recordPassword_def Let_def)
  then have "lo_api k = s'" "lo_secretWritten k \<longrightarrow> lo_secretWritten l \<or> \<not> conflict \<and> err = None \<and>
      k = recordPassword R I pw (l\<lparr>lo_api := s'\<rparr>)"
    using assms pw w unfolding rotate_def Let_def by (auto split: option.splits if_splits)
  then show thesis using that pw w by blast
qed

lemma written_rotated:
  assumes "reconcileStatus R A I mc s = Inr l" "lo_secretWritten l"
  obtains pw s' where "Generated mc" "\<not> lo_finished (prepared R mc s)" "in_password I = Some pw"
    "writeSecret R A (lo_mc (due R I mc s)) (Username (mc_Name mc) (mc_Namespace mc)) pw s = (s', False, None)"
    "l = finishGenerated R I (recordPassword R I pw ((due R I mc s)\<lparr>lo_api := s'\<rparr>))"
  using assms(1)
proof (cases rule: reconcileStatus_cases)
  case (early l0)
  then show thesis using assms(2) by (simp add: endsEarly_def keeps_def)
next
  case (kept k)
  then show thesis using assms(2) by (auto simp: keptAs_def)
next
  case (rotated k)
  from rotate_cases [OF rotated(6)] obtain pw s' conflict err where
    "in_password I = Some pw" "writeSecret R A (lo_mc (due R I mc s)) (Username (mc_Name mc) (mc_Namespace mc)) pw s = (s', conflict, err)"
    "lo_secretWritten k \<longrightarrow> \<not> conflict \<and> err = None \<and> k = recordPassword R I pw ((due R I mc s)\<lparr>lo_api := s'\<rparr>)"
    by (metis due_simps(3) due_simps(4) due_simps(5))
  then show thesis using that rotated assms(2) by simp
qed

lemma written_exists:
  assumes "secret_api_ok A" "reconcileStatus R A I mc s = Inr l" "lo_secretWritten l"
  shows "sa_get A (lo_api l) (mc_Namespace mc) (mcs_SecretName (mc_Spec mc)) \<noteq> None"
proof -
  from written_rotated [OF assms(2,3)] obtain pw s' where
    w: "writeSecret R A (lo_mc (due R I mc s)) (Username (mc_Name mc) (mc_Namespace mc)) pw s = (s', False, None)"
    and l: "l = finishGenerated R I (recordPassword R I pw ((due R I mc s)\<lparr>lo_api := s'\<rparr>))" by blast
  have "lo_api l = s'" by (simp add: l recordPassword_def Let_def)
  then show ?thesis using writeSecret_effect [OF assms(1) w] by (auto simp: put_simps)
qed

lemma recordPassword_frame [simp]:
  "mc_Meta (lo_mc (recordPassword R I pw l)) = mc_Meta (lo_mc l)" "mc_Spec (lo_mc (recordPassword R I pw l)) = mc_Spec (lo_mc l)"
  "mst_Username (lo_st (recordPassword R I pw l)) = mst_Username (lo_st l)"
  "mst_SecretName (lo_st (recordPassword R I pw l)) = mcs_SecretName (mc_Spec (lo_mc l))"
  "mst_Current (lo_st (recordPassword R I pw l)) = Some \<lparr>ch_Hash = HashGenerated (ct_sha R) pw, ch_CreatedAt = in_now I\<rparr>"
  "mst_Previous (lo_st (recordPassword R I pw l)) = (case mst_Current (lo_st l) of None \<Rightarrow> None
     | Some cur \<Rightarrow> if lo_grace l > 0 then Some \<lparr>pch_Hash = ch_Hash cur, pch_ValidUntil = in_now I + lo_grace l\<rparr> else None)"
  "mst_LastRotateRequest (lo_st (recordPassword R I pw l)) =
     (case map_of (om_Annotations (mc_Meta (lo_mc l))) RotateAnnotation of None \<Rightarrow> [] | Some v \<Rightarrow> v)"
  "lo_api (recordPassword R I pw l) = lo_api l" "lo_finished (recordPassword R I pw l) = lo_finished l"
  "lo_interval (recordPassword R I pw l) = lo_interval l"
  by (simp_all add: recordPassword_def Let_def split: option.split)

lemma finish_ready: "\<not> lo_finished l \<Longrightarrow> Generated (lo_mc l) \<Longrightarrow> Usable (lo_mc (finishGenerated R I l))"
  unfolding finishGenerated_def
  by (rule Usable_reported) (simp_all add: generatedReady_def Let_def)

lemma Reconcile_api:
  "rc_api (Reconcile R A I cached fresh first attempts s) = s \<or>
   (\<exists>mc l. (cached = Inr (Some mc) \<or> fresh = Inr (Some mc)) \<and> reconcileStatus R A I mc s = Inr l \<and>
      rc_api (Reconcile R A I cached fresh first attempts s) = lo_api l)"
proof -
  have "rc_api (reconcileObject R A I mc first attempts s) = s \<or>
      (\<exists>l. reconcileStatus R A I mc s = Inr l \<and> rc_api (reconcileObject R A I mc first attempts s) = lo_api l)" for mc
    by (simp add: reconcileObject_def Let_def case_prod_beta split: sum.split)
  then show ?thesis unfolding Reconcile_def Let_def by (auto split: sum.split option.split)
qed

lemma IsGeneratedHash_Hash: "IsGeneratedHash (HashGenerated sha pw)"
  by (simp add: IsGeneratedHash_def HashGenerated_def go_defs)

definition sameOwner :: "'s locals \<Rightarrow> 's locals \<Rightarrow> bool" where
  "sameOwner l l' \<longleftrightarrow> mc_Meta (lo_mc l') = mc_Meta (lo_mc l) \<and> mc_Spec (lo_mc l') = mc_Spec (lo_mc l) \<and>
     mst_Username (lo_st l') = mst_Username (lo_st l)"

lemma rotate_current:
  assumes "rotate R A I (usableBefore R I mc s) (due R I mc s) = Inr k"
  shows "sameOwner (due R I mc s) k" "\<not> lo_ready k"
    "\<not> lo_finished k \<Longrightarrow> mst_Current (lo_st k) = mst_Current (lo_st (due R I mc s)) \<and> mst_Current (lo_st k) \<noteq> None \<or>
       (\<exists>cur. mst_Current (lo_st k) = Some cur \<and> IsGeneratedHash (ch_Hash cur))"
proof -
  obtain pw where pw: "in_password I = Some pw" using assms by (auto simp: rotate_def split: option.splits)
  obtain s' conflict err where w: "writeSecret R A (lo_mc (due R I mc s)) (mst_Username (lo_st (due R I mc s))) pw
      (lo_api (due R I mc s)) = (s', conflict, err)"
    by (metis prod_cases3)
  let ?d = "(due R I mc s)\<lparr>lo_api := s'\<rparr>"
  have k: "k = (if conflict then (keepOrFail (usableBefore R I mc s) ''SecretConflict'' (conflictMessage (lo_mc ?d)) ?d)
        \<lparr>lo_requeue := secretConflictRequeue\<rparr>
      else case err of
          Some e \<Rightarrow> (keepOrFail (usableBefore R I mc s) ''SecretWriteFailed'' (ct_apiText R e) ?d)\<lparr>lo_retErr := Some e\<rparr>
        | None \<Rightarrow> recordPassword R I pw ?d)"
    using assms pw w unfolding rotate_def Let_def by simp
  have rp: "sameOwner (due R I mc s) (recordPassword R I pw ?d)" "lo_ready (recordPassword R I pw ?d) = lo_ready (due R I mc s)"
    by (simp_all add: sameOwner_def) (simp add: recordPassword_def Let_def)
  have "sameOwner (due R I mc s) k \<and> \<not> lo_ready k \<and>
    (\<not> lo_finished k \<longrightarrow> mst_Current (lo_st k) = mst_Current (lo_st (due R I mc s)) \<and> mst_Current (lo_st k) \<noteq> None \<or>
       (\<exists>cur. mst_Current (lo_st k) = Some cur \<and> IsGeneratedHash (ch_Hash cur)))"
  proof (cases "conflict \<or> err \<noteq> None")
    case True
    then show ?thesis using k by (cases conflict; cases err) (auto simp: sameOwner_def simp del: due_simps(9))
  next
    case False
    then show ?thesis using k rp by (simp add: IsGeneratedHash_Hash)
  qed
  then show "sameOwner (due R I mc s) k" "\<not> lo_ready k"
    "\<not> lo_finished k \<Longrightarrow> mst_Current (lo_st k) = mst_Current (lo_st (due R I mc s)) \<and> mst_Current (lo_st k) \<noteq> None \<or>
       (\<exists>cur. mst_Current (lo_st k) = Some cur \<and> IsGeneratedHash (ch_Hash cur))" by blast+
qed

lemma finished_typed:
  assumes "Generated mc" "\<not> lo_finished (prepared R mc s)" "sameOwner (due R I mc s) k" "\<not> lo_ready k"
    and "\<not> lo_finished k \<Longrightarrow> mst_Current (lo_st k) = mst_Current (lo_st (due R I mc s)) \<and> mst_Current (lo_st k) \<noteq> None \<or>
       (\<exists>cur. mst_Current (lo_st k) = Some cur \<and> IsGeneratedHash (ch_Hash cur))"
    and "l = finishGenerated R I k"
    and "FindStatusCondition (mst_Conditions (lo_st l)) ''Ready'' = Some c" "cond_Status c = ''True''"
  shows "Usable (lo_mc l) \<and> mst_Username (lo_st l) = Username (mc_Name mc) (mc_Namespace mc) \<and>
    (\<exists>cur. mst_Current (lo_st l) = Some cur \<and> IsGeneratedHash (ch_Hash cur))"
proof -
  obtain c' where "FindStatusCondition (mst_Conditions (lo_st l)) ''Ready'' = Some c'"
      "cond_Status c' = (if lo_ready (generatedReady I k) then ''True'' else ''False'')"
    using reported_Ready [of I "reportGuard R I (generatedReady I k)"] assms(6) by (auto simp: finishGenerated_def)
  then have fin: "\<not> lo_finished k"
    using assms(4,7,8) by (auto simp: generatedReady_def Let_def split: if_splits)
  have gen: "Generated (lo_mc k)" using assms(1,3) by (simp add: sameOwner_def Generated_def)
  have "\<exists>cur. mst_Current (lo_st k) = Some cur \<and> IsGeneratedHash (ch_Hash cur)"
    using assms(5) [OF fin] prepared_generated(5) [OF assms(2,1)] by (auto split: option.splits if_splits)
  then show ?thesis using finish_ready [OF fin gen, of R I] assms(3) by (simp add: assms(6) sameOwner_def)
qed

section \<open>Properties\<close>

text \<open>C5. The controller changes no Secret but the one its credential names, and that one only if it is
  new or carries the credential's label and UID: whatever the API server answers, a Secret that
  changed belongs to the credential, whose namespace is not excluded, and the guard was in place.\<close>

theorem reconcile_writes_only_owned:
  assumes "secret_api_ok A"
    "sa_get A (rc_api (Reconcile R A I cached fresh first attempts s)) ns n \<noteq> sa_get A s ns n"
  shows "\<exists>mc sec. (cached = Inr (Some mc) \<or> fresh = Inr (Some mc)) \<and> ns = mc_Namespace mc \<and>
    n = mcs_SecretName (mc_Spec mc) \<and> Generated mc \<and> \<not> Excluded (ct_Exclusions R) ns \<and>
    ct_GeneratedEnabled R \<and> fst (in_guard I) \<and>
    (case sa_get A s ns n of None \<Rightarrow> True | Some old \<Rightarrow> ownsSecret mc old) \<and>
    sa_get A (rc_api (Reconcile R A I cached fresh first attempts s)) ns n = Some sec \<and> ownsSecret mc sec"
proof -
  obtain mc l where mc: "cached = Inr (Some mc) \<or> fresh = Inr (Some mc)" and l: "reconcileStatus R A I mc s = Inr l"
    and api: "rc_api (Reconcile R A I cached fresh first attempts s) = lo_api l"
    using Reconcile_api [of R A I cached fresh first attempts s] assms(2) by metis
  from l show ?thesis
  proof (cases rule: reconcileStatus_cases)
    case (early l0)
    then show ?thesis using assms(2) api by (simp add: endsEarly_def keeps_def)
  next
    case (kept k)
    then show ?thesis using assms(2) api by (auto simp: keptAs_def)
  next
    case (rotated k)
    from rotate_cases [OF rotated(6)] obtain pw s' conflict err where
      w: "writeSecret R A (lo_mc (due R I mc s)) (Username (mc_Name mc) (mc_Namespace mc)) pw s = (s', conflict, err)"
      and k: "lo_api k = s'" by (metis due_simps(3) due_simps(4))
    have own: "ownsSecret (lo_mc (due R I mc s)) sec = ownsSecret mc sec" for sec by (simp add: ownsSecret_def)
    from writeSecret_effect [OF assms(1) w, simplified own] assms(2) api k rotated(7)
    have ch: "ns = mc_Namespace mc" "n = mcs_SecretName (mc_Spec mc)"
      "case sa_get A s ns n of None \<Rightarrow> True | Some old \<Rightarrow> ownsSecret mc old"
      "\<exists>sec. sa_get A (lo_api l) ns n = Some sec \<and> ownsSecret mc sec"
      by (auto simp: put_simps split: if_splits)
    then show ?thesis using mc rotated prepared_generated(1) [OF rotated(2,1)] api by (metis (no_types, lifting))
  qed
qed

text \<open>C6. A password that the controller put into a Secret logs in: after a reconcile that wrote one,
  the Secret holds a user name and a password that the login check accepts against the status to
  be written, as the credential's ServiceAccount.\<close>

theorem issued_password_logs_in:
  assumes "secret_api_ok A" "reconcileStatus R A I mc s = Inr l" "lo_secretWritten l"
    and "in_password I \<noteq> Some []" "\<forall>b. length (ct_sha R b) = 32"
  shows "\<exists>sec pw r. sa_get A (lo_api l) (mc_Namespace mc) (mcs_SecretName (mc_Spec mc)) = Some sec \<and>
    map_of (ss_Data sec) ''username'' = Some (mst_Username (lo_st l)) \<and> map_of (ss_Data sec) ''password'' = Some pw \<and>
    Usable (lo_mc l) \<and> snd (Check (ct_sha R) idKey L c now slot (lo_mc l) pw) = Inr r \<and>
    r_ServiceAccount r = mcs_ServiceAccountName (mc_Spec mc) \<and> \<not> r_Previous r"
proof -
  from written_rotated [OF assms(2,3)] obtain pw s' where w: "Generated mc" "\<not> lo_finished (prepared R mc s)"
    "in_password I = Some pw"
    "writeSecret R A (lo_mc (due R I mc s)) (Username (mc_Name mc) (mc_Namespace mc)) pw s = (s', False, None)"
    and l: "l = finishGenerated R I (recordPassword R I pw ((due R I mc s)\<lparr>lo_api := s'\<rparr>))" by blast
  from writeSecret_effect [OF assms(1) w(4)] obtain sec where
    sec: "sa_get A s' (mc_Namespace mc) (mcs_SecretName (mc_Spec mc)) = Some sec"
    "ss_Data sec = secretData R (Username (mc_Name mc) (mc_Namespace mc)) pw"
    by (auto simp: put_simps)
  have gen: "Generated (lo_mc l)" using w(1) by (simp add: l Generated_def)
  have "Usable (lo_mc l)" unfolding l by (rule finish_ready) (use w in \<open>simp_all add: Generated_def\<close>)
  moreover have "VerifyGenerated (ct_sha R) (HashGenerated (ct_sha R) pw) pw"
    using VerifyGenerated_Hash [of "ct_sha R" pw pw] assms(5) by simp
  then have "\<exists>r. snd (Check (ct_sha R) idKey L c now slot (lo_mc l) pw) = Inr r \<and>
      r_ServiceAccount r = mcs_ServiceAccountName (mc_Spec mc) \<and> \<not> r_Previous r"
    using gen w(3) assms(4) by (simp add: Check_def Let_def checkGenerated_def) (simp add: l)
  ultimately show ?thesis using sec by (auto simp: l secretData_def)
qed

text \<open>C20. A rotation locks nobody out: the password that was current stays valid as the previous one
  until the grace period ends, and when the grace period is zero it is refused at once.\<close>

theorem rotation_keeps_old_password:
  assumes "reconcileStatus R A I mc s = Inr l" "lo_secretWritten l"
    and "mst_Current (mc_Status mc) = Some cur" "VerifyGenerated (ct_sha R) (ch_Hash cur) old"
    and "ParseRotation (ct_goDuration R) (mcs_Rotation (mc_Spec mc)) = Inr (interval, grace)"
    and "in_password I = Some pw" "ct_sha R old \<noteq> ct_sha R pw" "\<forall>b. length (ct_sha R b) = 32"
  shows "checkGenerated (ct_sha R) t (lo_mc l) old =
    (if 0 < grace \<and> t < in_now I + grace then Some (ch_Hash cur, True) else None)"
proof -
  from written_rotated [OF assms(1,2)] obtain pw' s' where w: "Generated mc" "\<not> lo_finished (prepared R mc s)"
    "in_password I = Some pw'"
    and l: "l = finishGenerated R I (recordPassword R I pw' ((due R I mc s)\<lparr>lo_api := s'\<rparr>))" by blast
  note p = prepared_generated [OF w(2,1)]
  have "IsGeneratedHash (ch_Hash cur)" using assms(4) by (rule VerifyGenerated_prefix)
  then have cur: "mst_Current (lo_st (prepared R mc s)) = Some cur" using p(5) assms(3) by simp
  have "lo_grace (prepared R mc s) = grace" using p(3) assms(5) by simp
  moreover have "\<not> VerifyGenerated (ct_sha R) (HashGenerated (ct_sha R) pw) old"
    using VerifyGenerated_Hash [of "ct_sha R" pw old] assms(7,8) by auto
  ultimately show ?thesis using assms(4,6) w(3) cur by (simp add: checkGenerated_def l)
qed

text \<open>C21. Rotation settles: after a reconcile that wrote a password, no password is due for the same spec
  and annotations until the rotation interval has passed, so the control loop does not rotate again.\<close>

theorem rotation_settles:
  assumes "reconcileStatus R A I mc s = Inr l" "lo_secretWritten l"
    and "ParseRotation (ct_goDuration R) (mcs_Rotation (mc_Spec mc)) = Inr (interval, grace)"
    and "0 < interval \<longrightarrow> t < in_now I + interval"
  shows "\<not> rotationLooksDue R (lo_mc l) t \<and> mc_Spec (lo_mc l) = mc_Spec mc \<and> mc_Meta (lo_mc l) = mc_Meta mc"
proof -
  from written_rotated [OF assms(1,2)] obtain pw s' where w: "Generated mc" "\<not> lo_finished (prepared R mc s)"
    and l: "l = finishGenerated R I (recordPassword R I pw ((due R I mc s)\<lparr>lo_api := s'\<rparr>))" by blast
  have "rotationDue (lo_mc l) t interval = []"
    using assms(4) by (simp add: rotationDue_def l split: option.split)
  then show ?thesis using assms(3) by (simp add: rotationLooksDue_def) (simp add: l)
qed

text \<open>C22. The status a reconcile writes is well typed: if it says Ready, its user name is the canonical
  one and its ServiceAccount that of the spec; a credential with its own hash has exactly that hash
  and no previous one, and a generated credential has a current hash of the generated kind.\<close>

theorem reconcile_status_typed:
  assumes "reconcileStatus R A I mc s = Inr l"
    and "FindStatusCondition (mst_Conditions (lo_st l)) ''Ready'' = Some c" "cond_Status c = ''True''"
  shows "Usable (lo_mc l) \<and> mst_Username (lo_st l) = Username (mc_Name mc) (mc_Namespace mc) \<and>
    (\<exists>cur. mst_Current (lo_st l) = Some cur \<and>
      (if Generated mc then IsGeneratedHash (ch_Hash cur)
       else ch_Hash cur = mcs_PasswordHash (mc_Spec mc) \<and> mst_Previous (lo_st l) = None))"
  using assms(1)
proof (cases rule: reconcileStatus_cases)
  case (early l0)
  obtain c' where "FindStatusCondition (mst_Conditions (lo_st l)) ''Ready'' = Some c'"
      "cond_Status c' = (if lo_ready l0 then ''True'' else ''False'')"
    using reported_Ready [of I "reportGuard R I l0"] early(2) by auto
  then have "lo_ready l0" using assms(2,3) by (auto split: if_splits)
  then show ?thesis using early Usable_reported [of l0 I R]
    by (auto simp: endsEarly_def keeps_def)
next
  case (kept k)
  have "mst_Current (lo_st (due R I mc s)) \<noteq> None" if "whyDue R I mc s = []"
    using that by (auto simp: rotationDue_def Let_def split: option.splits)
  then have k: "sameOwner (due R I mc s) k" "\<not> lo_ready k"
    "\<not> lo_finished k \<Longrightarrow> mst_Current (lo_st k) = mst_Current (lo_st (due R I mc s)) \<and> mst_Current (lo_st k) \<noteq> None"
    using kept(3) unfolding keptAs_def by (auto simp: sameOwner_def simp del: due_simps(9))
  then show ?thesis using finished_typed [OF kept(1,2) k(1,2) disjI1 [OF k(3)] kept(4) assms(2,3)] kept(1) by simp
next
  case (rotated k)
  from rotate_current [OF rotated(6)] show ?thesis
    using finished_typed [OF rotated(1,2) _ _ _ rotated(7) assms(2,3)] rotated(1) by simp
qed

text \<open>The request the guard sees for a write of the controller.\<close>

definition secretObject :: "stored_secret \<Rightarrow> secret_object" where
  "secretObject sec = \<lparr>so_Labels = Some (ss_Labels sec), so_Annotations = Some (ss_Annotations sec),
     so_OwnerReferences = Some (ss_OwnerReferences sec), so_Type = Some (ss_Type sec),
     so_DataKeys = Some (map fst (ss_Data sec))\<rparr>"

definition noObject :: secret_object where
  "noObject = \<lparr>so_Labels = None, so_Annotations = None, so_OwnerReferences = None, so_Type = None, so_DataKeys = None\<rparr>"

definition writeRequest :: "Guard \<Rightarrow> string \<Rightarrow> stored_secret option \<Rightarrow> stored_secret \<Rightarrow> write_request" where
  "writeRequest g ns old new = \<lparr>wr_Operation = (if old = None then ''CREATE'' else ''UPDATE''), wr_Namespace = ns,
     wr_Username = gd_ControllerUsername g, wr_Object = secretObject new,
     wr_OldObject = (case old of None \<Rightarrow> noObject | Some o' \<Rightarrow> secretObject o')\<rparr>"

lemmas request_eval = writeRequest_def secretObject_def celCredentialVar_def celUIDVar_def celOAuthBackendVar_def celOAuthUIDVar_def celEntry_def

text \<open>C23. The guard and the controller agree: both writes of \<^verbatim>\<open>writeSecret\<close>, the creation of a credential's
  Secret and the replacement of the data of one created before, pass the admission policy exactly
  when the namespace is not excluded, so a refusal means a foreign Secret or an excluded namespace.\<close>

theorem guard_admits_own_writes:
  assumes "mc_Name mc \<noteq> []" "om_UID (mc_Meta mc) \<noteq> []" "mc_Namespace mc \<noteq> []"
    and "sec = newSecret R mc (secretData R u pw)"
  shows "(guardAdmits g (writeRequest g (mc_Namespace mc) None sec) \<longleftrightarrow> \<not> Excluded (gd_Exclusions g) (mc_Namespace mc)) \<and>
    (guardAdmits g (writeRequest g (mc_Namespace mc) (Some sec) (sec\<lparr>ss_Data := secretData R u' pw'\<rparr>)) \<longleftrightarrow>
       \<not> Excluded (gd_Exclusions g) (mc_Namespace mc))"
proof -
  have admits: "guardAdmits g rq \<longleftrightarrow> \<not> Excluded (gd_Exclusions g) (mc_Namespace mc)"
    if "rq = writeRequest g (mc_Namespace mc) old new" "old = None \<or> old = Some sec"
      "new = sec \<or> new = sec\<lparr>ss_Data := secretData R u' pw'\<rparr>" for rq old new
  proof -
    have new: "ss_Labels new = ss_Labels sec" "ss_Annotations new = ss_Annotations sec" "ss_Type new = ''Opaque''"
      "ss_OwnerReferences new = ss_OwnerReferences sec" "map fst (ss_Data new) = credentialKeys"
      using that(3) assms(4) by (auto simp: newSecret_def secretData_def credentialKeys_def)
    have vars: "celCredentialVar rq = mc_Name mc" "celUIDVar rq = om_UID (mc_Meta mc)" "celOAuthBackendVar rq = []"
      "celOAuthUIDVar rq = []" "wr_Namespace rq = mc_Namespace mc" "wr_Username rq = gd_ControllerUsername g"
      unfolding that(1) by (simp_all add: request_eval new) (simp_all add: assms(4) newSecret_def)
    then have cred: "celIsCredentialVar rq" "wr_Namespace rq = mc_Namespace mc" using assms(1,2)
      by (simp_all add: celIsCredentialVar_def)
    have obj: "so_OwnerReferences (wr_Object rq) = Some (ss_OwnerReferences sec)"
      by (simp add: that(1) writeRequest_def secretObject_def new)
    have "celOwned rq" unfolding celOwned_def obj by (simp add: ownerMatches_def cred(1) vars assms(4) newSecret_def go_defs)
    moreover have "celSameOwner rq" unfolding celSameOwner_def vars
      using that(2) cred(1) by (auto simp: that(1) writeRequest_def secretObject_def celHas_def assms(4) newSecret_def)
    moreover have "celOpaque rq" "celDataKeys rq" using cred(1)
      by (simp_all add: celOpaque_def celDataKeys_def that(1) writeRequest_def secretObject_def new list_all_iff)
    moreover have "wr_Username rq = gd_ControllerUsername g" by (rule vars)
    ultimately show ?thesis using celNamespace_Excluded [of rq "gd_Exclusions g"] cred assms(3)
      by (simp add: guardAdmits_def celLabelled_def split_beta)
  qed
  show ?thesis using admits by blast
qed

text \<open>An attempt that found the credential deleted or replaced.\<close>

definition gone :: "string \<Rightarrow> attempt \<Rightarrow> bool" where
  "gone uid a = (case at_latest a of Inl _ \<Rightarrow> False | Inr None \<Rightarrow> True
     | Inr (Some latest) \<Rightarrow> om_UID (mc_Meta latest) \<noteq> uid)"

lemma retryStatus_outcome:
  assumes "retryStatus uid st as e = (w, err)"
  shows "case w of Some m \<Rightarrow> err = None \<and> mc_Status m = st \<and> om_UID (mc_Meta m) = uid
    | None \<Rightarrow> err \<noteq> None \<or> list_ex (gone uid) as"
  using assms
proof (induction as arbitrary: e)
  case (Cons a as)
  obtain w' e' where we: "tryStatus uid st a = (w', e')" by force
  then have t: "case w' of Some m \<Rightarrow> e' = None \<and> mc_Status m = st \<and> om_UID (mc_Meta m) = uid
      | None \<Rightarrow> e' \<noteq> None \<or> gone uid a"
    by (auto simp: tryStatus_def gone_def dest: sym split: sum.splits option.splits if_splits)
  show ?case
  proof (cases e')
    case None
    then show ?thesis using t we Cons.prems by (auto split: option.splits)
  next
    case (Some x)
    then show ?thesis using we Cons.prems Cons.IH [of x] by (auto split: option.splits if_splits)
  qed
qed auto

text \<open>A password in the Secret is not forgotten: when the status write after it reports success,
  the stored object has the new status, unless the credential was deleted or replaced meanwhile;
  without a new password a failed write is reported and left to the next reconcile.\<close>

theorem updateStatus_not_lost:
  "case updateStatus mc written first attempts of (stored, err) \<Rightarrow>
     (case stored of
        Some m \<Rightarrow> err = None \<and> mc_Status m = mc_Status mc \<and> om_UID (mc_Meta m) = om_UID (mc_Meta mc)
      | None \<Rightarrow> first \<noteq> None \<and> (case err of Some _ \<Rightarrow> True | None \<Rightarrow> written \<and> list_ex (gone (om_UID (mc_Meta mc))) attempts))"
proof (cases "first = None \<or> \<not> written")
  case True
  then show ?thesis by (auto simp: updateStatus_def split: option.split)
next
  case False
  then obtain e where e: "first = Some e" by auto
  obtain w err where r: "retryStatus (om_UID (mc_Meta mc)) (mc_Status mc) (take statusRetrySteps attempts) e = (w, err)"
    by force
  have "list_ex (gone uid) (take n attempts) \<Longrightarrow> list_ex (gone uid) attempts" for uid n
    by (auto simp: list_ex_iff dest: in_set_takeD)
  then show ?thesis using False e r retryStatus_outcome [OF r]
    by (auto simp: updateStatus_def split: option.splits)
qed

section \<open>Witnesses\<close>

text \<open>An API server that carries out every request it does not have to refuse.\<close>

definition sample_api :: "(string \<Rightarrow> string \<Rightarrow> stored_secret option) secret_api" where
  "sample_api = \<lparr>sa_get = (\<lambda>s. s),
     sa_create = (\<lambda>s ns n sec. if s ns n = None then (put s ns n sec, None) else (s, Some AlreadyExists)),
     sa_patch = (\<lambda>s ns n ops. case s ns n of None \<Rightarrow> (s, Some (NoStatus []))
       | Some sec \<Rightarrow> if list_all (patchHolds sec) ops then (put s ns n (patched ops sec), None) else (s, Some (Invalid [])))\<rparr>"

lemma sample_api_ok: "secret_api_ok sample_api"
  by (auto simp: secret_api_ok_def sample_api_def split: option.splits if_splits)

definition sample_sha32 :: "bytes \<Rightarrow> bytes" where
  "sample_sha32 b = take 32 (b @ replicate 32 NUL)"

lemma length_sample_sha32: "length (sample_sha32 b) = 32"
  by (simp add: sample_sha32_def)

definition sample_controller :: controller where
  "sample_controller = \<lparr>ct_sha = sample_sha32, ct_goDuration = (\<lambda>_. None), ct_labelErrs = (\<lambda>_. []),
     ct_argonText = (\<lambda>_. []), ct_rotationText = (\<lambda>_. []), ct_apiText = (\<lambda>_. []),
     ct_Exclusions = \<lparr>ex_Patterns = [], ex_ReleaseNamespace = ''sigillum''\<rparr>, ct_GeneratedEnabled = True,
     ct_SMTPHost = ''smtp'', ct_SMTPPort = 587\<rparr>"

definition sample_inputs :: "string \<Rightarrow> inputs" where
  "sample_inputs pw = \<lparr>in_now = 0, in_ServiceAccount = SAFound, in_guard = (True, []), in_guard2 = (True, []),
     in_password = Some pw\<rparr>"

definition sample_mc :: "string option \<Rightarrow> MailCredential" where
  "sample_mc old = sample_credential\<lparr>mc_Status := \<lparr>mst_Username = [], mst_SecretName = [], mst_ServiceAccountName = [],
     mst_Current = map_option (\<lambda>pw. \<lparr>ch_Hash = HashGenerated sample_sha32 pw, ch_CreatedAt = 0\<rparr>) old, mst_Previous = None,
     mst_LastRotateRequest = [], mst_Conditions = [], mst_ObservedGeneration = 0\<rparr>\<rparr>"

lemma sample_writes:
  "case reconcileStatus sample_controller sample_api (sample_inputs ''new'') (sample_mc (Some ''old'')) (\<lambda>_ _. None) of
     Inl _ \<Rightarrow> False
   | Inr l \<Rightarrow> lo_secretWritten l \<and>
      (case FindStatusCondition (mst_Conditions (lo_st l)) ''Ready'' of None \<Rightarrow> False | Some c \<Rightarrow> cond_Status c = ''True'')"
  by code_simp

lemma sample_reconciled:
  obtains l where "reconcileStatus sample_controller sample_api (sample_inputs ''new'') (sample_mc (Some ''old'')) (\<lambda>_ _. None) = Inr l"
    "lo_secretWritten l"
  using sample_writes by (auto split: sum.splits)

lemma sample_controller_simps:
  "ct_sha sample_controller = sample_sha32" "in_password (sample_inputs pw) = Some pw" "in_now (sample_inputs pw) = 0"
  "ParseRotation (ct_goDuration sample_controller) (mcs_Rotation (mc_Spec (sample_mc old))) = Inr (0, DefaultGracePeriod)"
  "mst_Current (mc_Status (sample_mc (Some pw))) = Some \<lparr>ch_Hash = HashGenerated sample_sha32 pw, ch_CreatedAt = 0\<rparr>"
  by (simp_all add: sample_controller_def sample_inputs_def sample_mc_def sample_credential_def ParseRotation_def)

theorem reconcile_writes_only_owned_witness:
  "\<exists>ns n. sa_get sample_api (rc_api (Reconcile sample_controller sample_api (sample_inputs ''new'')
      (Inr (Some (sample_mc (Some ''old'')))) (Inr (Some (sample_mc (Some ''old'')))) None [] (\<lambda>_ _. None))) ns n \<noteq> None \<and>
     ns = ''ns'' \<and> n = ''s''"
proof -
  obtain l where l: "reconcileStatus sample_controller sample_api (sample_inputs ''new'') (sample_mc (Some ''old'')) (\<lambda>_ _. None) = Inr l"
    "lo_secretWritten l" by (rule sample_reconciled)
  have api: "rc_api (Reconcile sample_controller sample_api (sample_inputs ''new'')
      (Inr (Some (sample_mc (Some ''old'')))) (Inr (Some (sample_mc (Some ''old'')))) None [] (\<lambda>_ _. None)) = lo_api l"
    by (simp add: Reconcile_def reconcileObject_def l(1) Let_def case_prod_beta)
  have "mc_Namespace (sample_mc (Some ''old'')) = ''ns''" "mcs_SecretName (mc_Spec (sample_mc (Some ''old''))) = ''s''"
    by (simp_all add: sample_mc_def sample_credential_def)
  with written_exists [OF sample_api_ok l] have "sa_get sample_api (lo_api l) ''ns'' ''s'' \<noteq> None" by simp
  moreover have "sa_get sample_api (\<lambda>_ _. None) ''ns'' ''s'' = None" by (simp add: sample_api_def)
  ultimately show ?thesis
    using reconcile_writes_only_owned [OF sample_api_ok, of sample_controller "sample_inputs ''new''"
        "Inr (Some (sample_mc (Some ''old'')))" "Inr (Some (sample_mc (Some ''old'')))" None "[]" "\<lambda>_ _. None" "''ns''" "''s''"]
    unfolding api by auto
qed

theorem issued_password_logs_in_witness:
  "\<exists>l sec. reconcileStatus sample_controller sample_api (sample_inputs ''new'') (sample_mc (Some ''old'')) (\<lambda>_ _. None) = Inr l \<and>
     sa_get sample_api (lo_api l) ''ns'' ''s'' = Some sec \<and> Usable (lo_mc l)"
proof -
  obtain l where l: "reconcileStatus sample_controller sample_api (sample_inputs ''new'') (sample_mc (Some ''old'')) (\<lambda>_ _. None) = Inr l"
    "lo_secretWritten l" by (rule sample_reconciled)
  have "mc_Namespace (sample_mc (Some ''old'')) = ''ns''" "mcs_SecretName (mc_Spec (sample_mc (Some ''old''))) = ''s''"
    by (simp_all add: sample_mc_def sample_credential_def)
  with issued_password_logs_in [where idKey = sample_idKey and L = sample_lru and c = "\<lambda>_. None" and now = 0 and slot = True,
      OF sample_api_ok l] l(1) show ?thesis
    by (auto simp: sample_controller_simps length_sample_sha32)
qed

theorem rotation_keeps_old_password_witness:
  "\<exists>l. reconcileStatus sample_controller sample_api (sample_inputs ''new'') (sample_mc (Some ''old'')) (\<lambda>_ _. None) = Inr l \<and>
     checkGenerated sample_sha32 1 (lo_mc l) ''old'' = Some (HashGenerated sample_sha32 ''old'', True)"
proof -
  obtain l where l: "reconcileStatus sample_controller sample_api (sample_inputs ''new'') (sample_mc (Some ''old'')) (\<lambda>_ _. None) = Inr l"
    "lo_secretWritten l" by (rule sample_reconciled)
  have v: "VerifyGenerated (ct_sha sample_controller) (HashGenerated sample_sha32 ''old'') ''old''"
    using VerifyGenerated_Hash [of sample_sha32 "''old''" "''old''"] length_sample_sha32 by (simp add: sample_controller_simps)
  have ne: "ct_sha sample_controller ''old'' \<noteq> ct_sha sample_controller ''new''"
    by (simp add: sample_controller_simps sample_sha32_def numeral_eq_Suc)
  from rotation_keeps_old_password [OF l sample_controller_simps(5) _ sample_controller_simps(4) sample_controller_simps(2) ne,
      of 1] v l(1) show ?thesis by (auto simp: sample_controller_simps length_sample_sha32)
qed

theorem rotation_settles_witness:
  "\<exists>l. reconcileStatus sample_controller sample_api (sample_inputs ''new'') (sample_mc (Some ''old'')) (\<lambda>_ _. None) = Inr l \<and>
     \<not> rotationLooksDue sample_controller (lo_mc l) 1"
proof -
  obtain l where l: "reconcileStatus sample_controller sample_api (sample_inputs ''new'') (sample_mc (Some ''old'')) (\<lambda>_ _. None) = Inr l"
    "lo_secretWritten l" by (rule sample_reconciled)
  from rotation_settles [OF l sample_controller_simps(4), of 1] l(1) show ?thesis by simp
qed

theorem reconcile_status_typed_witness:
  "\<exists>l. reconcileStatus sample_controller sample_api (sample_inputs ''new'') (sample_mc (Some ''old'')) (\<lambda>_ _. None) = Inr l \<and>
     Usable (lo_mc l) \<and> mst_Username (lo_st l) = Username ''app'' ''ns''"
proof -
  obtain l where l: "reconcileStatus sample_controller sample_api (sample_inputs ''new'') (sample_mc (Some ''old'')) (\<lambda>_ _. None) = Inr l"
    "case FindStatusCondition (mst_Conditions (lo_st l)) ''Ready'' of None \<Rightarrow> False | Some c \<Rightarrow> cond_Status c = ''True''"
    using sample_writes by (auto split: sum.splits)
  then obtain c where "FindStatusCondition (mst_Conditions (lo_st l)) ''Ready'' = Some c" "cond_Status c = ''True''"
    by (auto split: option.splits)
  from reconcile_status_typed [OF l(1) this] l(1) show ?thesis by (auto simp: sample_mc_def sample_credential_def)
qed

theorem guard_admits_own_writes_witness:
  "guardAdmits sample_guard (writeRequest sample_guard ''ns'' None
     (newSecret sample_controller (sample_mc None) (secretData sample_controller ''u'' ''p''))) \<longleftrightarrow>
   \<not> Excluded (gd_Exclusions sample_guard) ''ns''"
  using guard_admits_own_writes [of "sample_mc None" _ sample_controller "''u''" "''p''" sample_guard]
  by (simp add: sample_mc_def sample_credential_def)

end
