(* ===== verification/Rest_Api.thy ===== *)
theory Rest_Api
  imports Smtp_Session Driver_Mime
begin

text \<open>
  The REST transport: \<^verbatim>\<open>internal/apiserver/messages.go\<close> and \<^verbatim>\<open>internal/apiserver/problem\<close>.
  \<open>handleSendMessage\<close> turns a request into a message, refuses what the gateway must not see, hands the
  rest to \<open>Send\<close> and maps its result to an answer.  JSON, multipart framing, media types and
  \<^verbatim>\<open>net/mail\<close> are the parameters \<open>rest_lib\<close>, \<open>mail_lib\<close> and \<open>externals\<close>.  Shown: one audit record for every
  request, what holds of a message that reaches the gateway, that the Sender and Reply-To fields the
  driver writes are the ones that were checked in whatever order the header map is read, that
  the REST and SMTP answers agree, and what the size estimate leaves out.
\<close>

section \<open>Requests\<close>

record requestBodyContent =
  rbc_Text :: string
  rbc_HTML :: string

record requestAttachment =
  ra_Filename :: string
  ra_ContentType :: string
  ra_Disposition :: string
  ra_ContentID :: string
  ra_ContentBase64 :: string

record requestBody =
  rb_From :: string
  rb_To :: "string list"
  rb_Cc :: "string list"
  rb_Bcc :: "string list"
  rb_Subject :: string
  rb_Body :: requestBodyContent
  rb_Attachments :: "requestAttachment list"
  rb_Headers :: labels
  rb_ContentIDs :: labels

definition emptyBody :: requestBody where
  "emptyBody = \<lparr>rb_From = [], rb_To = [], rb_Cc = [], rb_Bcc = [], rb_Subject = [],
     rb_Body = \<lparr>rbc_Text = [], rbc_HTML = []\<rparr>, rb_Attachments = [], rb_Headers = [], rb_ContentIDs = []\<rparr>"

text \<open>
  What \<^verbatim>\<open>encoding/json\<close> reports: the end of the input, a value of another type (its path, the kind of
  the Go type and the JSON value), or another error.
\<close>

datatype kind = KString | KSlice | KMap | KStruct | KOther string

record type_error =
  te_Field :: string
  te_Kind :: kind
  te_Value :: string

datatype json_error = JsonEOF | JsonType type_error | JsonOther string

datatype payload_error =
    EmptyJSON | NotObject | TrailingData | WrongType string | BadJSON string
  | UnknownField string | UnknownFieldHint string string
  | BadAddress string | BadMailbox address_error | BadAddressHeader message_error | InHeader string payload_error
  | KeyChars | ValueChars string | LineTooLong string | GivenTwice string | NotAllowed string
  | FilenameChars string | FilenameControl string nat | TypeChars string | TypeInvalid string
  | BadDisposition string | NotInline string | ContentIDError content_id_error
  | BadBase64 nat string | ContentIDTwice string | PartTwice string | NoPart string
  | PartHasContentID string | PartContentID string content_id_error
  | TooLarge | NoMultipart string | PartFailed string | ReadFailed string string | TwoDataParts
  | NotFileHint string string | NotFile string | InDataPart payload_error | InPart string payload_error
  | InAttachment nat payload_error

text \<open>
  \<open>rl_DecodeTop\<close> and \<open>rl_DecodeBody\<close> decode one JSON value, as an object of raw values (its keys; \<^term>\<open>None\<close> is
  a JSON null) and, refusing unknown fields, as a request; the flag tells whether the input ends after it.
  \<open>rl_MediaType\<close> is the media type and whether \<^verbatim>\<open>mime.ParseMediaType\<close> had no error.
\<close>

record rest_lib =
  rl_externals :: externals
  rl_mail :: mail_lib
  rl_MediaType :: "string \<Rightarrow> string \<times> bool"
  rl_DecodeTop :: "bytes \<Rightarrow> json_error + (string list option \<times> bool)"
  rl_DecodeBody :: "bytes \<Rightarrow> json_error + (requestBody \<times> bool)"

abbreviation rl_unicode :: "rest_lib \<Rightarrow> unicode_tables" where "rl_unicode L \<equiv> x_unicode (rl_externals L)"

section \<open>Addresses and attachments\<close>

definition parseAddress :: "rest_lib \<Rightarrow> string \<Rightarrow> payload_error + string \<times> string" where
  "parseAddress L s = (case x_ParseAddress (rl_externals L) (TrimSpace s) of
     None \<Rightarrow> Inl (BadAddress s)
   | Some a \<Rightarrow> (case ValidateMailbox (snd a) of Some e \<Rightarrow> Inl (BadMailbox e) | None \<Rightarrow> Inr a))"

fun parseAddressList :: "rest_lib \<Rightarrow> string list \<Rightarrow> payload_error + (string \<times> string) list" where
  "parseAddressList L [] = Inr []"
| "parseAddressList L (s # ss) = (case parseAddress L s of Inl e \<Rightarrow> Inl e
     | Inr a \<Rightarrow> (case parseAddressList L ss of Inl e \<Rightarrow> Inl e | Inr as \<Rightarrow> Inr (a # as)))"

definition toDriverAddress :: "string \<times> string \<Rightarrow> Address" where
  "toDriverAddress a = \<lparr>ad_Name = fst a, ad_Address = snd a\<rparr>"

fun decodeAttachmentsFrom :: "nat \<Rightarrow> requestAttachment list \<Rightarrow> payload_error + Attachment list" where
  "decodeAttachmentsFrom i [] = Inr []"
| "decodeAttachmentsFrom i (a # as) = (case decodeStd64 stdAlphabet (ra_ContentBase64 a) of
     None \<Rightarrow> Inl (BadBase64 i (ra_Filename a))
   | Some raw \<Rightarrow> (case decodeAttachmentsFrom (i + 1) as of Inl e \<Rightarrow> Inl e
       | Inr out \<Rightarrow> Inr (\<lparr>at_Filename = ra_Filename a, at_ContentType = ra_ContentType a,
           at_Disposition = ra_Disposition a, at_ContentID = ra_ContentID a, at_Content = raw\<rparr> # out)))"

definition decodeAttachments :: "requestAttachment list \<Rightarrow> payload_error + Attachment list" where
  "decodeAttachments = decodeAttachmentsFrom 0"

section \<open>JSON\<close>

definition requestFields :: "string list" where
  "requestFields = [''from'', ''to'', ''cc'', ''bcc'', ''subject'', ''body'', ''attachments'', ''headers'', ''contentids'']"

definition misplacedFields :: "string \<Rightarrow> string option" where
  "misplacedFields = map_of [(''text'', ''body.text''), (''html'', ''body.html''),
     (''replyto'', ''headers[\"Reply-To\"]''), (''reply_to'', ''headers[\"Reply-To\"]''),
     (''sender'', ''headers[\"Sender\"]'')]"

definition fieldTypes :: "string \<Rightarrow> string option" where
  "fieldTypes = map_of [(''to'', ''an array of addresses (strings)''), (''cc'', ''an array of addresses (strings)''),
     (''bcc'', ''an array of addresses (strings)''), (''to[]'', ''an address (string)''),
     (''cc[]'', ''an address (string)''), (''bcc[]'', ''an address (string)''),
     (''body'', ''an object with text and/or html''), (''attachments'', ''an array of attachment objects''),
     (''headers'', ''an object of header names to string values'')]"

text \<open>The loop of \<^verbatim>\<open>jsonTypeError\<close> over the segments of the path: \<open>first\<close> is \<^verbatim>\<open>i == 0\<close>.\<close>

fun typePath :: "bool \<Rightarrow> string list \<Rightarrow> string \<times> string \<Rightarrow> string \<times> string" where
  "typePath first [] pk = pk"
| "typePath first (seg # segs) (path, key) =
     (if ParseInt64 seg \<noteq> None \<and> \<not> first \<and> key \<noteq> ''headers''
      then typePath False segs (path @ ''['' @ seg @ '']'', key @ ''[]'')
      else let dot = (if first then [] else ''.'') in typePath False segs (path @ dot @ seg, key @ dot @ seg))"

definition kindText :: "kind \<Rightarrow> string" where
  "kindText k = (case k of KString \<Rightarrow> ''a string'' | KSlice \<Rightarrow> ''an array'' | KMap \<Rightarrow> ''an object''
     | KStruct \<Rightarrow> ''an object'' | KOther s \<Rightarrow> ''a '' @ s)"

definition jsonTypeError :: "type_error \<Rightarrow> payload_error" where
  "jsonTypeError te =
     (if te_Field te = [] then NotObject
      else let (path, key) = typePath True (Split (te_Field te) CHR ''.'') ([], []);
               want = (case fieldTypes key of None \<Rightarrow> kindText (te_Kind te) | Some w \<Rightarrow> w);
               got = te_Value te;
               got = (if got = ''array'' \<or> got = ''object'' then ''an '' @ got
                      else if \<not> HasPrefix got ''number '' then ''a '' @ got else got)
           in WrongType (''`'' @ path @ ''` must be '' @ want @ '', not '' @ got))"

definition decodeOneJSON :: "json_error + ('v \<times> bool) \<Rightarrow> payload_error + 'v" where
  "decodeOneJSON r = (case r of
     Inl JsonEOF \<Rightarrow> Inl EmptyJSON
   | Inl (JsonType te) \<Rightarrow> Inl (jsonTypeError te)
   | Inl (JsonOther e) \<Rightarrow> Inl (BadJSON e)
   | Inr (v, atEnd) \<Rightarrow> if atEnd then Inr v else Inl TrailingData)"

text \<open>The loop over the sorted top-level keys.\<close>

fun unknownKey :: "unicode_tables \<Rightarrow> string list \<Rightarrow> payload_error option" where
  "unknownKey U [] = None"
| "unknownKey U (k # ks) =
     (if ToLower U k \<in> set requestFields then unknownKey U ks
      else case misplacedFields (ToLower U k) of
        Some want \<Rightarrow> Some (UnknownFieldHint k want) | None \<Rightarrow> Some (UnknownField k))"

definition decodeRequestJSON :: "rest_lib \<Rightarrow> bytes \<Rightarrow> payload_error + requestBody" where
  "decodeRequestJSON L data = (case decodeOneJSON (rl_DecodeTop L data) of
     Inl e \<Rightarrow> Inl e
   | Inr None \<Rightarrow> Inl NotObject
   | Inr (Some keys) \<Rightarrow> (case unknownKey (rl_unicode L) (sort keys) of
       Some e \<Rightarrow> Inl e
     | None \<Rightarrow> decodeOneJSON (rl_DecodeBody L data)))"

section \<open>Checks\<close>

definition requestHasContent :: "requestBodyContent \<Rightarrow> Attachment list \<Rightarrow> bool" where
  "requestHasContent b atts \<longleftrightarrow> TrimSpace (rbc_Text b) \<noteq> [] \<or> TrimSpace (rbc_HTML b) \<noteq> [] \<or>
     list_ex (\<lambda>a. at_Content a \<noteq> []) atts"

definition estimateSize :: "requestBody \<Rightarrow> Attachment list \<Rightarrow> int" where
  "estimateSize req atts = int (length (rb_Subject req)) +
     (\<Sum>(k, v)\<leftarrow>rb_Headers req. int (length k + length v)) +
     int (length (rbc_Text (rb_Body req))) + int (length (rbc_HTML (rb_Body req))) +
     (\<Sum>a\<leftarrow>atts. int (length (at_Content a)))"

definition maxRequestLine :: nat where "maxRequestLine = 998"

text \<open>The loop over the header map, in the order it is read; \<open>sofar\<close> are the canonical keys so far.\<close>

fun validateHeadersFrom :: "string list \<Rightarrow> labels \<Rightarrow> payload_error option" where
  "validateHeadersFrom sofar [] = None"
| "validateHeadersFrom sofar ((k, v) # h) =
     (if ContainsAny k [CR, LF, NUL] then Some KeyChars
      else if ContainsAny v [CR, LF, NUL] then Some (ValueChars k)
      else if length k + length '': '' + length v > maxRequestLine then Some (LineTooLong k)
      else let ck = canonicalKey k in
        if ck \<in> set sofar then Some (GivenTwice ck)
        else if HasPrefix ck ''Resent-'' then Some (NotAllowed ck)
        else validateHeadersFrom (ck # sofar) h)"

definition validateRequestHeaders :: "labels \<Rightarrow> payload_error option" where
  "validateRequestHeaders = validateHeadersFrom []"

text \<open>The addresses of a Reply-To list, checked one by one.\<close>

fun replyAddresses :: "string list \<Rightarrow> payload_error option" where
  "replyAddresses [] = None"
| "replyAddresses (a # as) = (case ValidateMailbox a of Some e \<Rightarrow> Some (BadMailbox e) | None \<Rightarrow> replyAddresses as)"

definition senderHeader :: "rest_lib \<Rightarrow> string \<Rightarrow> payload_error + string" where
  "senderHeader L v = (case parseAddress L v of Inl e \<Rightarrow> Inl e
     | Inr a \<Rightarrow> (case ValidateAddressHeader (rl_mail L) v 1 of
         Some e \<Rightarrow> Inl (BadAddressHeader e) | None \<Rightarrow> Inr (snd a)))"

definition replyToHeader :: "rest_lib \<Rightarrow> string \<Rightarrow> payload_error + string list" where
  "replyToHeader L v = (case ml_AddressList (rl_mail L) v of None \<Rightarrow> Inl (BadAddress v)
     | Some list \<Rightarrow> (case ValidateAddressHeader (rl_mail L) v (length list) of
         Some e \<Rightarrow> Inl (BadAddressHeader e)
       | None \<Rightarrow> (case replyAddresses list of Some e \<Rightarrow> Inl e | None \<Rightarrow> Inr list)))"

fun addressHeadersFrom :: "rest_lib \<Rightarrow> string \<times> string list \<Rightarrow> labels \<Rightarrow> payload_error + string \<times> string list" where
  "addressHeadersFrom L (sender, replyTo) [] = Inr (sender, replyTo)"
| "addressHeadersFrom L (sender, replyTo) ((k, v) # h) =
     (if canonicalKey k = ''Sender'' then (case senderHeader L v of
          Inl e \<Rightarrow> Inl (InHeader ''Sender'' e) | Inr a \<Rightarrow> addressHeadersFrom L (a, replyTo) h)
      else if canonicalKey k = ''Reply-To'' then (case replyToHeader L v of
          Inl e \<Rightarrow> Inl (InHeader ''Reply-To'' e) | Inr as \<Rightarrow> addressHeadersFrom L (sender, replyTo @ as) h)
      else addressHeadersFrom L (sender, replyTo) h)"

definition addressHeadersOf :: "rest_lib \<Rightarrow> labels \<Rightarrow> payload_error + string \<times> string list" where
  "addressHeadersOf L = addressHeadersFrom L ([], [])"

definition bidiControl :: "nat \<Rightarrow> bool" where
  "bidiControl r \<longleftrightarrow> 0x202A \<le> r \<and> r \<le> 0x202E \<or> 0x2066 \<le> r \<and> r \<le> 0x2069 \<or> r = 0x200E \<or> r = 0x200F"

definition firstBidiOrFormatControl :: "string \<Rightarrow> nat" where
  "firstBidiOrFormatControl s = (case filter bidiControl (runes s) of [] \<Rightarrow> 0 | r # _ \<Rightarrow> r)"

definition validateContentIDMeta :: "rest_lib \<Rightarrow> requestAttachment \<Rightarrow> payload_error option" where
  "validateContentIDMeta L a =
     (if ra_ContentID a = [] then None
      else if \<not> EqualFold (rl_unicode L) (ra_Disposition a) ''inline'' then Some (NotInline (ra_ContentID a))
      else map_option ContentIDError (ValidateContentID (ra_ContentID a)))"

definition validateAttachmentMeta :: "rest_lib \<Rightarrow> requestAttachment \<Rightarrow> payload_error option" where
  "validateAttachmentMeta L a =
     (if ContainsAny (ra_Filename a) [CR, LF, NUL] then Some (FilenameChars (ra_Filename a))
      else if firstBidiOrFormatControl (ra_Filename a) \<noteq> 0
        then Some (FilenameControl (ra_Filename a) (firstBidiOrFormatControl (ra_Filename a)))
      else if ContainsAny (ra_ContentType a) [CR, LF, NUL] then Some (TypeChars (ra_ContentType a))
      else if TrimSpace (ra_ContentType a) \<noteq> [] \<and> \<not> snd (rl_MediaType L (ra_ContentType a))
        then Some (TypeInvalid (ra_ContentType a))
      else if ra_Disposition a \<noteq> [] \<and> \<not> EqualFold (rl_unicode L) (ra_Disposition a) ''attachment'' \<and>
          \<not> EqualFold (rl_unicode L) (ra_Disposition a) ''inline'' then Some (BadDisposition (ra_Disposition a))
      else validateContentIDMeta L a)"

fun validateMetas :: "rest_lib \<Rightarrow> nat \<Rightarrow> requestAttachment list \<Rightarrow> (nat \<times> payload_error) option" where
  "validateMetas L i [] = None"
| "validateMetas L i (a # as) = (case validateAttachmentMeta L a of
     Some e \<Rightarrow> Some (i, e) | None \<Rightarrow> validateMetas L (i + 1) as)"

fun uniqueFrom :: "unicode_tables \<Rightarrow> string list \<Rightarrow> Attachment list \<Rightarrow> payload_error option" where
  "uniqueFrom U sofar [] = None"
| "uniqueFrom U sofar (a # as) =
     (if at_ContentID a = [] then uniqueFrom U sofar as
      else let k = ToLower U (at_ContentID a) in
        if k \<in> set sofar then Some (ContentIDTwice (at_ContentID a)) else uniqueFrom U (k # sofar) as)"

definition uniqueContentIDs :: "unicode_tables \<Rightarrow> Attachment list \<Rightarrow> payload_error option" where
  "uniqueContentIDs U = uniqueFrom U []"

section \<open>Multipart bodies\<close>

text \<open>The index of the one part with a form name.\<close>

definition partNamed :: "string \<Rightarrow> string list \<Rightarrow> payload_error + nat" where
  "partNamed n formNames = (case filter (\<lambda>i. formNames ! i = n) [0..<length formNames] of
     [] \<Rightarrow> Inl (NoPart n) | [i] \<Rightarrow> Inr i | _ \<Rightarrow> Inl (PartTwice n))"

fun applyNames :: "labels \<Rightarrow> string list \<Rightarrow> string list \<Rightarrow> Attachment list \<Rightarrow> payload_error + Attachment list" where
  "applyNames ids formNames [] atts = Inr atts"
| "applyNames ids formNames (n # ns) atts = (case partNamed n formNames of
     Inl e \<Rightarrow> Inl e
   | Inr i \<Rightarrow>
      if at_ContentID (atts ! i) \<noteq> [] then Inl (PartHasContentID n)
      else let cid = (case map_of ids n of None \<Rightarrow> [] | Some c \<Rightarrow> c) in
        case ValidateContentID cid of Some e \<Rightarrow> Inl (PartContentID n e)
        | None \<Rightarrow> applyNames ids formNames ns
            (atts[i := (atts ! i)\<lparr>at_ContentID := cid, at_Disposition := ''inline''\<rparr>]))"

definition applyContentIDs :: "labels \<Rightarrow> Attachment list \<Rightarrow> string list \<Rightarrow> payload_error + Attachment list" where
  "applyContentIDs ids atts formNames = applyNames ids formNames (sort (map fst ids)) atts"

text \<open>A reader is the bytes it delivers and the error that ends them (\<^term>\<open>None\<close>: the end of the input).\<close>

type_synonym reader = "bytes \<times> string option"

text \<open>\<^verbatim>\<open>io.ReadAll(io.LimitReader(r, n))\<close>.\<close>

definition readLimited :: "reader \<Rightarrow> nat \<Rightarrow> string + bytes" where
  "readLimited r n = (if length (fst r) \<ge> n then Inr (take n (fst r))
     else case snd r of Some e \<Rightarrow> Inl e | None \<Rightarrow> Inr (fst r))"

record part =
  pt_FormName :: string
  pt_FileName :: string
  pt_ContentType :: string
  pt_ContentID :: string
  pt_Content :: reader

record multi =
  mu_req :: requestBody
  mu_atts :: "Attachment list"
  mu_formNames :: "string list"
  mu_total :: nat
  mu_seenData :: bool

text \<open>The file name of a part that is not the data part.\<close>

definition partFilename :: "rest_lib \<Rightarrow> part \<Rightarrow> payload_error + string" where
  "partFilename L p =
     (if pt_FileName p \<noteq> [] then Inr (pt_FileName p)
      else let lower = ToLower (rl_unicode L) (pt_FormName p) in
        case misplacedFields lower of Some want \<Rightarrow> Inl (NotFileHint (pt_FormName p) want)
        | None \<Rightarrow> if lower \<in> set requestFields then Inl (NotFile (pt_FormName p)) else Inr (pt_FormName p))"

definition filePart :: "rest_lib \<Rightarrow> part \<Rightarrow> bytes \<Rightarrow> payload_error + Attachment" where
  "filePart L p content = (case partFilename L p of Inl e \<Rightarrow> Inl e
     | Inr filename \<Rightarrow>
        let ct = (if pt_ContentType p = [] then ''application/octet-stream'' else pt_ContentType p);
            cid = (if pt_ContentID p = [] then [] else TrimSuffix (TrimPrefix (pt_ContentID p) ''<'') ''>'');
            disp = (if pt_ContentID p = [] then [] else ''inline'')
        in case validateAttachmentMeta L \<lparr>ra_Filename = filename, ra_ContentType = ct, ra_Disposition = disp,
               ra_ContentID = cid, ra_ContentBase64 = []\<rparr> of
             Some e \<Rightarrow> Inl (InPart (pt_FormName p) e)
           | None \<Rightarrow> Inr \<lparr>at_Filename = filename, at_ContentType = ct, at_Disposition = disp, at_ContentID = cid,
               at_Content = content\<rparr>)"

definition onePart :: "rest_lib \<Rightarrow> nat \<Rightarrow> part \<Rightarrow> multi \<Rightarrow> payload_error + multi" where
  "onePart L maxBytes p m = (case readLimited (pt_Content p) (maxBytes - mu_total m + 1) of
     Inl e \<Rightarrow> Inl (ReadFailed (pt_FormName p) e)
   | Inr content \<Rightarrow>
      let m = m\<lparr>mu_total := mu_total m + length content\<rparr> in
      if mu_total m > maxBytes then Inl TooLarge
      else if pt_FormName p = ''data'' then
        (if mu_seenData m then Inl TwoDataParts
         else case decodeRequestJSON L content of Inl e \<Rightarrow> Inl (InDataPart e)
           | Inr req \<Rightarrow> Inr (m\<lparr>mu_seenData := True, mu_req := req\<rparr>))
      else case filePart L p content of Inl e \<Rightarrow> Inl e
        | Inr att \<Rightarrow> Inr (m\<lparr>mu_atts := mu_atts m @ [att], mu_formNames := mu_formNames m @ [pt_FormName p]\<rparr>))"

text \<open>The loop over the parts; \<open>Inl\<close> is an error of \<^verbatim>\<open>NextPart\<close>, the end of the list its \<^verbatim>\<open>io.EOF\<close>.\<close>

fun readParts :: "rest_lib \<Rightarrow> nat \<Rightarrow> (string + part) list \<Rightarrow> multi \<Rightarrow> payload_error + multi" where
  "readParts L maxBytes [] m = Inr m"
| "readParts L maxBytes (Inl e # ps) m = Inl (PartFailed e)"
| "readParts L maxBytes (Inr p # ps) m = (case onePart L maxBytes p m of
     Inl e \<Rightarrow> Inl e | Inr m \<Rightarrow> readParts L maxBytes ps m)"

definition parseMultipartMessage ::
    "rest_lib \<Rightarrow> string + (string + part) list \<Rightarrow> nat \<Rightarrow> payload_error + requestBody \<times> Attachment list" where
  "parseMultipartMessage L parts maxBytes = (case parts of
     Inl e \<Rightarrow> Inl (NoMultipart e)
   | Inr parts \<Rightarrow> (case readParts L maxBytes parts
         \<lparr>mu_req = emptyBody, mu_atts = [], mu_formNames = [], mu_total = 0, mu_seenData = False\<rparr> of
       Inl e \<Rightarrow> Inl e
     | Inr m \<Rightarrow> (case applyContentIDs (rb_ContentIDs (mu_req m)) (mu_atts m) (mu_formNames m) of
         Inl e \<Rightarrow> Inl (InDataPart e)
       | Inr atts \<Rightarrow> (case validateMetas L 0 (rb_Attachments (mu_req m)) of
           Some (i, e) \<Rightarrow> Inl (InDataPart (InAttachment i e))
         | None \<Rightarrow> (case decodeAttachments (rb_Attachments (mu_req m)) of
             Inl e \<Rightarrow> Inl (InDataPart e)
           | Inr inline \<Rightarrow> Inr (mu_req m, inline @ atts))))))"

section \<open>Answers\<close>

datatype problem_detail =
    Says string | Payload payload_error | ReadError string | OfResult detail

record Problem =
  pr_Type :: string
  pr_Title :: string
  pr_Status :: nat
  pr_Detail :: problem_detail
  pr_Policy :: string
  pr_MessageID :: string

abbreviation TypeBase :: string where "TypeBase \<equiv> ''https://sigillum.dev/errors/''"

text \<open>\<^verbatim>\<open>problem.New\<close>.\<close>

definition newProblem :: "string \<Rightarrow> nat \<Rightarrow> string \<Rightarrow> problem_detail \<Rightarrow> Problem" where
  "newProblem slug status title detail = \<lparr>pr_Type = TypeBase @ slug, pr_Title = title, pr_Status = status,
     pr_Detail = detail, pr_Policy = [], pr_MessageID = []\<rparr>"

text \<open>An answer: the envelope of a 202 (message, policy, time), or a problem with its Retry-After field.\<close>

datatype answer = Accepted string string "time option" | Refused Problem "string option"

fun answerStatus :: "answer \<Rightarrow> nat" where
  "answerStatus (Accepted _ _ _) = 202"
| "answerStatus (Refused p _) = pr_Status p"

definition resultProblem :: "string \<Rightarrow> nat \<Rightarrow> string \<Rightarrow> string \<Rightarrow> Gateway.Result \<Rightarrow> Problem" where
  "resultProblem slug status title msgID res = \<lparr>pr_Type = TypeBase @ slug, pr_Title = title, pr_Status = status,
     pr_Detail = OfResult (re_Detail res), pr_Policy = re_Policy res, pr_MessageID = msgID\<rparr>"

definition writeUpstreamError :: "string \<Rightarrow> Gateway.Result \<Rightarrow> answer" where
  "writeUpstreamError msgID res = Refused (resultProblem ''upstream-error'' 502 ''Upstream backend error'' msgID res)
     (if re_RetryAfter res > 0 then Some (Itoa (secondsUp (re_RetryAfter res))) else None)"

definition writePolicyDeny :: "string \<Rightarrow> Gateway.Result \<Rightarrow> answer" where
  "writePolicyDeny msgID res =
     (let p = (\<lambda>slug status title. Refused (resultProblem slug status title msgID res) None) in
      case re_DenyReason res of
        Some DenyNoPolicy \<Rightarrow> p ''no-policy-matched'' 403 ''No matching policy''
      | Some DenySenderNotAllowed \<Rightarrow> p ''sender-not-allowed'' 403
          (if re_Backend res \<noteq> [] then ''Sender address not allowed by backend''
           else ''Sender address not allowed by policy'')
      | Some DenyRecipientBlocked \<Rightarrow> p ''recipient-not-allowed'' 403 ''Recipient address not allowed by policy''
      | Some DenyMessageTooLarge \<Rightarrow> p ''message-too-large'' 413 ''Message exceeds policy size limit''
      | Some DenyTooManyRecipient \<Rightarrow> p ''too-many-recipients'' 403 ''Too many recipients for policy''
      | None \<Rightarrow> p ''no-policy-matched'' 403 ''Request denied'')"

definition writeResult :: "string \<Rightarrow> Gateway.Result \<Rightarrow> answer" where
  "writeResult msgID res =
     (let p = (\<lambda>slug status title. Refused (resultProblem slug status title msgID res)) in
      case re_Status res of
        StatusAccepted \<Rightarrow> Accepted msgID (re_Policy res) (re_AcceptedAt res)
      | StatusDenied \<Rightarrow> writePolicyDeny msgID res
      | StatusRateLimited \<Rightarrow> p ''rate-limited'' 429 ''Rate limit exceeded'' (Some (Itoa (secondsDown (re_RetryAfter res))))
      | StatusUnavailable \<Rightarrow> p ''unavailable'' 503 ''Service temporarily unavailable'' (Some ''5'')
      | StatusBackendNotReady \<Rightarrow> p ''backend-not-ready'' 503 ''Backend not ready'' None
      | StatusPolicyInvalid \<Rightarrow> p ''policy-invalid'' 503 ''Policy is invalid'' None
      | StatusUpstreamError \<Rightarrow>
          if \<not> re_Permanent res then writeUpstreamError msgID res
          else p ''upstream-rejected'' 422 ''Upstream backend rejected the message'' None)"

section \<open>The handler\<close>

text \<open>An early return on an error.\<close>

definition andThen :: "'e + 'a \<Rightarrow> ('a \<Rightarrow> 'e + 'b) \<Rightarrow> 'e + 'b" where
  "andThen r f = (case r of Inl e \<Rightarrow> Inl e | Inr a \<Rightarrow> f a)"

definition checked :: "'e option \<Rightarrow> 'e + unit" where
  "checked r = (case r of Some e \<Rightarrow> Inl e | None \<Rightarrow> Inr ())"

definition badRequest :: "string \<Rightarrow> problem_detail \<Rightarrow> Problem" where
  "badRequest = newProblem ''invalid-payload'' 400"

definition invalid :: "'v \<Rightarrow> string \<Rightarrow> payload_error + 'a \<Rightarrow> 'v \<times> Problem + 'a" where
  "invalid ev title r = (case r of Inl e \<Rightarrow> Inl (ev, badRequest title (Payload e)) | Inr a \<Rightarrow> Inr a)"

definition bodyTooLarge :: Problem where
  "bodyTooLarge = newProblem ''message-too-large'' 413 ''Request body exceeds 32MiB ceiling''
     (Says ''use a smaller message or split attachments'')"

definition maxBody :: nat where "maxBody = 32 * 1024 * 1024"

record http_request =
  hq_ContentType :: string
  hq_ContentLength :: int
  hq_Body :: reader
  hq_Parts :: "string + (string + part) list"

definition multipartPayload :: "rest_lib \<Rightarrow> http_request \<Rightarrow> Problem + requestBody \<times> Attachment list" where
  "multipartPayload L q = (case parseMultipartMessage L (hq_Parts q) maxBody of
     Inl TooLarge \<Rightarrow> Inl bodyTooLarge
   | Inl e \<Rightarrow> Inl (badRequest ''Failed to parse multipart body'' (Payload e))
   | Inr r \<Rightarrow> Inr r)"

definition jsonRequest :: "rest_lib \<Rightarrow> bytes \<Rightarrow> Problem + requestBody \<times> Attachment list" where
  "jsonRequest L body = (case decodeRequestJSON L body of
     Inl e \<Rightarrow> Inl (badRequest ''Malformed JSON payload'' (Payload e))
   | Inr req \<Rightarrow> (case validateMetas L 0 (rb_Attachments req) of
       Some (i, e) \<Rightarrow> Inl (badRequest (''Invalid attachment['' @ nat_digits i @ '']'') (Payload e))
     | None \<Rightarrow>
        if rb_ContentIDs req \<noteq> [] then Inl (badRequest ''Malformed JSON payload''
          (Says ''contentIds names multipart file parts; in a JSON request, set contentId on the attachment''))
        else (case decodeAttachments (rb_Attachments req) of
            Inl e \<Rightarrow> Inl (badRequest ''Invalid attachment'' (Payload e)) | Inr atts \<Rightarrow> Inr (req, atts))))"

definition jsonPayload :: "rest_lib \<Rightarrow> http_request \<Rightarrow> Problem + requestBody \<times> Attachment list" where
  "jsonPayload L q = (case readLimited (hq_Body q) (maxBody + 1) of
     Inl e \<Rightarrow> Inl (badRequest ''Failed to read request body'' (ReadError e))
   | Inr body \<Rightarrow> if length body > maxBody then Inl bodyTooLarge else jsonRequest L body)"

record subject =
  sj_Namespace :: string
  sj_ServiceAccount :: string

definition fromAddress :: "rest_lib \<Rightarrow> string \<Rightarrow> payload_error + string \<times> string" where
  "fromAddress L s = (case parseAddress L s of Inl e \<Rightarrow> Inl e
     | Inr a \<Rightarrow> (case ValidateAddressHeader (rl_mail L) s 1 of
         Some e \<Rightarrow> Inl (BadAddressHeader e) | None \<Rightarrow> Inr a))"

definition driverMessage :: "string \<Rightarrow> requestBody \<Rightarrow> Attachment list \<Rightarrow> string \<times> string \<Rightarrow> (string \<times> string) list \<Rightarrow>
    (string \<times> string) list \<Rightarrow> (string \<times> string) list \<Rightarrow> Message" where
  "driverMessage msgID req atts from to cc bcc = \<lparr>ms_MessageID = ''<'' @ msgID @ ''@sigillum.local>'',
     ms_From = toDriverAddress from, ms_To = map toDriverAddress to, ms_Cc = map toDriverAddress cc,
     ms_Bcc = map toDriverAddress bcc, ms_Subject = rb_Subject req,
     ms_Body = \<lparr>bd_Text = rbc_Text (rb_Body req), bd_HTML = rbc_HTML (rb_Body req)\<rparr>,
     ms_Attachments = atts, ms_Headers = rb_Headers req\<rparr>"

definition restRequest :: "subject \<Rightarrow> string \<Rightarrow> Message \<Rightarrow> string \<Rightarrow> string list \<Rightarrow> int \<Rightarrow> Request" where
  "restRequest subj msgID msg sender replyTo sz = \<lparr>rq_Identity = \<lparr>id_Namespace = sj_Namespace subj,
       id_ServiceAccount = sj_ServiceAccount subj, id_AuthMethod = AuthOAuthBearer, id_PodLabels = [],
       id_Credential = [], id_CredentialPrevious = False\<rparr>,
     rq_Transport = ''rest'', rq_MessageID = msgID, rq_Message = msg, rq_Raw = None, rq_EnvelopeFrom = [],
     rq_Sender = sender, rq_ReplyTo = replyTo, rq_SizeBytes = sz\<rparr>"

text \<open>The checks once the recipients are known.\<close>

definition checkHeaders ::
    "rest_lib \<Rightarrow> subject \<Rightarrow> string \<Rightarrow> Event \<Rightarrow> requestBody \<Rightarrow> Attachment list \<Rightarrow> Message \<Rightarrow> Event \<times> Problem + Request" where
  "checkHeaders L subj msgID ev req atts msg =
     andThen (if Recipients msg = []
       then Inl (ev, badRequest ''At least one recipient required'' (Says ''provide one of to, cc or bcc'')) else Inr ()) (\<lambda>_.
     andThen (invalid ev ''Invalid header'' (checked (validateRequestHeaders (rb_Headers req)))) (\<lambda>_.
     andThen (invalid ev ''Invalid header'' (addressHeadersOf L (rb_Headers req))) (\<lambda>(sender, replyTo).
     if \<not> requestHasContent (rb_Body req) atts
     then Inl (ev, badRequest ''Message has no content''
       (Says ''set body.text or body.html, or add a non-empty attachment''))
     else Inr (restRequest subj msgID msg sender replyTo (estimateSize req atts)))))"

text \<open>From the decoded payload to the gateway's request; the event is what the audit knows by then.\<close>

definition checkMessage ::
    "rest_lib \<Rightarrow> subject \<Rightarrow> string \<Rightarrow> Event \<Rightarrow> requestBody \<times> Attachment list \<Rightarrow> Event \<times> Problem + Request" where
  "checkMessage L subj msgID ev payload = (case payload of (req, atts) \<Rightarrow>
     andThen (invalid ev ''Invalid attachment'' (checked (uniqueContentIDs (rl_unicode L) atts))) (\<lambda>_.
     let ev = ev\<lparr>ev_From := rb_From req\<rparr> in
     andThen (invalid ev ''Invalid 'from' address'' (fromAddress L (rb_From req))) (\<lambda>from.
     andThen (invalid ev ''Invalid 'to' address'' (parseAddressList L (rb_To req))) (\<lambda>to.
     andThen (invalid ev ''Invalid 'cc' address'' (parseAddressList L (rb_Cc req))) (\<lambda>cc.
     andThen (invalid ev ''Invalid 'bcc' address'' (parseAddressList L (rb_Bcc req))) (\<lambda>bcc.
     let msg = driverMessage msgID req atts from to cc bcc in
     checkHeaders L subj msgID (ev\<lparr>ev_From := snd from, ev_To := Some (Recipients msg)\<rparr>) req atts msg))))))"

definition newBodyBudget :: "int \<Rightarrow> int option" where
  "newBodyBudget n = (if n \<le> 0 then None else Some n)"

text \<open>
  What a request reserves of the budget, \<^term>\<open>None\<close> if it was not to be had in time; \<open>acquire\<close> is the
  semaphore's answer.
\<close>

definition reserve :: "int option \<Rightarrow> int \<Rightarrow> (int \<Rightarrow> bool) \<Rightarrow> int option" where
  "reserve budget contentLength acquire = (case budget of None \<Rightarrow> Some 0
     | Some cap \<Rightarrow>
        let n = (if contentLength < 0 \<or> contentLength > cap then cap else contentLength) in
        if n = 0 then Some 0 else if acquire n then Some n else None)"

record 'l rest_server =
  sv_cluster :: "'l cluster"
  sv_lib :: rest_lib
  sv_bodies :: "int option"
  sv_shutting :: bool

definition restEvent :: "string \<Rightarrow> subject option \<Rightarrow> Event" where
  "restEvent msgID subj = (let ev = (blankEvent msgID)\<lparr>ev_Transport := ''rest''\<rparr> in
     case subj of None \<Rightarrow> ev
     | Some s \<Rightarrow> ev\<lparr>ev_Namespace := sj_Namespace s, ev_ServiceAccount := sj_ServiceAccount s,
         ev_AuthMethod := AuthOAuthBearer\<rparr>)"

definition rejectPayload :: "string \<Rightarrow> 'l gateway \<Rightarrow> Event \<Rightarrow> Problem \<Rightarrow> 'l gateway \<times> answer" where
  "rejectPayload msgID g ev p =
     (Reject g ev (if pr_Type p = TypeBase @ ''message-too-large'' then ''message_too_large'' else ''invalid_payload''),
      Refused (p\<lparr>pr_MessageID := msgID\<rparr>) None)"

definition unsupportedMedia :: "string \<Rightarrow> Problem" where
  "unsupportedMedia ct = newProblem ''unsupported-media-type'' 415 ''Unsupported Content-Type''
     (Says ((if ct = [] then ''the Content-Type header is missing; '' else []) @
       ''send Content-Type: application/json, or multipart/form-data with attachments''))"

text \<open>The handler once the body may be read.\<close>

definition handlePayload ::
    "'l rest_server \<Rightarrow> http_request \<Rightarrow> subject \<Rightarrow> string \<Rightarrow> bool \<Rightarrow> 'l gateway \<Rightarrow> 'l gateway \<times> answer" where
  "handlePayload S q subj msgID multipart g =
     (let L = sv_lib S; ev = restEvent msgID (Some subj) in
      case (if multipart then multipartPayload L q else jsonPayload L q) of
        Inl p \<Rightarrow> rejectPayload msgID g ev p
      | Inr payload \<Rightarrow> (case checkMessage L subj msgID ev payload of
          Inl (ev, p) \<Rightarrow> rejectPayload msgID g ev p
        | Inr req \<Rightarrow> (case Send (sv_cluster S) req g of (g, res) \<Rightarrow> (g, writeResult msgID res))))"

definition handleSendMessage ::
    "'l rest_server \<Rightarrow> http_request \<Rightarrow> subject option \<Rightarrow> string \<Rightarrow> (int \<Rightarrow> bool) \<Rightarrow> 'l gateway \<Rightarrow> 'l gateway \<times> answer" where
  "handleSendMessage S q subj msgID acquire g =
     (let ev = restEvent msgID subj; media = fst (rl_MediaType (sv_lib S) (hq_ContentType q)) in
      if sv_shutting S then (Reject g ev ''shutting_down'', Refused (newProblem ''shutting-down'' 503 ''Service draining''
        (Says ''the api-server is terminating; retry on a different replica'')) None)
      else case subj of
        None \<Rightarrow> (Reject g ev ''missing_token'', Refused (newProblem ''invalid-token'' 401 ''Authentication required''
          (Says ''missing or invalid Bearer token'')) None)
      | Some subj \<Rightarrow>
          if media \<noteq> ''application/json'' \<and> media \<noteq> ''multipart/form-data''
          then rejectPayload msgID g ev (unsupportedMedia (hq_ContentType q))
          else (case reserve (sv_bodies S) (hq_ContentLength q) acquire of
              None \<Rightarrow> (Reject g ev ''busy'', Refused ((newProblem ''unavailable'' 503 ''Too many large requests in progress''
                (Says ''the api-server is already holding its limit of request bodies; retry later''))\<lparr>pr_MessageID := msgID\<rparr>)
                (Some ''5''))
            | Some _ \<Rightarrow> handlePayload S q subj msgID (media = ''multipart/form-data'') g))"

section \<open>What the checks establish\<close>

lemma andThen_Inr [simp]: "andThen r f = Inr b \<longleftrightarrow> (\<exists>a. r = Inr a \<and> f a = Inr b)"
  by (cases r) (simp_all add: andThen_def)

lemma checked_Inr [simp]: "checked r = Inr u \<longleftrightarrow> r = None"
  by (simp add: checked_def split: option.split)

lemma invalid_Inr [simp]: "invalid ev title r = Inr a \<longleftrightarrow> r = Inr a"
  by (simp add: invalid_def split: sum.split)

lemma parseAddress_valid: "parseAddress L s = Inr a \<Longrightarrow> ValidateMailbox (snd a) = None"
  by (auto simp: parseAddress_def split: option.splits)

lemma fromAddress_valid: "fromAddress L s = Inr a \<Longrightarrow> ValidateMailbox (snd a) = None"
  by (auto simp: fromAddress_def parseAddress_valid split: sum.splits option.splits)

lemma parseAddressList_valid:
  "parseAddressList L ss = Inr as \<Longrightarrow> a \<in> set as \<Longrightarrow> ValidateMailbox (snd a) = None"
  by (induction ss arbitrary: as) (auto dest: parseAddress_valid split: sum.splits)

definition metaOK :: "rest_lib \<Rightarrow> Attachment \<Rightarrow> bool" where
  "metaOK L a \<longleftrightarrow> \<not> ContainsAny (at_Filename a) [CR, LF, NUL] \<and> firstBidiOrFormatControl (at_Filename a) = 0 \<and>
     \<not> ContainsAny (at_ContentType a) [CR, LF, NUL] \<and>
     (TrimSpace (at_ContentType a) = [] \<or> snd (rl_MediaType L (at_ContentType a))) \<and>
     (at_Disposition a = [] \<or> EqualFold (rl_unicode L) (at_Disposition a) ''attachment'' \<or>
        EqualFold (rl_unicode L) (at_Disposition a) ''inline'') \<and>
     (at_ContentID a = [] \<or> ValidateContentID (at_ContentID a) = None \<and>
        EqualFold (rl_unicode L) (at_Disposition a) ''inline'')"

text \<open>What the driver is given of an attachment of the request.\<close>

definition sameMeta :: "requestAttachment \<Rightarrow> Attachment \<Rightarrow> bool" where
  "sameMeta r a \<longleftrightarrow> at_Filename a = ra_Filename r \<and> at_ContentType a = ra_ContentType r \<and>
     at_Disposition a = ra_Disposition r \<and> at_ContentID a = ra_ContentID r"

lemma validateAttachmentMeta_OK: "validateAttachmentMeta L r = None \<Longrightarrow> sameMeta r a \<Longrightarrow> metaOK L a"
  by (auto simp: validateAttachmentMeta_def validateContentIDMeta_def metaOK_def sameMeta_def split: if_splits)

lemma validateMetas_None: "validateMetas L i rs = None \<Longrightarrow> r \<in> set rs \<Longrightarrow> validateAttachmentMeta L r = None"
  by (induction rs arbitrary: i) (auto split: option.splits)

lemma decodeAttachmentsFrom_same:
  "decodeAttachmentsFrom i rs = Inr as \<Longrightarrow> a \<in> set as \<Longrightarrow> \<exists>r\<in>set rs. sameMeta r a"
proof (induction rs arbitrary: i as)
  case (Cons r rs)
  from Cons.prems(1) obtain raw out where o: "decodeAttachmentsFrom (i + 1) rs = Inr out"
    "as = \<lparr>at_Filename = ra_Filename r, at_ContentType = ra_ContentType r, at_Disposition = ra_Disposition r,
       at_ContentID = ra_ContentID r, at_Content = raw\<rparr> # out"
    by (auto split: option.splits sum.splits)
  show ?case
  proof (cases "a \<in> set out")
    case True
    then show ?thesis using Cons.IH [OF o(1)] by auto
  next
    case False
    then show ?thesis using Cons.prems(2) o(2) by (auto simp: sameMeta_def)
  qed
qed simp

lemma decoded_OK:
  assumes "validateMetas L 0 rs = None" "decodeAttachments rs = Inr as" "a \<in> set as"
  shows "metaOK L a"
  using decodeAttachmentsFrom_same [OF assms(2) [unfolded decodeAttachments_def] assms(3)]
    validateMetas_None [OF assms(1)] validateAttachmentMeta_OK by blast

lemma EqualFold_inline: "EqualFold U ''inline'' ''inline''"
  by (simp add: EqualFold_ascii is_ascii_def)

lemma metaOK_inline: "metaOK L a \<Longrightarrow> ValidateContentID cid = None \<Longrightarrow>
    metaOK L (a\<lparr>at_ContentID := cid, at_Disposition := ''inline''\<rparr>)"
  by (simp add: metaOK_def EqualFold_inline)

lemma partNamed_bound: "partNamed n names = Inr i \<Longrightarrow> i < length names"
proof -
  assume "partNamed n names = Inr i"
  then have "filter (\<lambda>i. names ! i = n) [0..<length names] = [i]"
    by (auto simp: partNamed_def split: list.splits)
  then have "i \<in> set (filter (\<lambda>i. names ! i = n) [0..<length names])" by simp
  then show ?thesis by simp
qed

lemma applyNames_OK:
  "applyNames ids names ns as = Inr out \<Longrightarrow> length as = length names \<Longrightarrow> list_all (metaOK L) as \<Longrightarrow> list_all (metaOK L) out"
proof (induction ns arbitrary: as)
  case (Cons n ns)
  from Cons.prems(1) obtain i cid where i: "partNamed n names = Inr i" "ValidateContentID cid = None"
    "applyNames ids names ns (as[i := (as ! i)\<lparr>at_ContentID := cid, at_Disposition := ''inline''\<rparr>]) = Inr out"
    by (auto simp: Let_def split: sum.splits if_splits option.splits)
  have "metaOK L (as ! i)" using partNamed_bound [OF i(1)] Cons.prems(2,3) by (simp add: list_all_length)
  then have "list_all (metaOK L) (as[i := (as ! i)\<lparr>at_ContentID := cid, at_Disposition := ''inline''\<rparr>])"
    using metaOK_inline [OF _ i(2)] Cons.prems(3)
    by (auto simp: list_all_iff dest!: subsetD [OF set_update_subset_insert])
  then show ?case using Cons.IH [OF i(3)] Cons.prems(2) by simp
qed simp

definition multiOK :: "rest_lib \<Rightarrow> nat \<Rightarrow> multi \<Rightarrow> bool" where
  "multiOK L n m \<longleftrightarrow> length (mu_atts m) = length (mu_formNames m) \<and> list_all (metaOK L) (mu_atts m) \<and> mu_total m \<le> n \<and>
     (\<Sum>a\<leftarrow>mu_atts m. length (at_Content a)) \<le> mu_total m"

lemma filePart_OK: "filePart L p content = Inr a \<Longrightarrow> metaOK L a \<and> at_Content a = content"
  by (auto simp: filePart_def Let_def sameMeta_def intro!: validateAttachmentMeta_OK split: sum.splits option.splits)

lemma onePart_OK: "onePart L n p m = Inr m' \<Longrightarrow> multiOK L n m \<Longrightarrow> multiOK L n m'"
  by (auto simp: onePart_def Let_def multiOK_def dest!: filePart_OK split: sum.splits if_splits)

lemma readParts_OK: "readParts L n ps m = Inr m' \<Longrightarrow> multiOK L n m \<Longrightarrow> multiOK L n m'"
  by (induction L n ps m rule: readParts.induct) (auto dest: onePart_OK split: sum.splits)

lemma parseMultipart_OK:
  assumes "parseMultipartMessage L parts n = Inr (req, as)"
  shows "list_all (metaOK L) as"
proof -
  from assms obtain ps m out inline where
    m: "readParts L n ps \<lparr>mu_req = emptyBody, mu_atts = [], mu_formNames = [], mu_total = 0, mu_seenData = False\<rparr> = Inr m"
    and a: "applyContentIDs (rb_ContentIDs (mu_req m)) (mu_atts m) (mu_formNames m) = Inr out"
    and v: "validateMetas L 0 (rb_Attachments (mu_req m)) = None" "decodeAttachments (rb_Attachments (mu_req m)) = Inr inline"
    and as: "as = inline @ out"
    by (auto simp: parseMultipartMessage_def split: sum.splits option.splits)
  have "multiOK L n m" using readParts_OK [OF m] by (simp add: multiOK_def)
  then have "list_all (metaOK L) out"
    using applyNames_OK [OF a [unfolded applyContentIDs_def]] by (simp add: multiOK_def)
  then show ?thesis using decoded_OK [OF v] as by (auto simp: list_all_iff)
qed

lemma jsonRequest_OK: "jsonRequest L body = Inr (req, as) \<Longrightarrow> list_all (metaOK L) as"
  by (auto simp: jsonRequest_def list_all_iff dest: decoded_OK split: sum.splits option.splits if_splits)

lemma payload_OK:
  "(if multipart then multipartPayload L q else jsonPayload L q) = Inr (req, as) \<Longrightarrow> list_all (metaOK L) as"
  by (auto simp: multipartPayload_def jsonPayload_def dest: parseMultipart_OK jsonRequest_OK
      split: if_splits sum.splits payload_error.splits)

text \<open>Headers the checks let through.\<close>

definition headersOK :: "labels \<Rightarrow> bool" where
  "headersOK h \<longleftrightarrow> list_all (\<lambda>(k, v). \<not> ContainsAny k [CR, LF, NUL] \<and> \<not> ContainsAny v [CR, LF, NUL] \<and>
       length k + 2 + length v \<le> 998 \<and> \<not> HasPrefix (canonicalKey k) ''Resent-'') h \<and>
     distinct (map (\<lambda>p. canonicalKey (fst p)) h)"

lemma validateHeadersFrom_OK:
  "validateHeadersFrom sofar h = None \<longleftrightarrow> headersOK h \<and> (\<forall>p\<in>set h. canonicalKey (fst p) \<notin> set sofar)"
  by (induction sofar h rule: validateHeadersFrom.induct)
    (auto simp: headersOK_def Let_def maxRequestLine_def image_iff)

lemma validateRequestHeaders_iff: "validateRequestHeaders h = None \<longleftrightarrow> headersOK h"
  by (simp add: validateRequestHeaders_def validateHeadersFrom_OK)

lemma uniqueFrom_None:
  "uniqueFrom U sofar as = None \<longleftrightarrow>
     distinct (map (\<lambda>a. ToLower U (at_ContentID a)) (filter (\<lambda>a. at_ContentID a \<noteq> []) as)) \<and>
     (\<forall>a\<in>set as. at_ContentID a \<noteq> [] \<longrightarrow> ToLower U (at_ContentID a) \<notin> set sofar)"
  by (induction U sofar as rule: uniqueFrom.induct) (auto simp: Let_def image_iff)

text \<open>A message the transport may hand on.\<close>

definition relayable :: "rest_lib \<Rightarrow> Message \<Rightarrow> bool" where
  "relayable L m \<longleftrightarrow>
     list_all (\<lambda>a. ValidateMailbox (ad_Address a) = None) (ms_From m # ms_To m @ ms_Cc m @ ms_Bcc m) \<and>
     ms_To m @ ms_Cc m @ ms_Bcc m \<noteq> [] \<and> headersOK (ms_Headers m) \<and> list_all (metaOK L) (ms_Attachments m) \<and>
     distinct (map (\<lambda>a. ToLower (rl_unicode L) (at_ContentID a)) (filter (\<lambda>a. at_ContentID a \<noteq> []) (ms_Attachments m))) \<and>
     (TrimSpace (bd_Text (ms_Body m)) \<noteq> [] \<or> TrimSpace (bd_HTML (ms_Body m)) \<noteq> [] \<or>
       list_ex (\<lambda>a. at_Content a \<noteq> []) (ms_Attachments m))"

lemma checkMessage_Inr:
  assumes "checkMessage L subj msgID ev (req, atts) = Inr r"
  obtains fr to cc bcc sender replyTo where
    "r = restRequest subj msgID (driverMessage msgID req atts fr to cc bcc) sender replyTo (estimateSize req atts)"
    "uniqueContentIDs (rl_unicode L) atts = None" "fromAddress L (rb_From req) = Inr fr"
    "parseAddressList L (rb_To req) = Inr to" "parseAddressList L (rb_Cc req) = Inr cc"
    "parseAddressList L (rb_Bcc req) = Inr bcc" "Recipients (driverMessage msgID req atts fr to cc bcc) \<noteq> []"
    "validateRequestHeaders (rb_Headers req) = None" "addressHeadersOf L (rb_Headers req) = Inr (sender, replyTo)"
    "requestHasContent (rb_Body req) atts"
  using assms by (auto simp: checkMessage_def checkHeaders_def Let_def split: if_splits)

lemma checkMessage_relayable:
  assumes "checkMessage L subj msgID ev (req, atts) = Inr r" "list_all (metaOK L) atts"
  shows "relayable L (rq_Message r)"
proof -
  from assms(1) obtain fr to cc bcc sender replyTo where
    r: "r = restRequest subj msgID (driverMessage msgID req atts fr to cc bcc) sender replyTo (estimateSize req atts)"
    and c: "uniqueContentIDs (rl_unicode L) atts = None" "fromAddress L (rb_From req) = Inr fr"
    "parseAddressList L (rb_To req) = Inr to" "parseAddressList L (rb_Cc req) = Inr cc"
    "parseAddressList L (rb_Bcc req) = Inr bcc" "Recipients (driverMessage msgID req atts fr to cc bcc) \<noteq> []"
    "validateRequestHeaders (rb_Headers req) = None" "requestHasContent (rb_Body req) atts"
    by (rule checkMessage_Inr)
  show ?thesis
    using c(1,6,7,8) assms(2) fromAddress_valid [OF c(2)] parseAddressList_valid [OF c(3)]
      parseAddressList_valid [OF c(4)] parseAddressList_valid [OF c(5)]
    by (auto simp: r relayable_def restRequest_def driverMessage_def toDriverAddress_def list_all_iff Recipients_def
        validateRequestHeaders_iff uniqueContentIDs_def uniqueFrom_None requestHasContent_def)
qed

section \<open>The handler's two ways to end\<close>

lemma answer_Accepted: "answerStatus (writeResult msgID res) = 202 \<longleftrightarrow> re_Status res = StatusAccepted"
  by (auto simp: writeResult_def writePolicyDeny_def writeUpstreamError_def resultProblem_def Let_def
      split: Status.split option.split DenyReason.split)

text \<open>A request is refused with one record, or sent.\<close>

definition refusedOnce :: "subject option \<Rightarrow> string \<Rightarrow> 'l gateway \<Rightarrow> 'l gateway \<times> answer \<Rightarrow> bool" where
  "refusedOnce subj msgID g r \<longleftrightarrow> (\<exists>ev. g_trace (fst r) = g_trace g @ [Recorded ev] \<and> g_limiter (fst r) = g_limiter g \<and>
     ev_Decision ev = DecisionReject \<and> ev_MessageID ev = msgID \<and>
     (case subj of None \<Rightarrow> True | Some s \<Rightarrow> ev_Namespace ev = sj_Namespace s \<and> ev_ServiceAccount ev = sj_ServiceAccount s) \<and>
     (case snd r of Accepted _ _ _ \<Rightarrow> False | Refused p _ \<Rightarrow> 400 \<le> pr_Status p))"

definition eventOf :: "subject option \<Rightarrow> string \<Rightarrow> Event \<Rightarrow> bool" where
  "eventOf subj msgID ev \<longleftrightarrow> ev_MessageID ev = msgID \<and>
     (case subj of None \<Rightarrow> True | Some s \<Rightarrow> ev_Namespace ev = sj_Namespace s \<and> ev_ServiceAccount ev = sj_ServiceAccount s)"

lemma eventOf_restEvent [simp]: "eventOf subj msgID (restEvent msgID subj)"
  by (simp add: eventOf_def restEvent_def blankEvent_def Let_def split: option.split)

lemma eventOf_upd [simp]:
  "eventOf subj msgID (ev\<lparr>ev_From := x\<rparr>) = eventOf subj msgID ev" "eventOf subj msgID (ev\<lparr>ev_To := y\<rparr>) = eventOf subj msgID ev"
  by (simp_all add: eventOf_def split: option.split)

lemma refusedOnceI:
  "eventOf subj msgID ev \<Longrightarrow> 400 \<le> pr_Status p \<Longrightarrow> refusedOnce subj msgID g (Reject g ev reason, Refused p ra)"
  by (auto simp: refusedOnce_def Reject_def emit_def eventOf_def split: option.splits)

lemma refusedOnce_payload:
  "eventOf subj msgID ev \<Longrightarrow> 400 \<le> pr_Status p \<Longrightarrow> refusedOnce subj msgID g (rejectPayload msgID g ev p)"
  unfolding rejectPayload_def by (rule refusedOnceI) simp_all

lemma status_simps [simp]:
  "pr_Status (newProblem slug n title d) = n" "pr_Status (badRequest title d) = 400" "pr_Status bodyTooLarge = 413"
  "pr_Status (unsupportedMedia ct) = 415"
  by (simp_all add: newProblem_def badRequest_def bodyTooLarge_def unsupportedMedia_def)

lemma payload_Inl: "(if multipart then multipartPayload L q else jsonPayload L q) = Inl p \<Longrightarrow> 400 \<le> pr_Status p"
  by (auto simp: multipartPayload_def jsonPayload_def jsonRequest_def
      split: if_splits sum.splits payload_error.splits option.splits)

lemma andThen_Inl: "andThen r f = Inl e \<longleftrightarrow> r = Inl e \<or> (\<exists>a. r = Inr a \<and> f a = Inl e)"
  by (cases r) (simp_all add: andThen_def)

lemma invalid_Inl: "invalid ev title r = Inl (ev', p) \<Longrightarrow> ev' = ev \<and> pr_Status p = 400"
  by (auto simp: invalid_def split: sum.splits)

lemma checkHeaders_Inl:
  "checkHeaders L subj msgID ev req atts msg = Inl (ev', p) \<Longrightarrow> ev' = ev \<and> pr_Status p = 400"
  unfolding checkHeaders_def andThen_Inl by (auto dest: invalid_Inl split: if_splits)

lemma checkMessage_Inl:
  "checkMessage L subj msgID ev payload = Inl (ev', p) \<Longrightarrow> eventOf s msgID ev \<Longrightarrow> eventOf s msgID ev' \<and> pr_Status p = 400"
  unfolding checkMessage_def andThen_Inl Let_def
  by (cases payload) (auto dest!: invalid_Inl checkHeaders_Inl simp: andThen_Inl)

lemma handlePayload_cases:
  obtains (refused) "refusedOnce (Some subj) msgID g (handlePayload S q subj msgID multipart g)"
  | (sent) req atts r where "(if multipart then multipartPayload (sv_lib S) q else jsonPayload (sv_lib S) q) = Inr (req, atts)"
      "checkMessage (sv_lib S) subj msgID (restEvent msgID (Some subj)) (req, atts) = Inr r"
      "handlePayload S q subj msgID multipart g =
        (fst (Send (sv_cluster S) r g), writeResult msgID (snd (Send (sv_cluster S) r g)))"
proof (cases "if multipart then multipartPayload (sv_lib S) q else jsonPayload (sv_lib S) q")
  case (Inl p)
  then show ?thesis using refused payload_Inl [OF Inl] by (simp add: handlePayload_def Let_def refusedOnce_payload)
next
  case (Inr payload)
  obtain req atts where p: "payload = (req, atts)" by force
  show ?thesis
  proof (cases "checkMessage (sv_lib S) subj msgID (restEvent msgID (Some subj)) payload")
    case (Inl e)
    obtain ev p where e: "e = (ev, p)" by force
    from checkMessage_Inl [OF Inl [unfolded e], of "Some subj"] have "eventOf (Some subj) msgID ev" "pr_Status p = 400" by simp_all
    then show ?thesis using refused Inl Inr e by (simp add: handlePayload_def Let_def refusedOnce_payload)
  next
    case (Inr r)
    then show ?thesis using sent [OF _ Inr [unfolded p]] \<open>_ = Inr payload\<close> p
      by (simp add: handlePayload_def Let_def split: prod.split)
  qed
qed

lemma handleSendMessage_cases:
  obtains (refused) "refusedOnce subj msgID g (handleSendMessage S q subj msgID acquire g)"
  | (sent) s req atts r multipart where "subj = Some s" "\<not> sv_shutting S"
      "(if multipart then multipartPayload (sv_lib S) q else jsonPayload (sv_lib S) q) = Inr (req, atts)"
      "checkMessage (sv_lib S) s msgID (restEvent msgID (Some s)) (req, atts) = Inr r"
      "handleSendMessage S q subj msgID acquire g =
        (fst (Send (sv_cluster S) r g), writeResult msgID (snd (Send (sv_cluster S) r g)))"
proof -
  let ?media = "fst (rl_MediaType (sv_lib S) (hq_ContentType q))"
  let ?r = "handleSendMessage S q subj msgID acquire g"
  have "refusedOnce subj msgID g ?r \<or> (\<exists>s. subj = Some s \<and> \<not> sv_shutting S \<and>
      ?r = handlePayload S q s msgID (?media = ''multipart/form-data'') g)"
  proof (cases "sv_shutting S")
    case True
    then show ?thesis by (simp add: handleSendMessage_def Let_def refusedOnceI)
  next
    case serving: False
    show ?thesis
    proof (cases subj)
      case None
      then show ?thesis using serving eventOf_restEvent [of None] by (simp add: handleSendMessage_def Let_def refusedOnceI)
    next
      case (Some s)
      then have ev: "eventOf subj msgID (restEvent msgID (Some s))" by simp
      show ?thesis
      proof (cases "?media \<noteq> ''application/json'' \<and> ?media \<noteq> ''multipart/form-data''")
        case True
        then show ?thesis using serving Some refusedOnce_payload [OF ev, of "unsupportedMedia (hq_ContentType q)" g]
          by (simp add: handleSendMessage_def Let_def)
      next
        case False
        then show ?thesis using serving Some ev
          by (cases "reserve (sv_bodies S) (hq_ContentLength q) acquire")
            (auto simp: handleSendMessage_def Let_def intro!: refusedOnceI)
      qed
    qed
  qed
  then show ?thesis
  proof (elim disjE exE conjE)
    fix s
    assume s: "subj = Some s" "\<not> sv_shutting S" "?r = handlePayload S q s msgID (?media = ''multipart/form-data'') g"
    show ?thesis
    proof (cases rule: handlePayload_cases [of s msgID g S q "?media = ''multipart/form-data''"])
      case refused
      then show ?thesis using s that(1) by simp
    next
      case (sent req atts r)
      then show ?thesis using s that(2) by simp
    qed
  qed (rule refused)
qed

section \<open>Header maps\<close>

text \<open>The headers by canonical key.\<close>

definition canonHeaders :: "labels \<Rightarrow> labels" where
  "canonHeaders h = map (\<lambda>(k, v). (canonicalKey k, v)) h"

lemma canonHeaders_simps [simp]:
  "canonHeaders [] = []" "canonHeaders ((k, v) # h) = (canonicalKey k, v) # canonHeaders h"
  by (simp_all add: canonHeaders_def)

lemma distinct_canonHeaders: "headersOK h \<Longrightarrow> distinct (map fst (canonHeaders h))"
  by (simp add: headersOK_def canonHeaders_def comp_def case_prod_unfold)

lemma canonHeaders_perm:
  assumes "headersOK h" "mset h' = mset h"
  shows "map_of (canonHeaders h') = map_of (canonHeaders h)" "distinct (map fst (canonHeaders h'))"
proof -
  have d: "distinct (map fst (canonHeaders h))" by (rule distinct_canonHeaders [OF assms(1)])
  have m: "mset (canonHeaders h') = mset (canonHeaders h)" using assms(2) by (simp add: canonHeaders_def)
  then have "mset (map fst (canonHeaders h')) = mset (map fst (canonHeaders h))" by simp
  then show d': "distinct (map fst (canonHeaders h'))" using d by (metis mset_eq_imp_distinct_iff)
  from m have "set (canonHeaders h') = set (canonHeaders h)" by (rule mset_eq_setD)
  then show "map_of (canonHeaders h') = map_of (canonHeaders h)"
    using map_of_inject_set [OF d' d] by simp
qed

lemma setHeaders_map_of:
  assumes "setHeaders U h hdr = Inr out" "distinct (map fst (canonHeaders h))"
    and "\<And>k. canonicalKey k = x \<Longrightarrow> \<not> isReservedHeader U k"
  shows "map_of out x = (case map_of (canonHeaders h) x of None \<Rightarrow> map_of hdr x | Some v \<Rightarrow> Some v)"
  using assms(1,2)
proof (induction h arbitrary: hdr)
  case (Cons p h)
  obtain k v where p: "p = (k, v)" by force
  have d: "distinct (map fst (canonHeaders h))" "map_of (canonHeaders h) (canonicalKey k) = None"
    using Cons.prems(2) by (simp_all add: p map_of_eq_None_iff)
  show ?case
  proof (cases "isReservedHeader U k")
    case True
    then have "canonicalKey k \<noteq> x" using assms(3) by blast
    then show ?thesis using True Cons.IH [OF _ d(1)] Cons.prems(1) by (auto simp: p)
  next
    case False
    then have "setHeaders U h (headerSet k v hdr) = Inr out"
      using Cons.prems(1) by (auto simp: p split: option.splits if_splits)
    from Cons.IH [OF this d(1)] show ?thesis using d(2)
      by (cases "x = canonicalKey k") (simp_all add: p map_of_headerSet split: option.split)
  qed
qed simp

lemma addressHeadersFrom_map_of:
  assumes "addressHeadersFrom L (s, rs) h = Inr (sender, replyTo)" "distinct (map fst (canonHeaders h))"
  shows "(case map_of (canonHeaders h) ''Sender'' of None \<Rightarrow> sender = s | Some v \<Rightarrow> senderHeader L v = Inr sender) \<and>
    (case map_of (canonHeaders h) ''Reply-To'' of None \<Rightarrow> replyTo = rs
      | Some v \<Rightarrow> (\<exists>as. replyToHeader L v = Inr as \<and> replyTo = rs @ as))"
  using assms
proof (induction h arbitrary: s rs)
  case (Cons p h)
  obtain k v where p: "p = (k, v)" by force
  have d: "distinct (map fst (canonHeaders h))" "map_of (canonHeaders h) (canonicalKey k) = None"
    using Cons.prems(2) by (simp_all add: p map_of_eq_None_iff)
  have e: "map_of (canonHeaders (p # h)) x = (if x = canonicalKey k then Some v else map_of (canonHeaders h) x)" for x
    by (simp add: p)
  consider "canonicalKey k = ''Sender''" | "canonicalKey k = ''Reply-To''"
    | "canonicalKey k \<noteq> ''Sender''" "canonicalKey k \<noteq> ''Reply-To''" by blast
  then show ?case
  proof cases
    case 1
    then obtain a where a: "senderHeader L v = Inr a" "addressHeadersFrom L (a, rs) h = Inr (sender, replyTo)"
      using Cons.prems(1) by (auto simp: p split: sum.splits)
    from Cons.IH [OF a(2) d(1)] show ?thesis using 1 d(2) a(1) by (simp add: e)
  next
    case 2
    then obtain as where a: "replyToHeader L v = Inr as" "addressHeadersFrom L (s, rs @ as) h = Inr (sender, replyTo)"
      using Cons.prems(1) by (auto simp: p split: sum.splits)
    from Cons.IH [OF a(2) d(1)] show ?thesis using 2 d(2) a(1) by (simp add: e)
  next
    case 3
    then have "addressHeadersFrom L (s, rs) h = Inr (sender, replyTo)" using Cons.prems(1) by (simp add: p)
    from Cons.IH [OF this d(1)] show ?thesis using 3 by (simp add: e)
  qed
qed simp

lemma validHeaderFieldByte_ascii: "validHeaderFieldByte c \<Longrightarrow> is_ascii c"
  by (auto simp: validHeaderFieldByte_def go_defs)

lemma canonical_unreserved:
  assumes "canonicalKey k = x" "list_all validHeaderFieldByte x"
    and "map ascii_lower x \<notin> set [''from'', ''to'', ''cc'', ''bcc'', ''subject'', ''date'',
      ''message-id'', ''mime-version'', ''content-type'', ''content-transfer-encoding'']"
  shows "\<not> isReservedHeader U k"
proof -
  have "list_all validHeaderFieldByte k" using assms(1,2) by (cases "list_all validHeaderFieldByte k") (auto simp: canonicalKey_def)
  then have "list_all is_ascii k" by (simp add: list_all_iff validHeaderFieldByte_ascii)
  then have "ToLower U k = map ascii_lower k" by (simp add: ToLower_ascii)
  then show ?thesis using assms(1,3) lower_canonicalKey [of k] by (simp add: isReservedHeader_def)
qed

section \<open>Properties\<close>

text \<open>C13. Every request leaves exactly one audit record, whatever is wrong with it: it carries the
  request's message ID and the caller, and it says accepted exactly if the answer is 202.\<close>

theorem rest_audited_once:
  assumes "keyed V (sv_cluster S)" "valid_cache V (g_validity g)"
  shows "\<exists>pre post ev. g_trace (fst (handleSendMessage S q subj msgID acquire g)) = g_trace g @ pre @ Recorded ev # post \<and>
    (\<forall>e. Recorded e \<notin> set pre \<union> set post) \<and> ev_Decision ev \<noteq> DecisionNone \<and>
    (ev_Decision ev = DecisionAccept \<longleftrightarrow> answerStatus (snd (handleSendMessage S q subj msgID acquire g)) = 202) \<and>
    ev_MessageID ev = msgID \<and>
    (case subj of None \<Rightarrow> True | Some s \<Rightarrow> ev_Namespace ev = sj_Namespace s \<and> ev_ServiceAccount ev = sj_ServiceAccount s)"
proof (cases rule: handleSendMessage_cases [of subj msgID g S q acquire])
  case refused
  then obtain ev where "g_trace (fst (handleSendMessage S q subj msgID acquire g)) = g_trace g @ [] @ Recorded ev # []"
    "ev_Decision ev = DecisionReject" "ev_MessageID ev = msgID"
    "case subj of None \<Rightarrow> True | Some s \<Rightarrow> ev_Namespace ev = sj_Namespace s \<and> ev_ServiceAccount ev = sj_ServiceAccount s"
    "answerStatus (snd (handleSendMessage S q subj msgID acquire g)) \<noteq> 202"
    unfolding refusedOnce_def by (auto split: answer.splits)
  then show ?thesis by (intro exI [of _ "[]"] exI [of _ ev]) simp
next
  case (sent s req atts r multipart)
  obtain effs where o: "outcome (sv_cluster S) r (g_limiter g) effs (snd (Send (sv_cluster S) r g)) (g_limiter (fst (Send (sv_cluster S) r g)))"
      "g_trace (fst (Send (sv_cluster S) r g)) = g_trace g @ effs"
    using Send_outcome [OF assms(2,1)] by blast
  from outcome_record [OF o(1)] obtain pre post ev
    where e: "effs = pre @ Recorded ev # post" "\<forall>e. Recorded e \<notin> set pre \<union> set post" "about r (snd (Send (sv_cluster S) r g)) ev"
    unfolding recorded_once_def by blast
  from sent(4) have r: "rq_MessageID r = msgID" "id_Namespace (rq_Identity r) = sj_Namespace s"
    "id_ServiceAccount (rq_Identity r) = sj_ServiceAccount s"
    by (auto elim!: checkMessage_Inr simp: restRequest_def)
  show ?thesis using e o(2) r sent(1,5) by (auto simp: about_def answer_Accepted)
qed

text \<open>C11. Only a checked message leaves through REST: what a driver is given names valid mailboxes and at
  least one recipient, its headers have no line breaks, fit a line and name no field twice, its attachments
  have clean names and distinct valid content IDs, it has content, and the server was not draining.\<close>

theorem rest_relays_checked:
  assumes "keyed V (sv_cluster S)" "valid_cache V (g_validity g)"
    and "g_trace (fst (handleSendMessage S q subj msgID acquire g)) = g_trace g @ effs"
    and "Sent cfg m \<in> set effs \<or> SentRaw cfg fr rs raw \<in> set effs"
  shows "Sent cfg m \<in> set effs \<and> relayable (sv_lib S) m \<and> \<not> sv_shutting S \<and> subj \<noteq> None \<and>
    ms_MessageID m = ''<'' @ msgID @ ''@sigillum.local>''"
proof (cases rule: handleSendMessage_cases [of subj msgID g S q acquire])
  case refused
  then show ?thesis using assms(3,4) by (auto simp: refusedOnce_def)
next
  case (sent s req atts r multipart)
  obtain effs' where o: "outcome (sv_cluster S) r (g_limiter g) effs' (snd (Send (sv_cluster S) r g)) (g_limiter (fst (Send (sv_cluster S) r g)))"
      "g_trace (fst (Send (sv_cluster S) r g)) = g_trace g @ effs'"
    using Send_outcome [OF assms(2,1)] by blast
  have "effs' = effs" using o(2) assms(3) sent(5) by simp
  note d = outcome_delivery [OF o(1), unfolded this, OF assms(4)]
  have "rq_Raw r = None" "ms_MessageID (rq_Message r) = ''<'' @ msgID @ ''@sigillum.local>''"
    using sent(4) by (auto elim!: checkMessage_Inr simp: restRequest_def driverMessage_def)
  moreover have "relayable (sv_lib S) (rq_Message r)"
    using checkMessage_relayable [OF sent(4) payload_OK [OF sent(3)]] .
  ultimately show ?thesis using d assms(4) sent(1,2) by auto
qed

text \<open>C14. The Sender and Reply-To fields of the message that goes out are those that were checked: in
  whatever order the checks and the driver read the header map, the value the driver writes is the one
  whose addresses the policy is given, and a field that is not written has no address.\<close>

theorem rest_address_fields_checked:
  assumes "validateRequestHeaders h = None" "addressHeadersOf L h = Inr (sender, replyTo)"
    and "mset h' = mset h" "setHeaders U h' (baseHeaders date messageID msg) = Inr out"
  shows "(case map_of out ''Sender'' of None \<Rightarrow> sender = [] | Some v \<Rightarrow> senderHeader L v = Inr sender) \<and>
    (case map_of out ''Reply-To'' of None \<Rightarrow> replyTo = [] | Some v \<Rightarrow> replyToHeader L v = Inr replyTo)"
proof -
  have ok: "headersOK h" using assms(1) by (simp add: validateRequestHeaders_iff)
  note same = canonHeaders_perm [OF ok assms(3)]
  have unres: "\<not> isReservedHeader U k" if "canonicalKey k = ''Sender'' \<or> canonicalKey k = ''Reply-To''" for k
    using that by (elim disjE) (erule canonical_unreserved; simp add: validHeaderFieldByte_def go_defs)+
  have "map_of (baseHeaders date messageID msg) ''Sender'' = None" "map_of (baseHeaders date messageID msg) ''Reply-To'' = None"
    by (simp_all add: baseHeaders_def Let_def map_of_headerSet canonicalKey_eval)
  then have "map_of out ''Sender'' = map_of (canonHeaders h) ''Sender''"
    "map_of out ''Reply-To'' = map_of (canonHeaders h) ''Reply-To''"
    using setHeaders_map_of [OF assms(4) same(2), of "''Sender''"] setHeaders_map_of [OF assms(4) same(2), of "''Reply-To''"] unres
    by (simp_all add: same(1) split: option.split)
  then show ?thesis
    using addressHeadersFrom_map_of [OF assms(2) [unfolded addressHeadersOf_def] distinct_canonHeaders [OF ok]]
    by (auto split: option.splits)
qed

text \<open>The two transports agree on a result: an accepted message is answered 202, a permanent SMTP reply
  corresponds to a 403, 413 or 422, which a client does not retry, and a temporary one to a 429, 502 or 503.\<close>

theorem rest_smtp_agree:
  "case resultError res msgID of
     None \<Rightarrow> answerStatus (writeResult msgID res) = 202
   | Some e \<Rightarrow> answerStatus (writeResult msgID res) \<in> (if se_Code e < 500 then {429, 502, 503} else {403, 413, 422})"
  by (cases "re_Status res"; cases "re_DenyReason res")
    (auto simp: resultError_def writeResult_def writePolicyDeny_def writeUpstreamError_def resultProblem_def
      replyWithID_def smtpError_def Let_def split: DenyReason.split)

text \<open>C38. The size that a policy limits does not count file names: an attachment with a name of any length
  passes the checks and adds only its content to the estimate.\<close>

theorem estimate_omits_filenames:
  "\<exists>a att. validateAttachmentMeta L a = None \<and> decodeAttachments [a] = Inr [att] \<and> length (at_Filename att) = n \<and>
     estimateSize (req\<lparr>rb_Attachments := [a]\<rparr>) [att] = estimateSize req []"
proof -
  let ?a = "\<lparr>ra_Filename = replicate n CHR ''x'', ra_ContentType = [], ra_Disposition = [], ra_ContentID = [], ra_ContentBase64 = []\<rparr>"
  have "list_all is_ascii (replicate n CHR ''x'')" by (simp add: list_all_iff is_ascii_def)
  then have "runes (replicate n CHR ''x'') = replicate n (byte CHR ''x'')" by (simp add: runes_ascii)
  then have "firstBidiOrFormatControl (replicate n CHR ''x'') = 0"
    by (simp add: firstBidiOrFormatControl_def bidiControl_def filter_empty_conv split: list.split)
  moreover have "TrimSpace [] = []" by code_simp
  ultimately have "validateAttachmentMeta L ?a = None"
    by (simp add: validateAttachmentMeta_def validateContentIDMeta_def ContainsAny_def list_ex_iff)
  moreover have "decodeStd64 stdAlphabet [] = Some []" by code_simp
  ultimately show ?thesis by (intro exI [of _ ?a]) (simp add: decodeAttachments_def estimateSize_def)
qed

section \<open>A request, evaluated\<close>

definition sample_mail :: mail_lib where
  "sample_mail = \<lparr>ml_ReadMessage = (\<lambda>_. None), ml_AddressList = (\<lambda>s. Some [s]), ml_DecodeHeader = Some,
     ml_ParseMediaType = (\<lambda>_. None), ml_Parts = (\<lambda>_ _. ([], True)), ml_Decode = (\<lambda>_ _. None),
     ml_errorText = (\<lambda>_. []), ml_ErrAuthUnknownMechanism = smtpError 500 (5, 5, 1) []\<rparr>"

definition sample_body :: requestBody where
  "sample_body = emptyBody\<lparr>rb_From := ''App@ex.com'', rb_To := [''x@ok.com''], rb_Subject := ''hi'',
     rb_Body := \<lparr>rbc_Text = replicate 48 CHR ''t'', rbc_HTML = []\<rparr>\<rparr>"

definition sample_rest_lib :: rest_lib where
  "sample_rest_lib = \<lparr>rl_externals = sample_externals, rl_mail = sample_mail, rl_MediaType = (\<lambda>s. (s, True)),
     rl_DecodeTop = (\<lambda>_. Inr (Some [], True)), rl_DecodeBody = (\<lambda>_. Inr (sample_body, True))\<rparr>"

definition sample_server :: "unit rest_server" where
  "sample_server = \<lparr>sv_cluster = sample_cluster, sv_lib = sample_rest_lib, sv_bodies = None, sv_shutting = False\<rparr>"

definition sample_http :: http_request where
  "sample_http = \<lparr>hq_ContentType = ''application/json'', hq_ContentLength = 2, hq_Body = (''{}'', None), hq_Parts = Inr []\<rparr>"

definition sample_subject :: subject where
  "sample_subject = \<lparr>sj_Namespace = ''apps'', sj_ServiceAccount = ''app''\<rparr>"

definition sample_rest_request :: Request where
  "sample_rest_request = restRequest sample_subject ''m1''
     (driverMessage ''m1'' sample_body [] ([], ''App@ex.com'') [([], ''x@ok.com'')] [] []) [] [] 50"

lemma sample_payload: "jsonPayload sample_rest_lib sample_http = Inr (sample_body, [])"
  by (simp add: jsonPayload_def readLimited_def maxBody_def sample_http_def jsonRequest_def decodeRequestJSON_def
      decodeOneJSON_def sample_rest_lib_def sample_body_def emptyBody_def decodeAttachments_def)

lemma sample_checked:
  "checkMessage sample_rest_lib sample_subject ''m1'' (restEvent ''m1'' (Some sample_subject)) (sample_body, []) =
     Inr sample_rest_request"
  by code_simp

lemma sample_handled:
  "handleSendMessage sample_server sample_http (Some sample_subject) ''m1'' acquire sample_gateway =
     (fst (Send sample_cluster sample_rest_request sample_gateway),
      writeResult ''m1'' (snd (Send sample_cluster sample_rest_request sample_gateway)))"
proof -
  have l: "sv_lib sample_server = sample_rest_lib" "sv_cluster sample_server = sample_cluster" "\<not> sv_shutting sample_server"
    "sv_bodies sample_server = None" "hq_ContentType sample_http = ''application/json''"
    "rl_MediaType sample_rest_lib s = (s, True)" for s
    by (simp_all add: sample_server_def sample_http_def sample_rest_lib_def)
  show ?thesis
    by (simp add: handleSendMessage_def handlePayload_def Let_def l reserve_def sample_payload sample_checked split: prod.split)
qed

lemma sample_rest_sent:
  "answerStatus (snd (handleSendMessage sample_server sample_http (Some sample_subject) ''m1'' acquire sample_gateway)) = 202"
  "\<exists>cfg. Sent cfg (rq_Message sample_rest_request) \<in>
     set (g_trace (fst (handleSendMessage sample_server sample_http (Some sample_subject) ''m1'' acquire sample_gateway)))"
proof -
  have v: "request_view sample_rest_request = request_view sample_request"
    by (simp add: request_view_def sample_rest_request_def sample_request_def restRequest_def driverMessage_def
        Recipients_def toDriverAddress_def)
  have "rq_Identity sample_rest_request = rq_Identity sample_request" "rq_Raw sample_rest_request = None"
    by (simp_all add: sample_rest_request_def sample_request_def restRequest_def sample_subject_def)
  note s = sample_Send_like [OF this(1) v this(2)]
  show "answerStatus (snd (handleSendMessage sample_server sample_http (Some sample_subject) ''m1'' acquire sample_gateway)) = 202"
    using s by (simp add: sample_handled answer_Accepted)
  show "\<exists>cfg. Sent cfg (rq_Message sample_rest_request) \<in>
     set (g_trace (fst (handleSendMessage sample_server sample_http (Some sample_subject) ''m1'' acquire sample_gateway)))"
    using s by (simp add: sample_handled)
qed

lemma sample_server_keyed:
  "keyed (\<lambda>_ _. []) (sv_cluster sample_server)" "valid_cache (\<lambda>_ _. []) (g_validity sample_gateway)"
  "g_trace sample_gateway = []"
  using sample_keyed by (simp_all add: sample_server_def sample_gateway_def)

theorem rest_audited_once_witness:
  "\<exists>pre post ev. g_trace (fst (handleSendMessage sample_server sample_http (Some sample_subject) ''m1'' (\<lambda>_. True) sample_gateway))
     = pre @ Recorded ev # post \<and> ev_Decision ev = DecisionAccept \<and> ev_Namespace ev = ''apps''"
  using rest_audited_once [OF sample_server_keyed(1,2), of sample_http "Some sample_subject" "''m1''" "\<lambda>_. True"]
    sample_rest_sent(1) [of "\<lambda>_. True"] sample_server_keyed(3)
  by (auto simp: sample_subject_def)

theorem rest_relays_checked_witness:
  "\<exists>cfg. Sent cfg (rq_Message sample_rest_request) \<in>
      set (g_trace (fst (handleSendMessage sample_server sample_http (Some sample_subject) ''m1'' (\<lambda>_. True) sample_gateway))) \<and>
    relayable (sv_lib sample_server) (rq_Message sample_rest_request)"
proof -
  let ?t = "g_trace (fst (handleSendMessage sample_server sample_http (Some sample_subject) ''m1'' (\<lambda>_. True) sample_gateway))"
  obtain cfg where s: "Sent cfg (rq_Message sample_rest_request) \<in> set ?t" using sample_rest_sent(2) by blast
  with rest_relays_checked [OF sample_server_keyed(1,2), of sample_http "Some sample_subject" "''m1''" "\<lambda>_. True" ?t cfg
      "rq_Message sample_rest_request" "[]" "[]" "[]"] sample_server_keyed(3)
  show ?thesis by auto
qed

definition sample_headers :: labels where
  "sample_headers = [(''sender'', ''App@ex.com''), (''X-A'', ''b'')]"

theorem rest_address_fields_checked_witness:
  "\<exists>out. setHeaders sample_tables (rev sample_headers) (baseHeaders [] [] (rq_Message sample_rest_request)) = Inr out \<and>
     (case map_of out ''Sender'' of None \<Rightarrow> False | Some v \<Rightarrow> senderHeader sample_rest_lib v = Inr ''App@ex.com'')"
proof -
  have h: "validateRequestHeaders sample_headers = None"
    "addressHeadersOf sample_rest_lib sample_headers = Inr (''App@ex.com'', [])"
    by code_simp+
  have "case setHeaders sample_tables (rev sample_headers) (baseHeaders [] [] (rq_Message sample_rest_request)) of
      Inl _ \<Rightarrow> False | Inr out \<Rightarrow> map_of out ''Sender'' \<noteq> None" by code_simp
  then obtain out where o: "setHeaders sample_tables (rev sample_headers) (baseHeaders [] [] (rq_Message sample_rest_request)) = Inr out"
    "map_of out ''Sender'' \<noteq> None" by (auto split: sum.splits)
  show ?thesis using rest_address_fields_checked [OF h _ o(1)] o by (auto split: option.splits)
qed

end
