(* ===== verification/Rest_Auth.thy ===== *)
theory Rest_Auth
  imports Rest_Api
begin

text \<open>
  Who calls: \<^verbatim>\<open>internal/apiserver/auth/tokenreview.go\<close> and \<^verbatim>\<open>authMiddleware\<close> of \<^verbatim>\<open>internal/apiserver/server.go\<close>.
  \<open>Authenticate\<close> reviews a token with the Kubernetes API and caches the answer; the LRU cache is the
  record \<open>token_lru\<close>, of which \<open>token_lru_ok\<close> states the documented behaviour.  Shown: over any run of
  calls, a token is accepted only because a review accepted that token for this service's audience, in this call
  or in an earlier one that is less than the cache's TTL old and before the token's own expiry; and
  behind the middleware nothing is sent for a caller that was not authenticated.
\<close>

section \<open>The authenticator\<close>

record Subject =
  su_Namespace :: string
  su_ServiceAccount :: string
  su_UID :: string
  su_Audiences :: "string list"
  su_Groups :: "string list"

record cacheEntry =
  ce_subject :: "Subject option"
  ce_reason :: string
  ce_expires :: time

record 'c token_lru =
  tl_Get :: "'c \<Rightarrow> string \<Rightarrow> 'c \<times> cacheEntry option"
  tl_Add :: "'c \<Rightarrow> string \<Rightarrow> cacheEntry \<Rightarrow> 'c"

text \<open>A lookup and an insertion do not change what other lookups find, except that entries may be evicted.\<close>

definition token_lru_ok :: "'c token_lru \<Rightarrow> bool" where
  "token_lru_ok L \<longleftrightarrow>
     (\<forall>c k k' e. snd (tl_Get L (fst (tl_Get L c k)) k') = Some e \<longrightarrow> snd (tl_Get L c k') = Some e) \<and>
     (\<forall>c k v k' e. snd (tl_Get L (tl_Add L c k v) k') = Some e \<longrightarrow>
        k' = k \<and> e = v \<or> snd (tl_Get L c k') = Some e)"

text \<open>
  \<open>au_exp\<close> reads the exp claim of a JSON payload: whether it is positive and its whole seconds.
  \<open>au_Unquote\<close> is \<^verbatim>\<open>strconv.Unquote\<close>.
\<close>

record 'c Authenticator =
  au_sha :: "bytes \<Rightarrow> bytes"
  au_exp :: "bytes \<Rightarrow> (bool \<times> int) option"
  au_Unquote :: "string \<Rightarrow> string option"
  au_audiences :: "string list"
  au_ttl :: duration
  au_lru :: "'c token_lru"

definition trimAudiences :: "string list \<Rightarrow> string list" where
  "trimAudiences audiences = filter (\<lambda>a. a \<noteq> []) (map TrimSpace audiences)"

text \<open>\<^verbatim>\<open>New\<close>: no authenticator without a client or an audience.\<close>

definition newAuthenticator :: "bool \<Rightarrow> string list \<Rightarrow> 'c Authenticator \<Rightarrow> string + 'c Authenticator" where
  "newAuthenticator client audiences A =
     (if \<not> client then Inl ''kubernetes client is required''
      else if trimAudiences audiences = [] then Inl ''at least one token audience is required''
      else Inr (A\<lparr>au_audiences := trimAudiences audiences\<rparr>))"

datatype auth_error = EmptyToken | ErrUnavailable string | Rejected string | NotServiceAccount string

record review =
  rv_Authenticated :: bool
  rv_Error :: string
  rv_Audiences :: "string list"
  rv_Username :: string
  rv_UID :: string
  rv_Groups :: "string list"

definition hashToken :: "'c Authenticator \<Rightarrow> string \<Rightarrow> string" where
  "hashToken A t = hexEncode (au_sha A t)"

definition TrimRightByte :: "string \<Rightarrow> char \<Rightarrow> string" where
  "TrimRightByte s c = rev (dropWhile (\<lambda>x. x = c) (rev s))"

definition tokenExpiry :: "'c Authenticator \<Rightarrow> string \<Rightarrow> time option" where
  "tokenExpiry A token = (case Split token CHR ''.'' of
     [_, payload, _] \<Rightarrow> (case decodeRaw64 urlAlphabet (TrimRightByte payload CHR ''='') of
        None \<Rightarrow> None
      | Some json \<Rightarrow> (case au_exp A json of
          Some (positive, secs) \<Rightarrow> if positive then Some (secs * second) else None | None \<Rightarrow> None))
   | _ \<Rightarrow> None)"

text \<open>The first match of \<^verbatim>\<open>kubeAudienceError\<close>: its list of audiences.\<close>

fun kubeAudienceError :: "string \<Rightarrow> string option" where
  "kubeAudienceError [] = None"
| "kubeAudienceError (c # s) =
     (let p = ''token audiences [''; r = drop (length p) (c # s); m = takeWhile (\<lambda>x. x \<noteq> CHR '']'') r in
      if HasPrefix (c # s) p \<and> HasPrefix (drop (length m) r) ''] is invalid for the target audiences''
      then Some m else kubeAudienceError s)"

text \<open>The rest of a quoted string after its opening quote, up to its closing one; \<^term>\<open>None\<close> if there is none.\<close>

fun closeQuote :: "string \<Rightarrow> string option" where
  "closeQuote [] = None"
| "closeQuote (c # s) =
     (if c = CHR 0x22 then Some [c]
      else if c = CHR 0x5C then (case s of [] \<Rightarrow> None
        | d # s \<Rightarrow> if d = LF then None else map_option (\<lambda>q. c # d # q) (closeQuote s))
      else map_option (\<lambda>q. c # q) (closeQuote s))"

text \<open>All matches of \<^verbatim>\<open>quotedString\<close>, from the left.\<close>

fun quotedStrings :: "string \<Rightarrow> string list" where
  "quotedStrings [] = []"
| "quotedStrings (c # s) =
     (if c = CHR 0x22 then (case closeQuote s of
          None \<Rightarrow> quotedStrings s | Some q \<Rightarrow> (c # q) # quotedStrings (drop (length q) s))
      else quotedStrings s)"

definition rejectedAudiences :: "'c Authenticator \<Rightarrow> string \<Rightarrow> string list option" where
  "rejectedAudiences A msg = map_option (\<lambda>m. List.map_filter (au_Unquote A) (quotedStrings m)) (kubeAudienceError msg)"

definition audienceMessage :: "'c Authenticator \<Rightarrow> string list \<Rightarrow> string" where
  "audienceMessage A got =
     (let want = hd (au_audiences A);
          shown = (if got = [] then ''token has no audience'' else ''token audience is '' @ Join got '', '')
      in shown @ '', expected '' @ Join (au_audiences A) '' or '' @ '' (create the token with --audience '' @ want @
         '', or a projected token with audience: '' @ want @ '')'')"

definition audienceMatches :: "'c Authenticator \<Rightarrow> string list \<Rightarrow> bool" where
  "audienceMatches A got \<longleftrightarrow> list_ex (\<lambda>g. list_ex (\<lambda>want. g = want) (au_audiences A)) got"

definition parseServiceAccountUsername :: "string \<Rightarrow> (string \<times> string) option" where
  "parseServiceAccountUsername u =
     (if \<not> HasPrefix u ''system:serviceaccount:'' then None
      else case Cut (TrimPrefix u ''system:serviceaccount:'') CHR '':'' of
        (ns, name, ok) \<Rightarrow> if \<not> ok \<or> ns = [] \<or> name = [] then None else Some (ns, name))"

text \<open>
  One call: the token, the time of the lookup, the two times read after the review, and what the API answers
  to the review.  The state is the cache, \<^term>\<open>None\<close> if caching is off.
\<close>

record call =
  cl_token :: string
  cl_now :: time
  cl_reviewed :: time
  cl_stored :: time
  cl_answer :: "string + review"

definition rejectToken :: "'c Authenticator \<Rightarrow> 'c option \<Rightarrow> string \<Rightarrow> time \<Rightarrow> string \<Rightarrow> 'c option \<times> (auth_error + Subject)" where
  "rejectToken A c key now reason =
     (map_option (\<lambda>c. tl_Add (au_lru A) c key \<lparr>ce_subject = None, ce_reason = reason, ce_expires = now + au_ttl A\<rparr>) c,
      Inl (Rejected reason))"

definition storeSubject :: "'c Authenticator \<Rightarrow> 'c option \<Rightarrow> call \<Rightarrow> string \<Rightarrow> Subject \<Rightarrow> 'c option" where
  "storeSubject A c cl token s = (case c of None \<Rightarrow> None
     | Some c \<Rightarrow>
        let expires = cl_reviewed cl + au_ttl A;
            expires = (case tokenExpiry A token of None \<Rightarrow> expires | Some exp \<Rightarrow> if exp < expires then exp else expires)
        in Some (if cl_stored cl < expires
             then tl_Add (au_lru A) c (hashToken A token) \<lparr>ce_subject = Some s, ce_reason = [], ce_expires = expires\<rparr> else c))"

text \<open>From the API's answer to the result.\<close>

definition reviewToken :: "'c Authenticator \<Rightarrow> 'c option \<Rightarrow> call \<Rightarrow> string \<Rightarrow> 'c option \<times> (auth_error + Subject)" where
  "reviewToken A c cl token = (case cl_answer cl of
     Inl err \<Rightarrow> (c, Inl (ErrUnavailable err))
   | Inr rv \<Rightarrow>
      if \<not> rv_Authenticated rv then
        (let msg = (if rv_Error rv = [] then ''token rejected by kube-apiserver'' else rv_Error rv);
             msg = (case rejectedAudiences A msg of Some got \<Rightarrow> audienceMessage A got | None \<Rightarrow> msg)
         in rejectToken A c (hashToken A token) (cl_reviewed cl) msg)
      else if \<not> audienceMatches A (rv_Audiences rv)
        then rejectToken A c (hashToken A token) (cl_reviewed cl) (audienceMessage A (rv_Audiences rv))
      else case parseServiceAccountUsername (rv_Username rv) of
        None \<Rightarrow> (c, Inl (NotServiceAccount (rv_Username rv)))
      | Some (ns, sa) \<Rightarrow>
          let s = \<lparr>su_Namespace = ns, su_ServiceAccount = sa, su_UID = rv_UID rv, su_Audiences = rv_Audiences rv,
                su_Groups = rv_Groups rv\<rparr>
          in (storeSubject A c cl token s, Inr s))"

definition Authenticate :: "'c Authenticator \<Rightarrow> 'c option \<Rightarrow> call \<Rightarrow> 'c option \<times> (auth_error + Subject)" where
  "Authenticate A c cl =
     (let token = TrimSpace (cl_token cl) in
      if token = [] then (c, Inl EmptyToken)
      else case c of None \<Rightarrow> reviewToken A None cl token
      | Some ca \<Rightarrow> (case tl_Get (au_lru A) ca (hashToken A token) of
          (ca, Some e) \<Rightarrow>
            if cl_now cl < ce_expires e
            then (Some ca, case ce_subject e of None \<Rightarrow> Inl (Rejected (ce_reason e)) | Some s \<Rightarrow> Inr s)
            else reviewToken A (Some ca) cl token
        | (ca, None) \<Rightarrow> reviewToken A (Some ca) cl token))"

section \<open>The middleware\<close>

definition bearerToken :: "unicode_tables \<Rightarrow> string \<Rightarrow> string" where
  "bearerToken U h =
     (let n = length ''Bearer '' in
      if length h \<le> n \<or> \<not> EqualFold U (take n h) ''Bearer '' then [] else TrimSpace (drop n h))"

text \<open>
  A request passes with its subject, or ends here.  \<open>msgID\<close> is the identifier of the record of a refusal; the
  rest of the call is that of the authenticator.
\<close>

definition authMiddleware ::
    "'c Authenticator \<Rightarrow> unicode_tables \<Rightarrow> (auth_error \<Rightarrow> string) \<Rightarrow> string \<Rightarrow> string \<Rightarrow> call \<Rightarrow>
     (subject option \<Rightarrow> 'l gateway \<Rightarrow> 'l gateway \<times> answer) \<Rightarrow> 'c option \<Rightarrow> 'l gateway \<Rightarrow> 'c option \<times> 'l gateway \<times> answer" where
  "authMiddleware A U text header msgID cl nextHandler c g =
     (let token = bearerToken U header; ev = restEvent msgID None in
      if token = [] then (c, Reject g ev ''missing_token'', Refused (newProblem ''invalid-token'' 401 ''Missing Bearer token''
        (Says ''set Authorization: Bearer <token>'')) None)
      else case Authenticate A c (cl\<lparr>cl_token := token\<rparr>) of
        (c, Inl (ErrUnavailable _)) \<Rightarrow> (c, Reject g ev ''auth_unavailable'',
          Refused (newProblem ''unavailable'' 503 ''Service temporarily unavailable''
            (Says ''the token could not be reviewed, try again later'')) (Some ''5''))
      | (c, Inl err) \<Rightarrow> (c, Reject g ev ''invalid_token'',
          Refused (newProblem ''invalid-token'' 401 ''Invalid token'' (Says (text err))) None)
      | (c, Inr s) \<Rightarrow>
          (c, nextHandler (Some \<lparr>sj_Namespace = su_Namespace s, sj_ServiceAccount = su_ServiceAccount s\<rparr>) g))"

section \<open>What a cached answer stands for\<close>

text \<open>A call whose review accepted the token as a subject.\<close>

definition grants :: "'c Authenticator \<Rightarrow> call \<Rightarrow> Subject \<Rightarrow> bool" where
  "grants A cl s \<longleftrightarrow> (case cl_answer cl of Inl _ \<Rightarrow> False
     | Inr rv \<Rightarrow> rv_Authenticated rv \<and> set (rv_Audiences rv) \<inter> set (au_audiences A) \<noteq> {} \<and>
         rv_Username rv = ''system:serviceaccount:'' @ su_Namespace s @ '':'' @ su_ServiceAccount s \<and>
         su_Namespace s \<noteq> [] \<and> su_ServiceAccount s \<noteq> [] \<and> CHR '':'' \<notin> set (su_Namespace s))"

lemma parseServiceAccountUsername_Some:
  assumes "parseServiceAccountUsername u = Some (ns, name)"
  shows "u = ''system:serviceaccount:'' @ ns @ '':'' @ name \<and> ns \<noteq> [] \<and> name \<noteq> [] \<and> CHR '':'' \<notin> set ns"
proof -
  have p: "HasPrefix u ''system:serviceaccount:''"
    and c: "Cut (TrimPrefix u ''system:serviceaccount:'') CHR '':'' = (ns, name, True)" and n: "ns \<noteq> []" "name \<noteq> []"
    using assms by (auto simp: parseServiceAccountUsername_def split: if_splits prod.splits)
  from p obtain r where r: "u = ''system:serviceaccount:'' @ r" unfolding HasPrefix_def prefix_def by blast
  have "TrimPrefix u ''system:serviceaccount:'' = r" using p by (simp add: TrimPrefix_def r)
  then show ?thesis using Cut_TrueD [of r "CHR '':''" ns name] c n r by simp
qed

lemma reviewToken_Inr:
  assumes "reviewToken A c cl token = (c', Inr s)"
  shows "grants A cl s \<and> c' = storeSubject A c cl token s"
proof -
  from assms obtain rv ns sa where r: "cl_answer cl = Inr rv" "rv_Authenticated rv" "audienceMatches A (rv_Audiences rv)"
    "parseServiceAccountUsername (rv_Username rv) = Some (ns, sa)" "su_Namespace s = ns" "su_ServiceAccount s = sa"
    "c' = storeSubject A c cl token s"
    by (auto simp: reviewToken_def rejectToken_def Let_def split: sum.splits if_splits option.splits)
  from r(3) have "set (rv_Audiences rv) \<inter> set (au_audiences A) \<noteq> {}"
    by (auto simp: audienceMatches_def list_ex_iff)
  then show ?thesis using r parseServiceAccountUsername_Some [OF r(4)] by (simp add: grants_def)
qed

text \<open>
  The cache after some calls: every accepted token in it was granted by one of them, and its entry lives neither
  longer than the TTL nor longer than the token.
\<close>

definition backed :: "'c Authenticator \<Rightarrow> call list \<Rightarrow> string \<Rightarrow> cacheEntry \<Rightarrow> bool" where
  "backed A cls k e \<longleftrightarrow> (case ce_subject e of None \<Rightarrow> True | Some s \<Rightarrow>
     \<exists>cl\<in>set cls. k = hashToken A (TrimSpace (cl_token cl)) \<and> grants A cl s \<and> ce_expires e \<le> cl_reviewed cl + au_ttl A \<and>
       (\<forall>exp. tokenExpiry A (TrimSpace (cl_token cl)) = Some exp \<longrightarrow> ce_expires e \<le> exp))"

definition cacheBacked :: "'c Authenticator \<Rightarrow> call list \<Rightarrow> 'c option \<Rightarrow> bool" where
  "cacheBacked A cls c \<longleftrightarrow> (case c of None \<Rightarrow> True
     | Some ca \<Rightarrow> \<forall>k e. snd (tl_Get (au_lru A) ca k) = Some e \<longrightarrow> backed A cls k e)"

lemma backed_mono: "backed A cls k e \<Longrightarrow> set cls \<subseteq> set cls' \<Longrightarrow> backed A cls' k e"
  unfolding backed_def by (auto split: option.splits)

lemma cacheBacked_mono: "cacheBacked A cls c \<Longrightarrow> set cls \<subseteq> set cls' \<Longrightarrow> cacheBacked A cls' c"
  unfolding cacheBacked_def by (auto intro: backed_mono split: option.splits)

lemma cacheBacked_Get:
  "token_lru_ok (au_lru A) \<Longrightarrow> cacheBacked A cls (Some ca) \<Longrightarrow> cacheBacked A cls (Some (fst (tl_Get (au_lru A) ca k)))"
  unfolding cacheBacked_def token_lru_ok_def option.case by meson

lemma cacheBacked_Add:
  assumes "token_lru_ok (au_lru A)" "cacheBacked A cls (Some ca)" "backed A cls k e"
  shows "cacheBacked A cls (Some (tl_Add (au_lru A) ca k e))"
  using assms unfolding cacheBacked_def token_lru_ok_def option.case by metis

lemma cacheBacked_reject:
  assumes "token_lru_ok (au_lru A)" "cacheBacked A cls c"
  shows "cacheBacked A cls (fst (rejectToken A c k now reason))"
proof (cases c)
  case (Some ca)
  then show ?thesis using assms by (simp add: rejectToken_def cacheBacked_Add backed_def)
qed (simp add: rejectToken_def cacheBacked_def)

lemma cacheBacked_store:
  assumes "token_lru_ok (au_lru A)" "cacheBacked A cls c" "cl \<in> set cls" "grants A cl s"
  shows "cacheBacked A cls (storeSubject A c cl (TrimSpace (cl_token cl)) s)"
proof (cases c)
  case (Some ca)
  let ?ttl = "cl_reviewed cl + au_ttl A" and ?t = "TrimSpace (cl_token cl)"
  let ?x = "case tokenExpiry A ?t of None \<Rightarrow> ?ttl | Some exp \<Rightarrow> if exp < ?ttl then exp else ?ttl"
  have "backed A cls (hashToken A ?t) \<lparr>ce_subject = Some s, ce_reason = [], ce_expires = ?x\<rparr>"
    using assms(3,4) by (auto simp: backed_def split: option.split)
  then show ?thesis using assms(1,2) Some by (simp add: storeSubject_def Let_def cacheBacked_Add)
qed (simp add: storeSubject_def cacheBacked_def)

lemma cacheBacked_review:
  assumes "token_lru_ok (au_lru A)" "cacheBacked A cls c" "cl \<in> set cls"
    "reviewToken A c cl (TrimSpace (cl_token cl)) = (c', r)"
  shows "cacheBacked A cls c'"
proof (cases r)
  case (Inl e)
  then have "c' = c \<or> (\<exists>k now reason. c' = fst (rejectToken A c k now reason))"
    using assms(4) by (auto simp: reviewToken_def Let_def split: sum.splits if_splits option.splits) (metis fst_conv)+
  then show ?thesis using assms(1,2) cacheBacked_reject by blast
next
  case (Inr s)
  then show ?thesis using reviewToken_Inr [of A c cl _ c' s] assms cacheBacked_store by metis
qed

text \<open>One call keeps the cache backed, and an accepted call is granted by itself or by the entry it found.\<close>

lemma Authenticate_backed:
  assumes ok: "token_lru_ok (au_lru A)" and b: "cacheBacked A cls c" and a: "Authenticate A c cl = (c', r)"
  shows "cacheBacked A (cl # cls) c'"
    and "r = Inr s \<Longrightarrow> grants A cl s \<or> (\<exists>e. backed A cls (hashToken A (TrimSpace (cl_token cl))) e \<and> ce_subject e = Some s \<and>
      cl_now cl < ce_expires e)"
proof -
  let ?t = "TrimSpace (cl_token cl)"
  have b': "cacheBacked A (cl # cls) c" by (rule cacheBacked_mono [OF b]) auto
  have rev: "cacheBacked A (cl # cls) c1 \<Longrightarrow> reviewToken A c1 cl ?t = (c', r) \<Longrightarrow>
      cacheBacked A (cl # cls) c' \<and> (r = Inr s \<longrightarrow> grants A cl s)" for c1
    using cacheBacked_review [OF ok, of "cl # cls" c1 cl c' r] reviewToken_Inr [of A c1 cl ?t c' s] by auto
  have "cacheBacked A (cl # cls) c' \<and> (r = Inr s \<longrightarrow> grants A cl s \<or>
      (\<exists>e. backed A cls (hashToken A ?t) e \<and> ce_subject e = Some s \<and> cl_now cl < ce_expires e))"
  proof (cases "?t = [] \<or> c = None")
    case True
    then show ?thesis using a b' rev [of None] by (auto simp: Authenticate_def Let_def split: if_splits)
  next
    case False
    then obtain ca where ca: "c = Some ca" by auto
    obtain ca' hit where g: "tl_Get (au_lru A) ca (hashToken A ?t) = (ca', hit)" by force
    have c2: "cacheBacked A (cl # cls) (Some ca')" using cacheBacked_Get [OF ok b' [unfolded ca]] g by (metis fst_conv)
    show ?thesis
    proof (cases "\<exists>e. hit = Some e \<and> cl_now cl < ce_expires e")
      case True
      then obtain e where e: "hit = Some e" "cl_now cl < ce_expires e" by blast
      have "backed A cls (hashToken A ?t) e" using b g e(1) by (simp add: ca cacheBacked_def)
      then show ?thesis using a False ca g e c2 by (auto simp: Authenticate_def Let_def split: option.splits)
    next
      case False2: False
      then have "reviewToken A (Some ca') cl ?t = (c', r)"
        using a False ca g by (auto simp: Authenticate_def Let_def split: option.splits)
      then show ?thesis using rev c2 by blast
    qed
  qed
  then show "cacheBacked A (cl # cls) c'"
    and "r = Inr s \<Longrightarrow> grants A cl s \<or> (\<exists>e. backed A cls (hashToken A ?t) e \<and> ce_subject e = Some s \<and>
      cl_now cl < ce_expires e)" by auto
qed

section \<open>Runs\<close>

text \<open>The cache after a sequence of calls, whatever their tokens, times and answers.\<close>

fun runCalls :: "'c Authenticator \<Rightarrow> call list \<Rightarrow> 'c option \<Rightarrow> 'c option" where
  "runCalls A [] c = c"
| "runCalls A (cl # cls) c = runCalls A cls (fst (Authenticate A c cl))"

lemma runCalls_backed:
  "token_lru_ok (au_lru A) \<Longrightarrow> cacheBacked A cls0 c \<Longrightarrow> cacheBacked A (cls0 @ cls) (runCalls A cls c)"
proof (induction cls arbitrary: cls0 c)
  case (Cons cl cls)
  obtain c' r where a: "Authenticate A c cl = (c', r)" by force
  have "cacheBacked A (cl # cls0) c'" using Authenticate_backed(1) [OF Cons.prems a] .
  then have "cacheBacked A (cls0 @ [cl]) c'" by (rule cacheBacked_mono) auto
  then show ?case using Cons.IH [OF Cons.prems(1)] a by fastforce
qed simp

lemma hexEncode_inj: "hexEncode a = hexEncode b \<Longrightarrow> a = b"
  by (metis hexDecode_Encode option.inject)

text \<open>C12. A token is accepted only on the word of the API server: over any run of calls on an empty
  cache, an accepted call was granted by a review of the same token for one of the service's audiences, as the
  ServiceAccount it returns; either the review of this call, or that of an earlier call of which neither
  the cache's TTL nor the token's own expiry has passed.  Assumed: the LRU library returns only what was added
  under a key, and SHA-256 has no collision among the tokens presented in the run.\<close>

theorem authenticated_by_review:
  assumes "token_lru_ok (au_lru A)" "inj_on (au_sha A) ((\<lambda>x. TrimSpace (cl_token x)) ` set (cl # cls))"
    "\<forall>k. snd (tl_Get (au_lru A) ca k) = None"
    and "Authenticate A (runCalls A cls (Some ca)) cl = (c', Inr s)"
  shows "grants A cl s \<or> (\<exists>cl'\<in>set cls. TrimSpace (cl_token cl') = TrimSpace (cl_token cl) \<and> grants A cl' s \<and>
    cl_now cl < cl_reviewed cl' + au_ttl A \<and>
    (case tokenExpiry A (TrimSpace (cl_token cl)) of None \<Rightarrow> True | Some exp \<Rightarrow> cl_now cl < exp))"
proof -
  have "cacheBacked A [] (Some ca)" using assms(3) by (simp add: cacheBacked_def)
  from runCalls_backed [OF assms(1) this, of cls] have b: "cacheBacked A cls (runCalls A cls (Some ca))" by simp
  from Authenticate_backed(2) [OF assms(1) b assms(4) refl] show ?thesis
  proof
    assume "\<exists>e. backed A cls (hashToken A (TrimSpace (cl_token cl))) e \<and> ce_subject e = Some s \<and> cl_now cl < ce_expires e"
    then obtain e where b': "backed A cls (hashToken A (TrimSpace (cl_token cl))) e" "ce_subject e = Some s"
      and now: "cl_now cl < ce_expires e" by blast
    from b' obtain cl' where e: "cl_now cl < ce_expires e" "cl' \<in> set cls" "grants A cl' s" "ce_expires e \<le> cl_reviewed cl' + au_ttl A"
      "hashToken A (TrimSpace (cl_token cl)) = hashToken A (TrimSpace (cl_token cl'))"
      "\<forall>exp. tokenExpiry A (TrimSpace (cl_token cl')) = Some exp \<longrightarrow> ce_expires e \<le> exp"
      unfolding backed_def using now by auto
    have "TrimSpace (cl_token cl') = TrimSpace (cl_token cl)"
    proof (rule inj_onD [OF assms(2)])
      show "au_sha A (TrimSpace (cl_token cl')) = au_sha A (TrimSpace (cl_token cl))"
        using e(5) hexEncode_inj unfolding hashToken_def by metis
    qed (use e(2) in auto)
    then show ?thesis using e by (auto intro!: disjI2 bexI [of _ cl'] split: option.split)
  qed simp
qed

text \<open>Behind the middleware nothing but one audit record is written for a caller that is not authenticated.\<close>

lemma authMiddleware_gate:
  "(\<exists>c' s. Authenticate A c (cl\<lparr>cl_token := bearerToken U header\<rparr>) = (c', Inr s) \<and>
      snd (authMiddleware A U text header msgID cl handler c g) =
        handler (Some \<lparr>sj_Namespace = su_Namespace s, sj_ServiceAccount = su_ServiceAccount s\<rparr>) g) \<or>
   refusedOnce None msgID g (snd (authMiddleware A U text header msgID cl handler c g))"
proof (cases "bearerToken U header = []")
  case True
  then show ?thesis by (simp add: authMiddleware_def Let_def refusedOnceI)
next
  case False
  obtain c' r where a: "Authenticate A c (cl\<lparr>cl_token := bearerToken U header\<rparr>) = (c', r)" by force
  show ?thesis
  proof (cases r)
    case (Inl e)
    then show ?thesis using False a by (cases e) (simp_all add: authMiddleware_def Let_def refusedOnceI)
  next
    case (Inr s)
    then show ?thesis using False a by (simp add: authMiddleware_def Let_def)
  qed
qed

section \<open>A run, evaluated\<close>

definition sample_token_lru :: "(string \<Rightarrow> cacheEntry option) token_lru" where
  "sample_token_lru = \<lparr>tl_Get = (\<lambda>c k. (c, c k)), tl_Add = (\<lambda>c k e. c(k := Some e))\<rparr>"

lemma sample_token_lru_ok: "token_lru_ok sample_token_lru"
  by (auto simp: token_lru_ok_def sample_token_lru_def split: if_splits)

definition sample_authenticator :: "(string \<Rightarrow> cacheEntry option) Authenticator" where
  "sample_authenticator = \<lparr>au_sha = (\<lambda>b. replicate 32 (if b = ''tok'' then CHR ''x'' else CHR ''y'')), au_exp = (\<lambda>_. None), au_Unquote = Some, au_audiences = [''sigillum''],
     au_ttl = 5 * minute, au_lru = sample_token_lru\<rparr>"

definition sample_call :: "time \<Rightarrow> string + review \<Rightarrow> call" where
  "sample_call t answer = \<lparr>cl_token = ''tok'', cl_now = t, cl_reviewed = t, cl_stored = t, cl_answer = answer\<rparr>"

definition sample_review :: review where
  "sample_review = \<lparr>rv_Authenticated = True, rv_Error = [], rv_Audiences = [''sigillum''],
     rv_Username = ''system:serviceaccount:apps:app'', rv_UID = ''u'', rv_Groups = []\<rparr>"

lemma sample_second_call:
  "case snd (Authenticate sample_authenticator (runCalls sample_authenticator [sample_call 0 (Inr sample_review)] (Some (\<lambda>_. None)))
     (sample_call minute (Inl ''down''))) of Inl _ \<Rightarrow> False | Inr s \<Rightarrow> su_Namespace s = ''apps''"
  by code_simp

theorem authenticated_by_review_witness:
  "\<exists>s. snd (Authenticate sample_authenticator (runCalls sample_authenticator [sample_call 0 (Inr sample_review)] (Some (\<lambda>_. None)))
     (sample_call minute (Inl ''down''))) = Inr s \<and> grants sample_authenticator (sample_call 0 (Inr sample_review)) s"
proof -
  obtain c' s where a: "Authenticate sample_authenticator
      (runCalls sample_authenticator [sample_call 0 (Inr sample_review)] (Some (\<lambda>_. None))) (sample_call minute (Inl ''down'')) = (c', Inr s)"
    using sample_second_call by (auto split: sum.splits prod.splits) (metis prod.collapse)
  have l: "au_lru sample_authenticator = sample_token_lru"
    "inj_on (au_sha sample_authenticator) ((\<lambda>x. TrimSpace (cl_token x)) `
      set (sample_call minute (Inl ''down'') # [sample_call 0 (Inr sample_review)]))"
    "\<forall>k. snd (tl_Get sample_token_lru (\<lambda>_. None) k) = None"
    by (simp_all add: sample_authenticator_def sample_token_lru_def sample_call_def)
  have "\<not> grants sample_authenticator (sample_call minute (Inl ''down'')) s" by (simp add: grants_def sample_call_def)
  with authenticated_by_review [OF _ l(2) _ a] show ?thesis using a l sample_token_lru_ok by auto
qed

end
