(* ===== verification/OAuth_Tokens.thy ===== *)
theory OAuth_Tokens
  imports Policy_Engine Go_Encoding
begin

text \<open>
  Access tokens of mail backends: \<^verbatim>\<open>internal/oauth\<close> and \<^verbatim>\<open>internal/driver/graph/tokens.go\<close>.  \<open>parseResponse\<close>
  turns the answer of a token endpoint into a token; \<open>Cache\<close> hands a token to concurrent callers and
  fetches the next one in the background.  The calls, fetches and invalidations interleave freely
  (\<open>cache_step\<close>).  Shown: one fetch at a time, no lost waiter and no fetch during a backoff; a token handed out
  from memory was fetched, was not invalidated since and stays valid for \<^verbatim>\<open>minValidity\<close>, while a caller that waited
  for a fetch gets what that fetch brought, unchecked.  JSON, HTTP and date parsing are parameters.
\<close>

section \<open>Tokens and errors\<close>

record Token =
  tk_AccessToken :: string
  tk_Expiry :: time

record oauth_error =
  oe_Status :: int
  oe_Code :: string
  oe_Description :: string
  oe_Permanent :: bool
  oe_RetryAfter :: duration
  oe_Err :: "string option"

text \<open>An error of a source: a token request failure, or any other error.\<close>

datatype source_error = TokenRequest oauth_error | OtherError string

definition noError :: oauth_error where
  "noError = \<lparr>oe_Status = 0, oe_Code = [], oe_Description = [], oe_Permanent = False, oe_RetryAfter = 0, oe_Err = None\<rparr>"

definition oauthErrorText :: "oauth_error \<Rightarrow> string" where
  "oauthErrorText e = ''oauth token request failed'' @
     (if oe_Status e \<noteq> 0 then '' (HTTP '' @ Itoa (oe_Status e) @ '')'' else []) @
     concat (map (\<lambda>s. if s \<noteq> [] then '': '' @ s else []) [oe_Code e, oe_Description e]) @
     (case oe_Err e of None \<Rightarrow> [] | Some s \<Rightarrow> '': '' @ s)"

definition IsPermanent :: "source_error \<Rightarrow> bool" where
  "IsPermanent err = (case err of TokenRequest e \<Rightarrow> oe_Permanent e | OtherError _ \<Rightarrow> False)"

definition retryAfterOf :: "source_error \<Rightarrow> duration" where
  "retryAfterOf err = (case err of TokenRequest e \<Rightarrow> oe_RetryAfter e | OtherError _ \<Rightarrow> 0)"

section \<open>The answer of a token endpoint\<close>

abbreviation DefaultLifetime :: duration where "DefaultLifetime \<equiv> 5 * minute"
abbreviation maxLifetime :: duration where "maxLifetime \<equiv> 24 * hour"
abbreviation maxRetryAfter :: duration where "maxRetryAfter \<equiv> 10 * minute"

definition maxResponseBytes :: nat where "maxResponseBytes = 2 ^ 20"
definition maxRefreshTokenBytes :: nat where "maxRefreshTokenBytes = 16 * 2 ^ 10"
definition maxCodeLen :: nat where "maxCodeLen = 64"
definition maxDescLen :: nat where "maxDescLen = 300"

text \<open>The loop of \<^verbatim>\<open>printable\<close> over the runes; \<open>len\<close> is what is written so far.\<close>

fun printableFrom :: "nat \<Rightarrow> nat \<Rightarrow> nat list \<Rightarrow> string" where
  "printableFrom n len [] = []"
| "printableFrom n len (r # rs) =
     (if len \<ge> n then ''...''
      else (if 0x20 \<le> r \<and> r < 0x7F then char_of r else CHR ''?'') # printableFrom n (len + 1) rs)"

definition printable :: "string \<Rightarrow> nat \<Rightarrow> string" where
  "printable s n = printableFrom n 0 (runes s)"

definition isVisibleASCII :: "string \<Rightarrow> nat \<Rightarrow> bool" where
  "isVisibleASCII s n \<longleftrightarrow> s \<noteq> [] \<and> length s \<le> n \<and> list_all (\<lambda>c. 0x21 \<le> byte c \<and> byte c \<le> 0x7E) s"

definition trimRightEq :: "string \<Rightarrow> string" where
  "trimRightEq s = rev (dropWhile (\<lambda>c. c = CHR ''='') (rev s))"

definition b64Byte :: "char \<Rightarrow> bool" where
  "b64Byte c \<longleftrightarrow> is_alnum c \<or> c \<in> set ''-._~+/''"

definition isB64Token :: "string \<Rightarrow> bool" where
  "isB64Token s \<longleftrightarrow> (let body = trimRightEq s in body \<noteq> [] \<and> list_all b64Byte body)"

text \<open>\<open>date\<close> is \<^verbatim>\<open>http.ParseTime\<close>; the multiplication wraps in 64 bits.\<close>

definition ParseRetryAfter :: "(string \<Rightarrow> time option) \<Rightarrow> string \<Rightarrow> time \<Rightarrow> duration" where
  "ParseRetryAfter date v now =
     (let d = (case ParseInt64 (TrimSpace v) of Some n \<Rightarrow> int64 (n * second)
        | None \<Rightarrow> (case date v of Some t \<Rightarrow> t - now | None \<Rightarrow> 0))
      in min (max d 0) maxRetryAfter)"

text \<open>\<^verbatim>\<open>UnmarshalJSON\<close> of \<^verbatim>\<open>expiresIn\<close>; the outer \<^term>\<open>None\<close> is an error.\<close>

definition expiresIn :: "string \<Rightarrow> int option" where
  "expiresIn b =
     (let q = (\<lambda>c. c = CHR 0x22); s = rev (dropWhile q (rev (dropWhile q b))) in
      if s = ''null'' \<or> s = [] then Some 0 else ParseInt64 s)"

text \<open>The fields of a decoded answer; the raw \<^verbatim>\<open>expires_in\<close> is absent or the JSON text of its value.\<close>

record token_fields =
  tf_AccessToken :: string
  tf_TokenType :: string
  tf_ExpiresIn :: "string option"
  tf_RefreshToken :: string

record oauth_lib =
  ol_unicode :: unicode_tables
  ol_errorFields :: "bytes \<Rightarrow> string \<times> string"
  ol_tokenFields :: "bytes \<Rightarrow> token_fields option"
  ol_Quote :: "string \<Rightarrow> string"
  ol_date :: "string \<Rightarrow> time option"

definition answerError :: "int \<Rightarrow> string \<Rightarrow> oauth_error" where
  "answerError status desc = noError\<lparr>oe_Status := status, oe_Description := desc\<rparr>"

definition parseFailure :: "oauth_lib \<Rightarrow> int \<Rightarrow> string \<Rightarrow> bytes \<Rightarrow> time \<Rightarrow> oauth_error" where
  "parseFailure L status retryAfter body now =
     (let (code, desc) = ol_errorFields L body;
          e = noError\<lparr>oe_Status := status, oe_Code := printable code maxCodeLen, oe_Description := printable desc maxDescLen\<rparr>
      in if status = 429 \<or> status = 408 \<or> status \<ge> 500 \<or> code = ''temporarily_unavailable'' \<or> code = ''server_error''
         then e\<lparr>oe_RetryAfter := ParseRetryAfter (ol_date L) retryAfter now\<rparr>
         else e\<lparr>oe_Permanent := True\<rparr>)"

definition tokenLifetime :: "int \<Rightarrow> duration" where
  "tokenLifetime n = (if n \<le> 0 then DefaultLifetime else if n > maxLifetime div second then maxLifetime
     else int64 (n * second))"

definition parseFields :: "oauth_lib \<Rightarrow> int \<Rightarrow> token_fields \<Rightarrow> int \<Rightarrow> time \<Rightarrow> oauth_error + Token \<times> string" where
  "parseFields L status r n now =
     (if \<not> EqualFold (ol_unicode L) (tf_TokenType r) ''bearer''
      then Inl (answerError status (''token_type '' @ ol_Quote L (printable (tf_TokenType r) maxCodeLen) @ '' is not Bearer''))
      else if \<not> isB64Token (tf_AccessToken r)
      then Inl (answerError status ''access_token is missing or not a valid bearer token'')
      else if tf_RefreshToken r \<noteq> [] \<and> \<not> isVisibleASCII (tf_RefreshToken r) maxRefreshTokenBytes
      then Inl (answerError status ''refresh_token is not printable ASCII or too long'')
      else Inr (\<lparr>tk_AccessToken = tf_AccessToken r, tk_Expiry = now + tokenLifetime n\<rparr>, tf_RefreshToken r))"

definition parseResponse :: "oauth_lib \<Rightarrow> int \<Rightarrow> string \<Rightarrow> bytes \<Rightarrow> time \<Rightarrow> oauth_error + Token \<times> string" where
  "parseResponse L status retryAfter body now =
     (if length body > maxResponseBytes then Inl (answerError status ''response larger than 1 MiB'')
      else if status \<noteq> 200 then Inl (parseFailure L status retryAfter body now)
      else case ol_tokenFields L body of
        None \<Rightarrow> Inl (answerError status ''malformed token response'')
      | Some r \<Rightarrow> (case (case tf_ExpiresIn r of None \<Rightarrow> Some 0 | Some b \<Rightarrow> expiresIn b) of
          None \<Rightarrow> Inl (answerError status ''malformed token response'')
        | Some n \<Rightarrow> parseFields L status r n now))"

text \<open>
  \<^verbatim>\<open>post\<close>: \<open>valid\<close> tells whether the URL is an https URL with a host, \<open>request\<close> is the error of building the request;
  then the transport's error, or the answer (status, Retry-After, body or the error of reading it).
\<close>

definition post :: "oauth_lib \<Rightarrow> bool \<Rightarrow> string option \<Rightarrow> string + int \<times> string \<times> (string + bytes) \<Rightarrow> time \<Rightarrow>
    oauth_error + Token \<times> string" where
  "post L valid request resp start =
     (if \<not> valid then Inl (noError\<lparr>oe_Permanent := True, oe_Description := ''the token URL must be an https URL''\<rparr>)
      else case request of Some e \<Rightarrow> Inl (noError\<lparr>oe_Permanent := True, oe_Err := Some e\<rparr>)
      | None \<Rightarrow> (case resp of Inl e \<Rightarrow> Inl (noError\<lparr>oe_Err := Some e\<rparr>)
          | Inr (status, _, Inl e) \<Rightarrow> Inl (noError\<lparr>oe_Status := status, oe_Err := Some e\<rparr>)
          | Inr (status, retryAfter, Inr body) \<Rightarrow>
              parseResponse L status retryAfter (take (maxResponseBytes + 1) body) start))"

definition credentialsForm :: "string \<Rightarrow> string \<Rightarrow> string list \<Rightarrow> labels" where
  "credentialsForm clientID clientSecret scopes =
     [(''grant_type'', ''client_credentials''), (''client_id'', clientID), (''client_secret'', clientSecret)] @
     (if scopes \<noteq> [] then [(''scope'', Join scopes '' '')] else [])"

definition refreshForm :: "string \<Rightarrow> string \<Rightarrow> string \<Rightarrow> string list \<Rightarrow> labels" where
  "refreshForm refreshToken clientID clientSecret scopes =
     [(''grant_type'', ''refresh_token''), (''refresh_token'', refreshToken), (''client_id'', clientID)] @
     (if clientSecret \<noteq> [] then [(''client_secret'', clientSecret)] else []) @
     (if scopes \<noteq> [] then [(''scope'', Join scopes '' '')] else [])"

text \<open>\<^verbatim>\<open>Refresh\<close>, from the answer to its request: the token, and the refresh token to keep.\<close>

definition Refresh :: "string \<Rightarrow> oauth_error + Token \<times> string \<Rightarrow> oauth_error + Token \<times> string" where
  "Refresh refreshToken answer = (case answer of Inl e \<Rightarrow> Inl e
     | Inr (tok, nxt) \<Rightarrow> Inr (tok, if nxt = [] then refreshToken else nxt))"

definition MicrosoftTokenURL :: "(string \<Rightarrow> string list) \<Rightarrow> (string \<Rightarrow> string) \<Rightarrow> string \<Rightarrow> oauth_error + string" where
  "MicrosoftTokenURL dnsErrs quote tenant =
     (if dnsErrs tenant \<noteq> [] then Inl (noError\<lparr>oe_Permanent := True, oe_Description :=
        ''tenant '' @ quote (printable tenant maxCodeLen) @ '' must be a tenant ID or a domain name in lower case''\<rparr>)
      else Inr (''https://login.microsoftonline.com/'' @ tenant @ ''/oauth2/v2.0/token''))"

section \<open>The cache\<close>

definition refreshMargin :: duration where "refreshMargin = 5 * minute"
definition minValidity :: duration where "minValidity = 30 * second"
definition failureBackoff :: duration where "failureBackoff = 10 * second"

text \<open>Go's zero time: the first of January of the year 1.\<close>

definition zeroTime :: time where "zeroTime = - 62135596800 * second"

definition noToken :: Token where "noToken = \<lparr>tk_AccessToken = [], tk_Expiry = zeroTime\<rparr>"

text \<open>A fetch is named by a number; \<open>ca_inflight\<close> is the one that is running.\<close>

record Cache =
  ca_tok :: Token
  ca_refreshAt :: time
  ca_inflight :: "nat option"
  ca_failErr :: "source_error option"
  ca_failUntil :: time

definition NewCache :: Cache where
  "NewCache = \<lparr>ca_tok = noToken, ca_refreshAt = zeroTime, ca_inflight = None, ca_failErr = None, ca_failUntil = zeroTime\<rparr>"

definition usable :: "Cache \<Rightarrow> time \<Rightarrow> bool" where
  "usable c now \<longleftrightarrow> tk_AccessToken (ca_tok c) \<noteq> [] \<and> now + minValidity < tk_Expiry (ca_tok c)"

text \<open>What a caller of \<open>Token\<close> leaves the lock with: a token, an error, or a fetch to wait for.\<close>

datatype token_answer = Hand Token | Failed "source_error option" | Await nat

text \<open>The locked part of \<^verbatim>\<open>Token\<close>; \<open>fresh\<close> names the fetch that it may start.\<close>

definition cacheToken :: "nat \<Rightarrow> time \<Rightarrow> Cache \<Rightarrow> Cache \<times> token_answer" where
  "cacheToken fresh now c =
     (if usable c now \<and> now < ca_refreshAt c then (c, Hand (ca_tok c))
      else if now < ca_failUntil c then (c, if usable c now then Hand (ca_tok c) else Failed (ca_failErr c))
      else let f = (case ca_inflight c of None \<Rightarrow> fresh | Some f \<Rightarrow> f) in
        (c\<lparr>ca_inflight := Some f\<rparr>, if usable c now then Hand (ca_tok c) else Await f))"

definition Invalidate :: "Token \<Rightarrow> Cache \<Rightarrow> Cache" where
  "Invalidate tok c =
     (if tk_AccessToken tok \<noteq> [] \<and> tk_AccessToken tok = tk_AccessToken (ca_tok c)
      then c\<lparr>ca_tok := noToken, ca_refreshAt := zeroTime\<rparr> else c)"

text \<open>The locked part of \<^verbatim>\<open>run\<close>, once the source answered; Go's division truncates towards zero.\<close>

definition finishFetch :: "time \<Rightarrow> source_error + Token \<Rightarrow> Cache \<Rightarrow> Cache" where
  "finishFetch now r c = (case r of
     Inr tok \<Rightarrow>
       let lifetime = tk_Expiry tok - now; half = sgn lifetime * (\<bar>lifetime\<bar> div 2) in
       c\<lparr>ca_tok := tok, ca_refreshAt := tk_Expiry tok - min refreshMargin half,
         ca_failErr := None, ca_failUntil := zeroTime, ca_inflight := None\<rparr>
   | Inl err \<Rightarrow> c\<lparr>ca_failErr := Some err, ca_failUntil := now + max failureBackoff (retryAfterOf err), ca_inflight := None\<rparr>)"

text \<open>
  The end of \<^verbatim>\<open>Token\<close> for a caller that waits: \<open>ended\<close> is what the fetch left once it closed its channel, \<open>ctxErr\<close> the
  error of a cancelled context.  The result is \<^term>\<open>None\<close> while neither is there; \<open>pick\<close> tells which case the
  \<^verbatim>\<open>select\<close> takes when both are.
\<close>

definition awaitFetch :: "bool \<Rightarrow> (source_error + Token) option \<Rightarrow> source_error option \<Rightarrow> (source_error + Token) option" where
  "awaitFetch pick ended ctxErr = (case ended of
     None \<Rightarrow> (case ctxErr of None \<Rightarrow> None | Some e \<Rightarrow> Some (Inl e))
   | Some r \<Rightarrow> (case ctxErr of
       None \<Rightarrow> (case r of Inl e \<Rightarrow> Some (Inl e) | Inr tok \<Rightarrow> Some (Inr tok))
     | Some e \<Rightarrow> if pick then (case r of Inl e \<Rightarrow> Some (Inl e) | Inr tok \<Rightarrow> Some (Inr tok)) else Some (Inl e)))"

section \<open>Shared caches\<close>

record ClientCredentials =
  cc_TokenURL :: string
  cc_ClientID :: string
  cc_ClientSecret :: string
  cc_Scopes :: "string list"

definition maxCaches :: nat where "maxCaches = 256"

definition cacheKey :: "(bytes \<Rightarrow> bytes) \<Rightarrow> ClientCredentials \<Rightarrow> string" where
  "cacheKey sha src = hexEncode (sha (Join [cc_TokenURL src, cc_ClientID src, cc_ClientSecret src,
     Join (cc_Scopes src) '' ''] [NUL]))"

text \<open>The caches by key, each with the source in front of which it was made; the result is the new map and the cache.\<close>

definition sharedCache ::
    "(bytes \<Rightarrow> bytes) \<Rightarrow> ClientCredentials \<Rightarrow> (string \<times> ClientCredentials \<times> Cache) list \<Rightarrow>
     (string \<times> ClientCredentials \<times> Cache) list \<times> ClientCredentials \<times> Cache" where
  "sharedCache sha src caches = (let key = cacheKey sha src in
     case map_of caches key of
       Some c \<Rightarrow> (caches, c)
     | None \<Rightarrow> ((key, src, NewCache) # (if length caches \<ge> maxCaches then [] else caches), src, NewCache))"

section \<open>Interleavings\<close>

text \<open>
  The cache with its goroutines: the fetches that are running, the answers of those that have ended (which
  wake their waiters), and the number of fetches started.  The events are in the order they happened, the last first.
\<close>

datatype cache_event = Called time token_answer | Fetched nat time "source_error + Token" | Invalidated Token

record world =
  wo_cache :: Cache
  wo_running :: "nat list"
  wo_results :: "(nat \<times> (source_error + Token)) list"
  wo_next :: nat
  wo_events :: "cache_event list"

definition startWorld :: world where
  "startWorld = \<lparr>wo_cache = NewCache, wo_running = [], wo_results = [], wo_next = 0, wo_events = []\<rparr>"

definition callWorld :: "time \<Rightarrow> world \<Rightarrow> world" where
  "callWorld now w = (case cacheToken (wo_next w) now (wo_cache w) of (c, a) \<Rightarrow>
     (if ca_inflight (wo_cache w) = None \<and> ca_inflight c \<noteq> None
      then w\<lparr>wo_running := wo_next w # wo_running w, wo_next := wo_next w + 1\<rparr> else w)
     \<lparr>wo_cache := c, wo_events := Called now a # wo_events w\<rparr>)"

inductive cache_step :: "world \<Rightarrow> world \<Rightarrow> bool" where
  step_call: "zeroTime \<le> now \<Longrightarrow> cache_step w (callWorld now w)"
| step_fetched: "f \<in> set (wo_running w) \<Longrightarrow> cache_step w
    (w\<lparr>wo_cache := finishFetch now r (wo_cache w), wo_running := remove1 f (wo_running w),
       wo_results := (f, r) # wo_results w, wo_events := Fetched f now r # wo_events w\<rparr>)"
| step_invalidate: "cache_step w (w\<lparr>wo_cache := Invalidate tok (wo_cache w), wo_events := Invalidated tok # wo_events w\<rparr>)"

section \<open>Invariant\<close>

text \<open>The token in the cache is the one fetched last, unless it was invalidated since.\<close>

fun lastToken :: "cache_event list \<Rightarrow> Token option" where
  "lastToken [] = None"
| "lastToken (Called _ _ # es) = lastToken es"
| "lastToken (Fetched _ _ (Inr tok) # es) = Some tok"
| "lastToken (Fetched _ _ (Inl _) # es) = lastToken es"
| "lastToken (Invalidated t # es) = (case lastToken es of None \<Rightarrow> None
     | Some tok \<Rightarrow> if tk_AccessToken t \<noteq> [] \<and> tk_AccessToken t = tk_AccessToken tok then None else Some tok)"

definition cache_inv :: "world \<Rightarrow> bool" where
  "cache_inv w \<longleftrightarrow>
     wo_running w = (case ca_inflight (wo_cache w) of None \<Rightarrow> [] | Some f \<Rightarrow> [f]) \<and>
     ca_tok (wo_cache w) = (case lastToken (wo_events w) of None \<Rightarrow> noToken | Some tok \<Rightarrow> tok) \<and>
     (\<forall>f. f < wo_next w \<longleftrightarrow> f \<in> set (wo_running w) \<or> map_of (wo_results w) f \<noteq> None) \<and>
     (\<forall>now f. Called now (Await f) \<in> set (wo_events w) \<longrightarrow> f < wo_next w) \<and>
     (\<forall>now e. Called now (Failed e) \<in> set (wo_events w) \<longrightarrow> e \<noteq> None) \<and>
     (ca_failErr (wo_cache w) = None \<longrightarrow> ca_failUntil (wo_cache w) = zeroTime) \<and>
     (\<forall>now tok. Called now (Hand tok) \<in> set (wo_events w) \<longrightarrow> now + minValidity < tk_Expiry tok)"

lemma cacheToken_cases:
  obtains (hand) "cacheToken n now c = (c, Hand (ca_tok c))" "usable c now"
  | (backoff) "cacheToken n now c = (c, Failed (ca_failErr c))" "now < ca_failUntil c"
  | (refresh) f where "cacheToken n now c = (c\<lparr>ca_inflight := Some f\<rparr>, Hand (ca_tok c))" "usable c now"
      "f = (case ca_inflight c of None \<Rightarrow> n | Some f \<Rightarrow> f)" "\<not> now < ca_failUntil c"
  | (wait) f where "cacheToken n now c = (c\<lparr>ca_inflight := Some f\<rparr>, Await f)"
      "f = (case ca_inflight c of None \<Rightarrow> n | Some f \<Rightarrow> f)" "\<not> now < ca_failUntil c"
proof -
  consider "usable c now \<and> now < ca_refreshAt c" | "\<not> (usable c now \<and> now < ca_refreshAt c)" "now < ca_failUntil c"
    | "\<not> (usable c now \<and> now < ca_refreshAt c)" "\<not> now < ca_failUntil c" by blast
  then show ?thesis
  proof cases
    case 1
    then show ?thesis using hand by (simp add: cacheToken_def)
  next
    case 2
    then show ?thesis using hand backoff by (cases "usable c now") (simp_all add: cacheToken_def)
  next
    case 3
    then show ?thesis using refresh [OF _ _ refl] wait [OF _ refl]
      by (cases "usable c now") (simp_all add: cacheToken_def Let_def)
  qed
qed

lemma callWorld_same: "cacheToken (wo_next w) now (wo_cache w) = (wo_cache w, a) \<Longrightarrow> callWorld now w = w\<lparr>wo_events := Called now a # wo_events w\<rparr>"
  by (cases w) (auto simp: callWorld_def)

lemma callWorld_started:
  "cacheToken (wo_next w) now (wo_cache w) = ((wo_cache w)\<lparr>ca_inflight := Some (wo_next w)\<rparr>, a) \<Longrightarrow>
     ca_inflight (wo_cache w) = None \<Longrightarrow> wo_running w = [] \<Longrightarrow>
     callWorld now w = w\<lparr>wo_cache := (wo_cache w)\<lparr>ca_inflight := Some (wo_next w)\<rparr>,
        wo_running := [wo_next w], wo_next := wo_next w + 1, wo_events := Called now a # wo_events w\<rparr>"
  by (simp add: callWorld_def)

text \<open>What a call changes: nothing but the event, or it starts the next fetch as well.\<close>

lemma callWorld_cases:
  assumes "cache_inv w"
  obtains (same) a where "callWorld now w = w\<lparr>wo_events := Called now a # wo_events w\<rparr>"
      "snd (cacheToken (wo_next w) now (wo_cache w)) = a" "\<And>f. a = Await f \<Longrightarrow> f \<in> set (wo_running w)"
  | (started) a where "callWorld now w = w\<lparr>wo_cache := (wo_cache w)\<lparr>ca_inflight := Some (wo_next w)\<rparr>,
        wo_running := [wo_next w], wo_next := wo_next w + 1, wo_events := Called now a # wo_events w\<rparr>"
      "snd (cacheToken (wo_next w) now (wo_cache w)) = a" "\<And>f. a = Await f \<Longrightarrow> f = wo_next w"
      "ca_inflight (wo_cache w) = None" "\<not> now < ca_failUntil (wo_cache w)"
proof -
  have run: "wo_running w = (case ca_inflight (wo_cache w) of None \<Rightarrow> [] | Some f \<Rightarrow> [f])"
    using assms by (simp add: cache_inv_def)
  have keep: "(wo_cache w)\<lparr>ca_inflight := ca_inflight (wo_cache w)\<rparr> = wo_cache w" by simp
  show ?thesis
  proof (cases rule: cacheToken_cases [of "wo_next w" now "wo_cache w"])
    case hand
    then show ?thesis using same [OF callWorld_same [OF hand(1)]] by simp
  next
    case backoff
    then show ?thesis using same [OF callWorld_same [OF backoff(1)]] by simp
  next
    case (refresh f)
    show ?thesis
    proof (cases "ca_inflight (wo_cache w)")
      case None
      then have c: "cacheToken (wo_next w) now (wo_cache w) =
          ((wo_cache w)\<lparr>ca_inflight := Some (wo_next w)\<rparr>, Hand (ca_tok (wo_cache w)))" "wo_running w = []"
        using refresh run by simp_all
      show ?thesis by (rule started [OF callWorld_started [OF c(1) None c(2)]]) (use c None refresh in simp_all)
    next
      case (Some g)
      then have c: "cacheToken (wo_next w) now (wo_cache w) = (wo_cache w, Hand (ca_tok (wo_cache w)))"
        using refresh keep by simp
      show ?thesis using same [OF callWorld_same [OF c]] c by simp
    qed
  next
    case (wait f)
    show ?thesis
    proof (cases "ca_inflight (wo_cache w)")
      case None
      then have c: "cacheToken (wo_next w) now (wo_cache w) =
          ((wo_cache w)\<lparr>ca_inflight := Some (wo_next w)\<rparr>, Await (wo_next w))" "wo_running w = []"
        using wait run by simp_all
      show ?thesis by (rule started [OF callWorld_started [OF c(1) None c(2)]]) (use c None wait(3) in simp_all)
    next
      case (Some g)
      then have c: "cacheToken (wo_next w) now (wo_cache w) = (wo_cache w, Await f)" "f \<in> set (wo_running w)"
        using wait keep run by simp_all
      show ?thesis using same [OF callWorld_same [OF c(1)]] c by simp
    qed
  qed
qed

text \<open>An answer given on a good state is good.\<close>

definition answerOK :: "world \<Rightarrow> time \<Rightarrow> token_answer \<Rightarrow> bool" where
  "answerOK w now a \<longleftrightarrow> (case a of Hand tok \<Rightarrow> lastToken (wo_events w) = Some tok \<and> now + minValidity < tk_Expiry tok
     | Failed e \<Rightarrow> e \<noteq> None | Await _ \<Rightarrow> True)"

lemma cacheToken_answer:
  assumes "cache_inv w" "zeroTime \<le> now"
  shows "answerOK w now (snd (cacheToken (wo_next w) now (wo_cache w)))"
proof -
  have tok: "ca_tok (wo_cache w) = (case lastToken (wo_events w) of None \<Rightarrow> noToken | Some tok \<Rightarrow> tok)"
    and err: "ca_failErr (wo_cache w) = None \<longrightarrow> ca_failUntil (wo_cache w) = zeroTime"
    using assms(1) by (simp_all add: cache_inv_def)
  have h: "answerOK w now (Hand (ca_tok (wo_cache w)))" if "usable (wo_cache w) now"
    using that tok by (auto simp: answerOK_def usable_def noToken_def split: option.splits)
  show ?thesis
    by (cases rule: cacheToken_cases [of "wo_next w" now "wo_cache w"])
      (use h err assms(2) in \<open>auto simp: answerOK_def\<close>)
qed

lemma cache_inv_call:
  assumes inv: "cache_inv w" and now: "zeroTime \<le> now"
  shows "cache_inv (callWorld now w)"
proof -
  have ok: "answerOK w now (snd (cacheToken (wo_next w) now (wo_cache w)))" by (rule cacheToken_answer [OF inv now])
  from inv show ?thesis
  proof (cases rule: callWorld_cases [where now = now])
    case (same a)
    have "answerOK w now a" using ok same(2) by simp
    then show ?thesis unfolding same(1)
      by (cases a) (use inv same(3) in \<open>auto simp: answerOK_def cache_inv_def\<close>)
  next
    case (started a)
    have "answerOK w now a" using ok started(2) by simp
    then show ?thesis unfolding started(1)
      by (cases a) (use inv started(3,4) in \<open>auto simp: answerOK_def cache_inv_def less_Suc_eq\<close>)
  qed
qed

lemma cache_inv_fetched:
  assumes inv: "cache_inv w" and f: "f \<in> set (wo_running w)"
  shows "cache_inv (w\<lparr>wo_cache := finishFetch now r (wo_cache w), wo_running := remove1 f (wo_running w),
       wo_results := (f, r) # wo_results w, wo_events := Fetched f now r # wo_events w\<rparr>)"
proof -
  have "ca_inflight (wo_cache w) = Some f" "wo_running w = [f]"
    using inv f by (auto simp: cache_inv_def split: option.splits)
  then show ?thesis using inv unfolding cache_inv_def
    by (cases r) (auto simp: finishFetch_def Let_def split: option.splits)
qed

lemma cache_inv_invalidate:
  assumes "cache_inv w"
  shows "cache_inv (w\<lparr>wo_cache := Invalidate tok (wo_cache w), wo_events := Invalidated tok # wo_events w\<rparr>)"
  using assms unfolding cache_inv_def by (auto simp: Invalidate_def noToken_def split: option.splits)

lemma cache_inv_step: "cache_step w w' \<Longrightarrow> cache_inv w \<Longrightarrow> cache_inv w'"
  by (induction rule: cache_step.induct) (simp_all only: cache_inv_call cache_inv_fetched cache_inv_invalidate)

lemma cache_inv_start: "cache_inv startWorld"
  by (simp add: cache_inv_def startWorld_def NewCache_def)

lemma cache_inv_reachable: "cache_step\<^sup>*\<^sup>* startWorld w \<Longrightarrow> cache_inv w"
  by (induction rule: rtranclp_induct) (use cache_inv_start cache_inv_step in blast)+

text \<open>The results are those of the fetches that ended.\<close>

lemma results_fetched:
  "cache_step\<^sup>*\<^sup>* startWorld w \<Longrightarrow> map_of (wo_results w) f = Some r \<Longrightarrow> \<exists>now. Fetched f now r \<in> set (wo_events w)"
proof (induction arbitrary: f r rule: rtranclp_induct)
  case base
  then show ?case by (simp add: startWorld_def)
next
  case (step w w')
  from step(2) show ?case
  proof cases
    case (step_call now)
    have "wo_results (callWorld now w) = wo_results w" "set (wo_events w) \<subseteq> set (wo_events (callWorld now w))"
      by (auto simp: callWorld_def split: prod.splits)
    then show ?thesis using step(3) [of f r] step(4) step_call by auto
  next
    case (step_fetched g now x)
    then show ?thesis using step(3,4) by (auto split: if_splits)
  next
    case (step_invalidate tok)
    then show ?thesis using step(3,4) by auto
  qed
qed

lemma lastToken_split:
  "lastToken es = Some tok \<Longrightarrow> \<exists>later f t earlier. es = later @ Fetched f t (Inr tok) # earlier \<and>
     (\<forall>t'. Invalidated t' \<in> set later \<longrightarrow> tk_AccessToken t' = [] \<or> tk_AccessToken t' \<noteq> tk_AccessToken tok)"
proof (induction es rule: lastToken.induct)
  case (2 now a es)
  then obtain later f t earlier where "es = later @ Fetched f t (Inr tok) # earlier"
    "\<forall>t'. Invalidated t' \<in> set later \<longrightarrow> tk_AccessToken t' = [] \<or> tk_AccessToken t' \<noteq> tk_AccessToken tok" by auto
  then show ?case by (intro exI [of _ "Called now a # later"]) auto
next
  case (3 f t tok' es)
  then show ?case by (intro exI [of _ "[]"]) auto
next
  case (4 g t e es)
  then obtain later f t' earlier where "es = later @ Fetched f t' (Inr tok) # earlier"
    "\<forall>t'. Invalidated t' \<in> set later \<longrightarrow> tk_AccessToken t' = [] \<or> tk_AccessToken t' \<noteq> tk_AccessToken tok" by auto
  then show ?case by (intro exI [of _ "Fetched g t (Inl e) # later"]) auto
next
  case (5 t es)
  then have l: "lastToken es = Some tok" "tk_AccessToken t = [] \<or> tk_AccessToken t \<noteq> tk_AccessToken tok"
    by (auto split: option.splits if_splits)
  from 5(1) [OF l(1)] obtain later f t' earlier where "es = later @ Fetched f t' (Inr tok) # earlier"
    "\<forall>t'. Invalidated t' \<in> set later \<longrightarrow> tk_AccessToken t' = [] \<or> tk_AccessToken t' \<noteq> tk_AccessToken tok" by blast
  then show ?case using l(2) by (intro exI [of _ "Invalidated t # later"]) auto
qed simp

section \<open>Properties\<close>

text \<open>C33. However calls, fetches and invalidations interleave, at most one fetch runs, no call starts one
  during the backoff of a failure, and a caller that waits is never forgotten: the fetch it waits for is running or has answered.\<close>

theorem cache_one_fetch:
  assumes "cache_step\<^sup>*\<^sup>* startWorld w"
  shows "length (wo_running w) \<le> 1 \<and>
    (now < ca_failUntil (wo_cache w) \<longrightarrow> wo_running (callWorld now w) = wo_running w) \<and>
    (\<forall>t f. Called t (Await f) \<in> set (wo_events w) \<longrightarrow> f \<in> set (wo_running w) \<or> map_of (wo_results w) f \<noteq> None)"
proof -
  have inv: "cache_inv w" by (rule cache_inv_reachable [OF assms])
  have "wo_running (callWorld now w) = wo_running w" if "now < ca_failUntil (wo_cache w)"
    using inv by (cases rule: callWorld_cases [where now = now]) (use that in auto)
  then show ?thesis using inv by (auto simp: cache_inv_def split: option.splits)
qed

text \<open>C32. A token handed out from memory is good: it is the token of a fetch, nothing invalidated it after
  that fetch, and it is valid for at least \<^verbatim>\<open>minValidity\<close> more.\<close>

theorem cache_hands_fetched:
  assumes "cache_step\<^sup>*\<^sup>* startWorld w" "zeroTime \<le> now" "cacheToken (wo_next w) now (wo_cache w) = (c, Hand tok)"
  shows "now + minValidity < tk_Expiry tok \<and>
    (\<exists>later f t earlier. wo_events w = later @ Fetched f t (Inr tok) # earlier \<and>
      (\<forall>t'. Invalidated t' \<in> set later \<longrightarrow> tk_AccessToken t' = [] \<or> tk_AccessToken t' \<noteq> tk_AccessToken tok))"
  using cacheToken_answer [OF cache_inv_reachable [OF assms(1)] assms(2)] assms(3) lastToken_split
  by (simp add: answerOK_def)

lemma trimRightEq_set: "c \<in> set s \<Longrightarrow> c = CHR ''='' \<or> c \<in> set (trimRightEq s)"
proof -
  assume c: "c \<in> set s"
  have "set s = set (takeWhile (\<lambda>c. c = CHR ''='') (rev s)) \<union> set (dropWhile (\<lambda>c. c = CHR ''='') (rev s))"
    by (metis set_append set_rev takeWhile_dropWhile_id)
  then show ?thesis using c by (auto simp: trimRightEq_def dest: set_takeWhileD)
qed

text \<open>A token that an endpoint's answer yields is safe to send and bounded in time: its bytes are those of a
  bearer token, so none is a control character, space or separator, and it lives at least a second and at most a day.\<close>

theorem parsed_token_bounds:
  assumes "parseResponse L status retryAfter body now = Inr (tok, refresh)"
  shows "tk_AccessToken tok \<noteq> [] \<and> list_all (\<lambda>c. is_alnum c \<or> c \<in> set ''-._~+/='') (tk_AccessToken tok) \<and>
    now + second \<le> tk_Expiry tok \<and> tk_Expiry tok \<le> now + 24 * hour \<and> status = 200"
proof -
  from assms obtain r n where p: "parseFields L status r n now = Inr (tok, refresh)" and st: "status = 200"
    by (auto simp: parseResponse_def split: if_splits option.splits)
  from p have r: "isB64Token (tf_AccessToken r)" "tok = \<lparr>tk_AccessToken = tf_AccessToken r, tk_Expiry = now + tokenLifetime n\<rparr>"
    by (auto simp: parseFields_def split: if_splits)
  have "n * second < 2 ^ 63" if "n \<le> maxLifetime div second" using that by simp
  then have "second \<le> tokenLifetime n \<and> tokenLifetime n \<le> 24 * hour"
    by (auto simp: tokenLifetime_def int64_def)
  moreover have "list_all (\<lambda>c. is_alnum c \<or> c \<in> set ''-._~+/='') (tf_AccessToken r)"
    using r(1) trimRightEq_set [of _ "tf_AccessToken r"] by (auto simp: isB64Token_def b64Byte_def list_all_iff Let_def)
  moreover have "tf_AccessToken r \<noteq> []" using r(1) by (auto simp: isB64Token_def trimRightEq_def)
  ultimately show ?thesis using r(2) st by simp
qed

text \<open>A delay of 9223372037 seconds wraps around in 64 bits and is read as no delay at all.\<close>

lemma retry_after_wraps: "ParseRetryAfter date ''9223372037'' now = 0"
proof -
  have "TrimSpace ''9223372037'' = ''9223372037''" by code_simp
  moreover have "ParseInt64 ''9223372037'' = Some 9223372037" by (simp add: ParseInt64_def go_defs)
  ultimately show ?thesis by (simp add: ParseRetryAfter_def int64_def)
qed

section \<open>A run, evaluated\<close>

definition sample_oauth_lib :: "string \<Rightarrow> oauth_lib" where
  "sample_oauth_lib expires = \<lparr>ol_unicode = sample_tables, ol_errorFields = (\<lambda>_. ([], [])),
     ol_tokenFields = (\<lambda>_. Some \<lparr>tf_AccessToken = ''t'', tf_TokenType = ''Bearer'', tf_ExpiresIn = Some expires, tf_RefreshToken = []\<rparr>),
     ol_Quote = (\<lambda>s. s), ol_date = (\<lambda>_. None)\<rparr>"

lemma sample_parse:
  assumes "expiresIn expires = Some n"
  shows "parseResponse (sample_oauth_lib expires) 200 [] [] 0 = Inr (\<lparr>tk_AccessToken = ''t'', tk_Expiry = tokenLifetime n\<rparr>, [])"
proof -
  have "EqualFold sample_tables ''Bearer'' ''bearer''" "isB64Token ''t''" by code_simp+
  then show ?thesis
    by (simp add: parseResponse_def sample_oauth_lib_def parseFields_def maxResponseBytes_def assms)
qed

definition sample_token :: "duration \<Rightarrow> Token" where
  "sample_token d = \<lparr>tk_AccessToken = ''t'', tk_Expiry = d\<rparr>"

text \<open>One call, then the answer to its fetch.\<close>

definition sample_waiting :: world where "sample_waiting = callWorld 0 startWorld"

definition sample_fetched :: "duration \<Rightarrow> world" where
  "sample_fetched d = sample_waiting\<lparr>wo_cache := finishFetch 0 (Inr (sample_token d)) (wo_cache sample_waiting),
     wo_running := remove1 0 (wo_running sample_waiting), wo_results := (0, Inr (sample_token d)) # wo_results sample_waiting,
     wo_events := Fetched 0 0 (Inr (sample_token d)) # wo_events sample_waiting\<rparr>"

lemma sample_waiting_eq:
  "sample_waiting = \<lparr>wo_cache = NewCache\<lparr>ca_inflight := Some 0\<rparr>, wo_running = [0], wo_results = [], wo_next = 1,
     wo_events = [Called 0 (Await 0)]\<rparr>"
  by (simp add: sample_waiting_def callWorld_def startWorld_def cacheToken_def usable_def NewCache_def noToken_def zeroTime_def)

lemma sample_reachable: "cache_step\<^sup>*\<^sup>* startWorld sample_waiting" "cache_step\<^sup>*\<^sup>* startWorld (sample_fetched d)"
proof -
  have "cache_step startWorld sample_waiting"
    unfolding sample_waiting_def by (rule step_call) (simp add: zeroTime_def)
  then show w: "cache_step\<^sup>*\<^sup>* startWorld sample_waiting" by blast
  have "cache_step sample_waiting (sample_fetched d)"
    unfolding sample_fetched_def by (rule step_fetched) (simp add: sample_waiting_eq)
  with w show "cache_step\<^sup>*\<^sup>* startWorld (sample_fetched d)" by (rule rtranclp.rtrancl_into_rtrancl)
qed

text \<open>One call at \<open>now\<close>, then the answer to its fetch.\<close>

lemma any_token_awaited:
  assumes "zeroTime \<le> now"
  shows "\<exists>w. cache_step\<^sup>*\<^sup>* startWorld w \<and> Called now (Await 0) \<in> set (wo_events w) \<and> map_of (wo_results w) 0 = Some (Inr tok)"
proof -
  have c: "cacheToken 0 now NewCache = (NewCache\<lparr>ca_inflight := Some 0\<rparr>, Await 0)"
    using assms by (simp add: cacheToken_def usable_def NewCache_def noToken_def)
  let ?w = "callWorld now startWorld"
  have w: "?w = \<lparr>wo_cache = NewCache\<lparr>ca_inflight := Some 0\<rparr>, wo_running = [0], wo_results = [], wo_next = 1,
      wo_events = [Called now (Await 0)]\<rparr>"
    using c by (simp add: callWorld_def startWorld_def) (simp add: NewCache_def)
  have "cache_step startWorld ?w" by (rule step_call [OF assms])
  moreover have "cache_step ?w (?w\<lparr>wo_cache := finishFetch now (Inr tok) (wo_cache ?w), wo_running := remove1 0 (wo_running ?w),
      wo_results := (0, Inr tok) # wo_results ?w, wo_events := Fetched 0 now (Inr tok) # wo_events ?w\<rparr>)"
    by (rule step_fetched) (simp add: w)
  ultimately have "cache_step\<^sup>*\<^sup>* startWorld (?w\<lparr>wo_cache := finishFetch now (Inr tok) (wo_cache ?w), wo_running := remove1 0 (wo_running ?w),
      wo_results := (0, Inr tok) # wo_results ?w, wo_events := Fetched 0 now (Inr tok) # wo_events ?w\<rparr>)"
    by (meson converse_rtranclp_into_rtranclp r_into_rtranclp)
  then show ?thesis by (intro exI conjI) (assumption, simp_all add: w)
qed

text \<open>C39. A caller that waits for a fetch gets the answer of that very fetch: the token or the error it ended
  with, or the error of its own context, and it waits on only while the fetch runs.  That answer is not checked: at every time
  and for every token there is a run in which a waiting caller gets that token, so, contrary to what
  \<^verbatim>\<open>Token\<close> promises, also one that is valid for less than \<^verbatim>\<open>minValidity\<close>.\<close>

theorem cache_waiter_unchecked:
  assumes "cache_step\<^sup>*\<^sup>* startWorld w" "Called t (Await f) \<in> set (wo_events w)" "zeroTime \<le> now"
  shows "(case awaitFetch pick (map_of (wo_results w) f) ctxErr of
      None \<Rightarrow> f \<in> set (wo_running w) \<and> ctxErr = None
    | Some (Inr tok) \<Rightarrow> (\<exists>t'. Fetched f t' (Inr tok) \<in> set (wo_events w))
    | Some (Inl e) \<Rightarrow> ctxErr = Some e \<or> (\<exists>t'. Fetched f t' (Inl e) \<in> set (wo_events w))) \<and>
    (\<exists>w'. cache_step\<^sup>*\<^sup>* startWorld w' \<and> Called now (Await 0) \<in> set (wo_events w') \<and>
      awaitFetch pick (map_of (wo_results w') 0) None = Some (Inr \<lparr>tk_AccessToken = secret, tk_Expiry = expiry\<rparr>))"
proof
  have "f \<in> set (wo_running w) \<or> map_of (wo_results w) f \<noteq> None"
    using cache_inv_reachable [OF assms(1)] assms(2) by (auto simp: cache_inv_def)
  moreover have "map_of (wo_results w) f = Some r \<Longrightarrow> \<exists>t'. Fetched f t' r \<in> set (wo_events w)" for r
    using results_fetched [OF assms(1)] by blast
  ultimately show "case awaitFetch pick (map_of (wo_results w) f) ctxErr of
      None \<Rightarrow> f \<in> set (wo_running w) \<and> ctxErr = None
    | Some (Inr tok) \<Rightarrow> (\<exists>t'. Fetched f t' (Inr tok) \<in> set (wo_events w))
    | Some (Inl e) \<Rightarrow> ctxErr = Some e \<or> (\<exists>t'. Fetched f t' (Inl e) \<in> set (wo_events w))"
    by (auto simp: awaitFetch_def split: option.splits sum.splits if_splits)
next
  show "\<exists>w'. cache_step\<^sup>*\<^sup>* startWorld w' \<and> Called now (Await 0) \<in> set (wo_events w') \<and>
      awaitFetch pick (map_of (wo_results w') 0) None = Some (Inr \<lparr>tk_AccessToken = secret, tk_Expiry = expiry\<rparr>)"
    using any_token_awaited [OF assms(3), of "\<lparr>tk_AccessToken = secret, tk_Expiry = expiry\<rparr>"]
    by (auto simp: awaitFetch_def)
qed

theorem cache_waiter_unchecked_witness:
  "(\<exists>t'. Fetched 0 t' (Inr (sample_token second)) \<in> set (wo_events (sample_fetched second))) \<and>
   (\<exists>w'. cache_step\<^sup>*\<^sup>* startWorld w' \<and> Called 0 (Await 0) \<in> set (wo_events w') \<and>
      awaitFetch True (map_of (wo_results w') 0) None = Some (Inr \<lparr>tk_AccessToken = ''t'', tk_Expiry = second\<rparr>)) \<and>
   0 + second < 0 + minValidity"
proof -
  have e: "Called 0 (Await 0) \<in> set (wo_events (sample_fetched second))"
    "awaitFetch True (map_of (wo_results (sample_fetched second)) 0) None = Some (Inr (sample_token second))"
    by (simp_all add: sample_fetched_def sample_waiting_eq awaitFetch_def)
  have z: "zeroTime \<le> 0" by (simp add: zeroTime_def)
  from cache_waiter_unchecked [OF sample_reachable(2) e(1) z, where pick = True and ctxErr = None
    and secret = "''t''" and expiry = second]
  show ?thesis unfolding e(2) by (simp add: minValidity_def)
qed

theorem cache_one_fetch_witness:
  "length (wo_running sample_waiting) = 1 \<and> (case map_of (wo_results sample_waiting) 0 of None \<Rightarrow> 0 \<in> set (wo_running sample_waiting) | Some _ \<Rightarrow> True)"
proof -
  have e: "Called 0 (Await 0) \<in> set (wo_events sample_waiting)" "length (wo_running sample_waiting) = 1"
    by (simp_all add: sample_waiting_eq)
  have "0 \<in> set (wo_running sample_waiting) \<or> map_of (wo_results sample_waiting) 0 \<noteq> None"
    using cache_one_fetch [OF sample_reachable(1), of 0] e(1) by blast
  then show ?thesis using e(2) by (simp split: option.split) auto
qed

theorem cache_hands_fetched_witness:
  "0 + minValidity < tk_Expiry (sample_token DefaultLifetime) \<and>
   (\<exists>later f t earlier. wo_events (sample_fetched DefaultLifetime) = later @ Fetched f t (Inr (sample_token DefaultLifetime)) # earlier)"
proof -
  have "cacheToken (wo_next (sample_fetched DefaultLifetime)) 0 (wo_cache (sample_fetched DefaultLifetime)) =
      (wo_cache (sample_fetched DefaultLifetime), Hand (sample_token DefaultLifetime))"
    by (simp add: sample_fetched_def sample_waiting_eq cacheToken_def usable_def finishFetch_def sample_token_def
        minValidity_def refreshMargin_def Let_def)
  from cache_hands_fetched [OF sample_reachable(2) _ this] show ?thesis by (auto simp: zeroTime_def)
qed

theorem parsed_token_bounds_witness:
  "\<exists>tok. parseResponse (sample_oauth_lib ''60'') 200 [] [] 0 = Inr (tok, []) \<and> tk_Expiry tok \<le> 0 + 24 * hour"
proof -
  have "expiresIn ''60'' = Some 60" by (simp add: expiresIn_def Let_def ParseInt64_def go_defs)
  note p = sample_parse [OF this]
  from parsed_token_bounds [OF p] p show ?thesis by blast
qed

end
