(* ===== verification/Backend_Controller.thy ===== *)
theory Backend_Controller
  imports Gateway Credential_Controller
begin

text \<open>
  The reconcilers of MailBackend, ClusterMailBackend and MailPolicy: \<^verbatim>\<open>mailbackend_controller.go\<close>,
  \<^verbatim>\<open>clustermailbackend_controller.go\<close>, \<^verbatim>\<open>mailpolicy_controller.go\<close> and \<^verbatim>\<open>probe.go\<close> of \<^verbatim>\<open>internal/controller\<close>.  Shown:
  exactly when a backend becomes Ready, and how the Ready condition of a policy relates to what the gateway
  does with it.  Drivers, error texts and the cluster's objects are parameters.
\<close>

section \<open>Conditions\<close>

definition maxConditionMessage :: nat where "maxConditionMessage = 4096"

text \<open>The loop that moves the cut back to the start of a rune.\<close>

fun runeCut :: "string \<Rightarrow> nat \<Rightarrow> nat" where
  "runeCut msg 0 = 0"
| "runeCut msg (Suc n) = (if \<not> is_cont (msg ! Suc n) then Suc n else runeCut msg n)"

definition readyCondition :: "time \<Rightarrow> int \<Rightarrow> bool \<Rightarrow> string \<Rightarrow> string \<Rightarrow> Condition" where
  "readyCondition now generation ready reason msg = \<lparr>cond_Type = ''Ready'', cond_Status = (if ready then ''True'' else ''False''),
     cond_ObservedGeneration = generation, cond_LastTransitionTime = now, cond_Reason = reason, cond_Message = msg\<rparr>"

definition truncateMessage :: "string \<Rightarrow> string" where
  "truncateMessage msg =
     (if length msg > maxConditionMessage
      then take (runeCut msg maxConditionMessage) msg @ '' '' @ [CHR 0xE2, CHR 0x80, CHR 0xA6] @ '' (truncated)'' else msg)"

definition errorReadyCondition :: "time \<Rightarrow> int \<Rightarrow> string \<Rightarrow> string \<Rightarrow> Condition" where
  "errorReadyCondition now generation reason msg = readyCondition now generation False reason (truncateMessage msg)"

definition readyConditionFor :: "time \<Rightarrow> int \<Rightarrow> bool \<Rightarrow> string \<Rightarrow> Condition" where
  "readyConditionFor now generation anyReady msg = readyCondition now generation anyReady
     (if anyReady then ''AtLeastOneEndpointReady'' else ''AllEndpointsDown'') msg"

section \<open>Backends\<close>

text \<open>The environment of a reconcile: drivers, the cluster's Secrets, error texts and the time.\<close>

record backend_env =
  be_NewDriver :: "DConfig \<Rightarrow> string + driver"
  be_Secret :: secret_reader
  be_pemOK :: "bytes \<Rightarrow> bool"
  be_invalidText :: "field_error list \<Rightarrow> string"
  be_resolveText :: "resolve_error \<Rightarrow> string"
  be_readText :: "read_error \<Rightarrow> string"
  be_quote :: "string \<Rightarrow> string"
  be_now :: time

definition probeBackend :: "backend_env \<Rightarrow> DConfig \<Rightarrow> string + EndpointStatus list \<times> string list" where
  "probeBackend E cfg = (case be_NewDriver E cfg of Inl e \<Rightarrow> Inl e
     | Inr d \<Rightarrow> Inr (map (\<lambda>r. \<lparr>es_Host = eh_Host r, es_Port = eh_Port r, es_Ready = eh_Ready r, es_Message = eh_Message r\<rparr>)
         (dr_HealthCheck d), dr_Capabilities d))"

definition summarizeEndpoints :: "EndpointStatus list \<Rightarrow> string" where
  "summarizeEndpoints eps = (let ready = length (filter es_Ready eps) in
     if ready = 0 then ''no endpoints ready'' else if ready = length eps then ''all endpoints ready'' else ''some endpoints ready'')"

definition probeInterval :: "BackendSpec \<Rightarrow> duration" where
  "probeInterval spec = (case bs_HealthCheck spec of None \<Rightarrow> 60 * second
     | Some h \<Rightarrow> if hc_IntervalSeconds h > 0 then hc_IntervalSeconds h * second else 60 * second)"

definition probeEnabled :: "BackendSpec \<Rightarrow> bool" where
  "probeEnabled spec = (case bs_HealthCheck spec of None \<Rightarrow> True | Some h \<Rightarrow> hc_Enabled h)"

definition withReady :: "Condition \<Rightarrow> int \<Rightarrow> BackendStatus \<Rightarrow> BackendStatus" where
  "withReady c generation st = st\<lparr>bst_Conditions := setCondition (bst_Conditions st) c, bst_ObservedGeneration := generation\<rparr>"

definition resolveReason :: "resolve_error \<Rightarrow> string" where
  "resolveReason e = (case e of SecretForbidden _ \<Rightarrow> ''SecretNamespaceNotAllowed'' | _ \<Rightarrow> ''InvalidConfiguration'')"

text \<open>The part of \<^verbatim>\<open>reconcileBackend\<close> with a configuration.\<close>

definition probeStatus :: "backend_env \<Rightarrow> DConfig \<Rightarrow> BackendSpec \<Rightarrow> int \<Rightarrow> BackendStatus \<Rightarrow> BackendStatus" where
  "probeStatus E cfg spec generation st =
     (if \<not> probeEnabled spec
      then withReady (readyCondition (be_now E) generation True ''Ready'' ''health checks disabled; assuming ready'') generation
        (st\<lparr>bst_EndpointStatus := [], bst_LastProbeTime := None\<rparr>)
      else case probeBackend E cfg of
        Inl e \<Rightarrow> withReady (errorReadyCondition (be_now E) generation ''ProbeError'' e) generation
          (st\<lparr>bst_LastProbeTime := Some (be_now E)\<rparr>)
      | Inr (endpoints, caps) \<Rightarrow>
          withReady (readyConditionFor (be_now E) generation (list_ex es_Ready endpoints) (summarizeEndpoints endpoints)) generation
            (st\<lparr>bst_EndpointStatus := endpoints, bst_Capabilities := caps, bst_LastProbeTime := Some (be_now E)\<rparr>))"

text \<open>The new status and the delay of the next reconcile; \<open>invalid\<close> are the admission errors.\<close>

definition reconcileBackend ::
    "backend_env \<Rightarrow> string \<Rightarrow> BackendSpec \<Rightarrow> BackendStatus \<Rightarrow> int \<Rightarrow> string \<Rightarrow> field_error list \<Rightarrow> BackendStatus \<times> duration" where
  "reconcileBackend E key spec st generation secretFallbackNs invalid =
     (if invalid \<noteq> []
      then (withReady (errorReadyCondition (be_now E) generation ''InvalidConfiguration'' (be_invalidText E invalid)) generation
        (st\<lparr>bst_EndpointStatus := [], bst_Capabilities := [], bst_LastProbeTime := None\<rparr>), 0)
      else case ResolveBackendConfig (be_pemOK E) (be_Secret E) key spec secretFallbackNs of
        Inl e \<Rightarrow> (withReady (errorReadyCondition (be_now E) generation (resolveReason e) (be_resolveText E e)) generation st,
          probeInterval spec)
      | Inr cfg \<Rightarrow> (probeStatus E cfg spec generation st, probeInterval spec))"

text \<open>\<^verbatim>\<open>Reconcile\<close> of the two kinds: the object to store and the delay.  \<open>X\<close> and \<open>implemented\<close> are those of the webhook.\<close>

definition reconcileMailBackend :: "backend_env \<Rightarrow> externals \<Rightarrow> (string \<Rightarrow> bool) \<Rightarrow> MailBackend \<Rightarrow> MailBackend \<times> duration" where
  "reconcileMailBackend E X implemented mb =
     (case reconcileBackend E (om_Namespace (mb_Meta mb) @ ''/'' @ om_Name (mb_Meta mb)) (mb_Spec mb) (mb_Status mb)
         (om_Generation (mb_Meta mb)) (om_Namespace (mb_Meta mb)) (ValidateMailBackend X implemented mb) of
       (st, requeue) \<Rightarrow> (mb\<lparr>mb_Status := st\<rparr>, requeue))"

definition reconcileClusterMailBackend ::
    "backend_env \<Rightarrow> externals \<Rightarrow> (string \<Rightarrow> bool) \<Rightarrow> ClusterMailBackend \<Rightarrow> ClusterMailBackend \<times> duration" where
  "reconcileClusterMailBackend E X implemented cmb =
     (case reconcileBackend E (''/'' @ om_Name (cmb_Meta cmb)) (cmb_Spec cmb) (cmb_Status cmb)
         (om_Generation (cmb_Meta cmb)) [] (ValidateClusterMailBackend X implemented cmb) of
       (st, requeue) \<Rightarrow> (cmb\<lparr>cmb_Status := st\<rparr>, requeue))"

section \<open>Policies\<close>

definition backendReady :: "Condition list \<Rightarrow> bool" where
  "backendReady conds = (case List.find (\<lambda>c. cond_Type c = ''Ready'') conds of
     None \<Rightarrow> False | Some c \<Rightarrow> cond_Status c = ''True'')"

definition evaluatePolicy :: "backend_env \<Rightarrow> 'l cluster \<Rightarrow> MailPolicy \<Rightarrow> Condition" where
  "evaluatePolicy E C mp =
     (let gen = om_Generation (mp_Meta mp); bad = errorReadyCondition (be_now E) gen;
          ref = ps_BackendRef (mp_Spec mp); invalid = ValidateMailPolicy (c_externals C) mp; ns = mp_Namespace mp;
          good = readyCondition (be_now E) gen True ''Ready'' ''policy is ready and backend is reachable'' in
      if invalid \<noteq> [] then bad ''InvalidConfiguration'' (be_invalidText E invalid)
      else if br_Kind ref = KindClusterMailBackend \<or> br_Kind ref = [] then
        (case c_ClusterMailBackend C (br_Name ref) of
           Inl NotFound \<Rightarrow> bad ''BackendNotFound'' (''ClusterMailBackend '' @ be_quote E (br_Name ref) @ '' not found'')
         | Inl e \<Rightarrow> bad ''BackendNotFound'' (be_readText E e)
         | Inr cmb \<Rightarrow> if \<not> backendReady (bst_Conditions (cmb_Status cmb))
             then bad ''BackendNotReady'' (''ClusterMailBackend '' @ be_quote E (om_Name (cmb_Meta cmb)) @ '' is not Ready'') else good)
      else if br_Kind ref = KindMailBackend then
        (case c_MailBackend C ns (br_Name ref) of
           Inl NotFound \<Rightarrow> bad ''BackendNotFound'' (''MailBackend '' @ ns @ ''/'' @ br_Name ref @ '' not found'')
         | Inl e \<Rightarrow> bad ''BackendNotFound'' (be_readText E e)
         | Inr nb \<Rightarrow> if \<not> backendReady (bst_Conditions (mb_Status nb))
             then bad ''BackendNotReady'' (''MailBackend '' @ om_Namespace (mb_Meta nb) @ ''/'' @ om_Name (mb_Meta nb) @ '' is not Ready'')
             else good)
      else bad ''InvalidConfiguration'' (''unsupported backendRef.kind '' @ be_quote E (br_Kind ref)))"

definition legacyCondition :: "time \<Rightarrow> MailPolicy \<Rightarrow> Condition" where
  "legacyCondition now mp =
     (let on = (case ps_LegacyAuth (mp_Spec mp) of None \<Rightarrow> False | Some l \<Rightarrow> la_PodIPFallback l) in
      \<lparr>cond_Type = ''UsingLegacyAuth'', cond_Status = (if on then ''True'' else ''False''),
       cond_ObservedGeneration = om_Generation (mp_Meta mp), cond_LastTransitionTime = now,
       cond_Reason = (if on then ''PodIPFallbackEnabled'' else ''Disabled''),
       cond_Message = (if on then ''spec.legacyAuth.podIPFallback is enabled'' else ''no legacy auth modes enabled'')\<rparr>)"

definition reconcilePolicy :: "backend_env \<Rightarrow> 'l cluster \<Rightarrow> MailPolicy \<Rightarrow> MailPolicy" where
  "reconcilePolicy E C mp = mp\<lparr>mp_Status := (mp_Status mp)\<lparr>
     pst_Conditions := setCondition (setCondition (pst_Conditions (mp_Status mp)) (evaluatePolicy E C mp)) (legacyCondition (be_now E) mp),
     pst_ObservedGeneration := om_Generation (mp_Meta mp)\<rparr>\<rparr>"

section \<open>Lemmas\<close>

lemma runeCut_le: "runeCut msg n \<le> n"
  by (induction n) auto

lemma runeCut_start: "runeCut msg n = 0 \<or> \<not> is_cont (msg ! runeCut msg n)"
  by (induction n) auto

text \<open>A message is cut within the limit and never inside a rune.\<close>

lemma truncateMessage_bounds:
  "length (truncateMessage msg) \<le> maxConditionMessage + 16"
  using runeCut_le [of msg maxConditionMessage] by (auto simp: truncateMessage_def)

lemma backendIsReady_ready: "backendIsReady st = backendReady (bst_Conditions st)"
  by (simp add: backendIsReady_def backendReady_def)

lemma backendReady_set:
  "backendReady (setCondition cs c) = (if cond_Type c = ''Ready'' then cond_Status c = ''True'' else backendReady cs)"
  by (induction cs c rule: setCondition.induct) (auto simp: backendReady_def)

lemma backendReady_simps [simp]:
  "backendIsReady (withReady (readyCondition now gen ready reason msg) g st) = ready"
  "backendIsReady (withReady (errorReadyCondition now gen reason msg) g st) = False"
  "backendIsReady (withReady (readyConditionFor now gen ready msg) g st) = ready"
  by (simp_all add: backendIsReady_ready withReady_def backendReady_set readyCondition_def errorReadyCondition_def
      readyConditionFor_def)

lemma reconciled_ready:
  "backendIsReady (fst (reconcileBackend E key spec st gen ns invalid)) \<longleftrightarrow>
     invalid = [] \<and> (case ResolveBackendConfig (be_pemOK E) (be_Secret E) key spec ns of Inl _ \<Rightarrow> False
       | Inr cfg \<Rightarrow> \<not> probeEnabled spec \<or> (case be_NewDriver E cfg of Inl _ \<Rightarrow> False | Inr d \<Rightarrow> list_ex eh_Ready (dr_HealthCheck d)))"
  by (simp add: reconcileBackend_def probeStatus_def probeBackend_def list_ex_iff split: sum.split)

lemma evaluatePolicy_ready:
  "cond_Status (evaluatePolicy E C mp) = ''True'' \<longleftrightarrow> ValidateMailPolicy (c_externals C) mp = [] \<and>
     (let ref = ps_BackendRef (mp_Spec mp) in
      if br_Kind ref = KindClusterMailBackend \<or> br_Kind ref = [] then
        (case c_ClusterMailBackend C (br_Name ref) of Inl _ \<Rightarrow> False | Inr cmb \<Rightarrow> backendIsReady (cmb_Status cmb))
      else br_Kind ref = KindMailBackend \<and>
        (case c_MailBackend C (mp_Namespace mp) (br_Name ref) of Inl _ \<Rightarrow> False | Inr mb \<Rightarrow> backendIsReady (mb_Status mb)))"
  by (auto simp: evaluatePolicy_def Let_def errorReadyCondition_def readyCondition_def backendIsReady_ready
      split: sum.splits read_error.splits)

text \<open>The backend that a policy refers to exists and admission accepts its object as it is now.\<close>

definition refValid :: "'l cluster \<Rightarrow> MailPolicy \<Rightarrow> bool" where
  "refValid C p = (let ref = ps_BackendRef (mp_Spec p) in
     if br_Kind ref = KindClusterMailBackend \<or> br_Kind ref = [] then
       (case c_ClusterMailBackend C (br_Name ref) of Inl _ \<Rightarrow> False
        | Inr cmb \<Rightarrow> ValidateClusterMailBackend (c_externals C) (c_implemented C) cmb = [])
     else (case c_MailBackend C (mp_Namespace p) (br_Name ref) of Inl _ \<Rightarrow> False
        | Inr mb \<Rightarrow> ValidateMailBackend (c_externals C) (c_implemented C) mb = []))"

lemma check_Nil_snd: "snd (check [] meta errs) = errs"
  by (simp add: check_def Let_def)

lemma backendOf_ready:
  "(\<exists>r. backendOf C p = Inr r) \<longleftrightarrow> refValid C p \<and>
     (let ref = ps_BackendRef (mp_Spec p) in
      if br_Kind ref = KindClusterMailBackend \<or> br_Kind ref = [] then
        (case c_ClusterMailBackend C (br_Name ref) of Inl _ \<Rightarrow> False | Inr cmb \<Rightarrow> backendIsReady (cmb_Status cmb))
      else br_Kind ref = KindMailBackend \<and>
        (case c_MailBackend C (mp_Namespace p) (br_Name ref) of Inl _ \<Rightarrow> False | Inr mb \<Rightarrow> backendIsReady (mb_Status mb)))"
  using check_Nil_snd
  by (auto simp: backendOf_def backendForPolicy_def mailBackendForPolicy_def clusterMailBackendForPolicy_def Let_def
      refValid_def split_beta split: sum.splits)

section \<open>Properties\<close>

text \<open>C31. A backend is Ready after a reconcile exactly if admission accepts it, its configuration resolves,
  and its health checks are off or found a ready endpoint; whatever its status was before.\<close>

theorem backend_ready_iff:
  "backendIsReady (mb_Status (fst (reconcileMailBackend E X implemented mb))) \<longleftrightarrow>
     ValidateMailBackend X implemented mb = [] \<and>
     (case ResolveBackendConfig (be_pemOK E) (be_Secret E) (om_Namespace (mb_Meta mb) @ ''/'' @ om_Name (mb_Meta mb)) (mb_Spec mb)
          (om_Namespace (mb_Meta mb)) of
        Inl _ \<Rightarrow> False
      | Inr cfg \<Rightarrow> (if probeEnabled (mb_Spec mb)
          then (case be_NewDriver E cfg of Inl _ \<Rightarrow> False | Inr d \<Rightarrow> list_ex eh_Ready (dr_HealthCheck d)) else True))"
  using reconciled_ready [of E "om_Namespace (mb_Meta mb) @ ''/'' @ om_Name (mb_Meta mb)" "mb_Spec mb" "mb_Status mb"
      "om_Generation (mb_Meta mb)" "om_Namespace (mb_Meta mb)" "ValidateMailBackend X implemented mb"]
  by (auto simp: reconcileMailBackend_def split_beta split: sum.splits)

text \<open>C30. The Ready condition of a policy tells what the gateway does with it, up to the backend's own validity: the
  gateway finds the policy valid and gets its backend exactly if the condition is True and admission accepts the
  referenced backend object as it is now.  The condition looks at the backend's recorded readiness only, the gateway
  validates the object again, so the two differ exactly for a backend that became invalid after it was last reconciled.\<close>

theorem policy_ready_agrees:
  "ValidateMailPolicy (c_externals C) p = [] \<and> (\<exists>r. backendOf C p = Inr r) \<longleftrightarrow>
    cond_Status (evaluatePolicy E C p) = ''True'' \<and> refValid C p"
  unfolding evaluatePolicy_ready backendOf_ready by blast

end
