(* ===== verification/Smtp_Driver.thy ===== *)
theory Smtp_Driver
  imports Driver_Mime Policy_Engine
begin

text \<open>
  The SMTP backend driver: \<^verbatim>\<open>internal/driver/smtp/smtp.go\<close>.  A relay is what an endpoint answers to each step of the
  dialogue; \<open>sendVia\<close> and \<open>sendBody\<close> return, besides their result, what went over the wire.  \<^verbatim>\<open>net/smtp\<close> and the
  network are the answers, which may be timeouts; \<open>sendDeadlines\<close> are the deadlines set on a connection.  Shown: a message is
  handed to at most one endpoint and counts as sent exactly if that endpoint took it with every recipient, a
  password leaves only over a connection with established TLS, and which failures are permanent.
\<close>

section \<open>Relays\<close>

text \<open>A reply with its code and text (\<^verbatim>\<open>textproto.Error\<close>), or any other error.\<close>

datatype net_error = Reply nat string | NetError string

text \<open>The marks of \<^verbatim>\<open>configError\<close> and \<^verbatim>\<open>deliveryError\<close>.\<close>

datatype via_error = HandshakeError net_error | configError string | deliveryError net_error

fun via_net :: "via_error \<Rightarrow> net_error option" where
  "via_net (HandshakeError e) = Some e"
| "via_net (deliveryError e) = Some e"
| "via_net (configError _) = None"

text \<open>
  The answers of one connection, \<^term>\<open>None\<close> for success.  \<open>ry_TLS\<close> and \<open>ry_AUTH\<close> are the extensions offered, the
  latter with its list of mechanisms; \<open>ry_ctx\<close> is the error of the caller's context before the message starts.
\<close>

record relay =
  ry_dial :: "net_error option"
  ry_deadline :: "net_error option"
  ry_client :: "net_error option"
  ry_hello :: "net_error option"
  ry_STARTTLS :: bool
  ry_startTLS :: "net_error option"
  ry_AUTH :: "string option"
  ry_auth :: "net_error option"
  ry_sendDeadline :: "net_error option"
  ry_ctx :: "net_error option"
  ry_mail :: "net_error option"
  ry_rcpt :: "string \<Rightarrow> net_error option"
  ry_data :: "net_error option"
  ry_body :: "net_error option"
  ry_dot :: "net_error option"

text \<open>What the driver does on a connection.\<close>

datatype wire =
    Connect dSMTPEndpoint | StartTLS | Login string | MailFrom string | RcptTo string | DataCmd | Content bytes | Dot

record smtp_env =
  en_unicode :: unicode_tables
  en_relay :: "dSMTPEndpoint \<Rightarrow> relay"
  en_retryDelay :: "string \<Rightarrow> (string \<times> string) option"
  en_quote :: "string \<Rightarrow> string"
  en_mimeText :: "mime_error \<Rightarrow> string"
  en_now :: time

section \<open>Classification\<close>

definition isTooManyRecipients :: "unicode_tables \<Rightarrow> string \<Rightarrow> bool" where
  "isTooManyRecipients U msg \<longleftrightarrow> (let m = TrimSpace msg in HasPrefix m ''4.5.3'' \<or> Contains (ToLower U m) ''too many recipient'')"

definition isTransient :: "unicode_tables \<Rightarrow> via_error \<Rightarrow> bool" where
  "isTransient U err = (case err of configError _ \<Rightarrow> False | HandshakeError _ \<Rightarrow> True
     | deliveryError (Reply code msg) \<Rightarrow> if code = 452 \<and> isTooManyRecipients U msg then False else code < 500
     | deliveryError (NetError _) \<Rightarrow> True)"

text \<open>\<open>en_retryDelay\<close> is the match of \<^verbatim>\<open>retryDelay\<close>: the number, of at most six digits, and the unit.\<close>

definition retryHint :: "smtp_env \<Rightarrow> via_error \<Rightarrow> duration" where
  "retryHint N err = (case via_net err of
     Some (Reply code msg) \<Rightarrow> if code \<noteq> 421 \<and> code \<noteq> 451 then 0
       else (case en_retryDelay N msg of None \<Rightarrow> 0
         | Some (digits, unit) \<Rightarrow>
             let n = (case ParseInt64 digits of Some n \<Rightarrow> n | None \<Rightarrow> 0) in
             if HasPrefix (ToLower (en_unicode N) unit) ''m'' then n * minute else n * second)
   | _ \<Rightarrow> 0)"

text \<open>The texts of the errors.\<close>

definition netText :: "net_error \<Rightarrow> string" where
  "netText e = (case e of Reply code msg \<Rightarrow> Itoa (int code) @ '' '' @ msg | NetError s \<Rightarrow> s)"

definition viaText :: "via_error \<Rightarrow> string" where
  "viaText err = (case err of HandshakeError e \<Rightarrow> netText e | deliveryError e \<Rightarrow> netText e | configError s \<Rightarrow> s)"

section \<open>The dialogue\<close>

definition driverHelo :: string where "driverHelo = ''sigillum''"

text \<open>The factory that \<^verbatim>\<open>init\<close> registers.\<close>

definition newDriver :: "DConfig \<Rightarrow> string + SMTPConfig" where
  "newDriver cfg = (case dc_SMTP cfg of None \<Rightarrow> Inl ''smtp: missing SMTPConfig''
     | Some c \<Rightarrow> if sc_Endpoints c = [] then Inl ''smtp: at least one endpoint required'' else Inr c)"

definition helo :: "SMTPConfig \<Rightarrow> string" where
  "helo cfg = (if sc_Helo cfg \<noteq> [] then sc_Helo cfg else driverHelo)"

definition connectTimeout :: "SMTPConfig \<Rightarrow> duration" where
  "connectTimeout cfg = (if sc_Timeout cfg > 0 then sc_Timeout cfg * second else 10 * second)"

text \<open>The deadlines of \<^verbatim>\<open>sendVia\<close>: of the message and of the dial with the handshake.\<close>

definition defaultSendTimeout :: duration where "defaultSendTimeout = 60 * second"

definition sendDeadlines :: "time \<Rightarrow> time option \<Rightarrow> SMTPConfig \<Rightarrow> time \<times> time" where
  "sendDeadlines now dl cfg =
     (let sendDeadline = (case dl of Some t \<Rightarrow> t | None \<Rightarrow> now + defaultSendTimeout);
          handshakeDeadline = now + connectTimeout cfg in
      (sendDeadline, if sendDeadline < handshakeDeadline then sendDeadline else handshakeDeadline))"

definition needsAuth :: "SMTPConfig \<Rightarrow> bool" where
  "needsAuth cfg \<longleftrightarrow> sc_AuthType cfg \<noteq> [] \<and> sc_AuthType cfg \<noteq> ''NONE''"

text \<open>\<open>fmtq\<close> is the verb \<^verbatim>\<open>%q\<close> of \<^verbatim>\<open>fmt\<close>; only the error of \<open>buildAuth\<close> is kept, the mechanism is its name.\<close>

definition buildAuth :: "(string \<Rightarrow> string) \<Rightarrow> string \<Rightarrow> net_error option" where
  "buildAuth fmtq mech = (if mech \<in> set [''PLAIN'', ''LOGIN'', ''CRAM-MD5''] then None
     else Some (NetError (''unsupported auth type '' @ fmtq mech)))"

text \<open>A step: what went over the wire, and the error that ends the dialogue.\<close>

type_synonym 'e dialogue = "wire list \<times> 'e option"

definition thenDo :: "'e dialogue \<Rightarrow> 'e dialogue \<Rightarrow> 'e dialogue" where
  "thenDo a b = (case snd a of Some e \<Rightarrow> a | None \<Rightarrow> (fst a @ fst b, snd b))"

definition handshakeTLS :: "relay \<Rightarrow> dSMTPEndpoint \<Rightarrow> via_error dialogue" where
  "handshakeTLS y ep =
     (if de_TLS ep = ''starttls'' then
        (if \<not> ry_STARTTLS y then ([], Some (HandshakeError (NetError ''server does not advertise STARTTLS'')))
         else ([StartTLS], map_option HandshakeError (ry_startTLS y)))
      else ([], None))"

definition handshakeAuth :: "(string \<Rightarrow> string) \<Rightarrow> SMTPConfig \<Rightarrow> relay \<Rightarrow> dSMTPEndpoint \<Rightarrow> via_error dialogue" where
  "handshakeAuth fmtq cfg y ep =
     (if \<not> needsAuth cfg then ([], None)
      else if de_TLS ep = ''none'' then ([], Some (configError (''authType '' @ sc_AuthType cfg @ '' requires TLS; endpoint '' @
        de_Host ep @ '' uses tls: none, which would send the relay password in cleartext'')))
      else case buildAuth fmtq (sc_AuthType cfg) of Some e \<Rightarrow> ([], Some (HandshakeError e))
        | None \<Rightarrow> ([Login (sc_AuthType cfg)], map_option HandshakeError (ry_auth y)))"

fun firstError :: "net_error option list \<Rightarrow> net_error option" where
  "firstError [] = None"
| "firstError (None # es) = firstError es"
| "firstError (Some e # es) = Some e"

fun sendRcpts :: "relay \<Rightarrow> string list \<Rightarrow> via_error dialogue" where
  "sendRcpts y [] = ([], None)"
| "sendRcpts y (r # rs) = thenDo ([RcptTo r], map_option deliveryError (ry_rcpt y r)) (sendRcpts y rs)"

text \<open>From MAIL to the final dot.\<close>

definition deliver :: "relay \<Rightarrow> string \<Rightarrow> string list \<Rightarrow> bytes \<Rightarrow> via_error dialogue" where
  "deliver y sender rcpts body =
     thenDo ([MailFrom sender], map_option deliveryError (ry_mail y))
     (thenDo (sendRcpts y rcpts)
     (thenDo ([DataCmd], map_option deliveryError (ry_data y))
     (thenDo ([Content body], map_option deliveryError (ry_body y))
             ([Dot], map_option deliveryError (ry_dot y)))))"

definition handshake :: "(string \<Rightarrow> string) \<Rightarrow> SMTPConfig \<Rightarrow> relay \<Rightarrow> dSMTPEndpoint \<Rightarrow> via_error dialogue" where
  "handshake fmtq cfg y ep =
     thenDo ([Connect ep], map_option HandshakeError (firstError [ry_dial y, ry_deadline y, ry_client y, ry_hello y]))
     (thenDo (handshakeTLS y ep)
     (thenDo (handshakeAuth fmtq cfg y ep)
             ([], map_option HandshakeError (firstError [ry_sendDeadline y, ry_ctx y]))))"

definition sendVia :: "smtp_env \<Rightarrow> SMTPConfig \<Rightarrow> dSMTPEndpoint \<Rightarrow> string \<Rightarrow> string list \<Rightarrow> bytes \<Rightarrow> via_error dialogue" where
  "sendVia N cfg ep sender rcpts body =
     (let y = en_relay N ep in thenDo (handshake (en_quote N) cfg y ep) (deliver y sender rcpts body))"

text \<open>The loop of \<^verbatim>\<open>sendBody\<close> over the endpoints: the wire, whether one took the message, the last error and the
  flag \<^verbatim>\<open>transient\<close>.\<close>

fun tryEndpoints :: "smtp_env \<Rightarrow> SMTPConfig \<Rightarrow> string \<Rightarrow> string list \<Rightarrow> bytes \<Rightarrow> dSMTPEndpoint list \<Rightarrow> via_error option \<Rightarrow> bool \<Rightarrow>
    wire list \<times> bool \<times> via_error option \<times> bool" where
  "tryEndpoints N cfg sender rcpts body [] lastErr transient = ([], False, lastErr, transient)"
| "tryEndpoints N cfg sender rcpts body (ep # eps) lastErr transient =
     (case sendVia N cfg ep sender rcpts body of
        (w, None) \<Rightarrow> (w, True, lastErr, transient)
      | (w, Some err) \<Rightarrow>
          let transient = (transient \<and> isTransient (en_unicode N) err) in
          (case err of deliveryError _ \<Rightarrow> (w, False, Some err, transient)
           | _ \<Rightarrow> (case tryEndpoints N cfg sender rcpts body eps (Some err) transient of (w', r) \<Rightarrow> (w @ w', r))))"

definition driverError :: driver_error where
  "driverError = \<lparr>de_NoReadyEndpoint = False, de_Transient = False, de_Permanent = False, de_RecipientNotInEnvelope = False,
     de_RetryAfter = None, de_Message = []\<rparr>"

definition transientError :: "smtp_env \<Rightarrow> via_error option \<Rightarrow> driver_error" where
  "transientError N lastErr = (case lastErr of
     None \<Rightarrow> driverError\<lparr>de_Transient := True, de_Message := ''upstream transient error: no ready endpoint''\<rparr>
   | Some err \<Rightarrow> the (WithRetryAfter (Some (driverError\<lparr>de_Transient := True, de_Message := ''upstream transient error: '' @ viaText err\<rparr>)) (retryHint N err)))"

definition sendBody :: "smtp_env \<Rightarrow> SMTPConfig \<Rightarrow> string \<Rightarrow> string list \<Rightarrow> bytes \<Rightarrow> string \<Rightarrow> wire list \<times> (driver_error + SendResult)" where
  "sendBody N cfg sender rcpts body msgID =
     (case tryEndpoints N cfg sender rcpts body (sc_Endpoints cfg) None True of (w, sent, lastErr, transient) \<Rightarrow>
       (w, if sent then Inr \<lparr>sr_UpstreamID = msgID, sr_AcceptedAt = en_now N\<rparr>
           else if transient then Inl (transientError N lastErr)
           else Inl (driverError\<lparr>de_Permanent := True, de_Message := ''upstream permanent error: '' @ (case lastErr of None \<Rightarrow> ''no ready endpoint'' | Some e \<Rightarrow> viaText e)\<rparr>)))"

text \<open>\<^verbatim>\<open>Send\<close> and \<^verbatim>\<open>SendRaw\<close>; \<open>L\<close>, \<open>d\<close> and \<open>date\<close> are those of \<open>AssembleMessage\<close>.\<close>

definition smtp_Send :: "smtp_env \<Rightarrow> mime_lib \<Rightarrow> draws \<Rightarrow> string \<Rightarrow> SMTPConfig \<Rightarrow> Message option \<Rightarrow> wire list \<times> (driver_error + SendResult)" where
  "smtp_Send N L d date cfg msg = (case msg of
     None \<Rightarrow> ([], Inl (driverError\<lparr>de_Message := ''nil message''\<rparr>))
   | Some m \<Rightarrow> (case AssembleMessage L d date msg (helo cfg) of
       (Inl e, _) \<Rightarrow> ([], Inl (driverError\<lparr>de_Permanent := True, de_Message := ''upstream permanent error: '' @ en_mimeText N e\<rparr>))
     | (Inr body, msgID) \<Rightarrow> sendBody N cfg (ad_Address (ms_From m)) (extractAddrs (ms_To m @ ms_Cc m @ ms_Bcc m)) body msgID))"

definition smtp_SendRaw :: "smtp_env \<Rightarrow> SMTPConfig \<Rightarrow> string \<Rightarrow> string list \<Rightarrow> bytes \<Rightarrow> wire list \<times> (driver_error + SendResult)" where
  "smtp_SendRaw N cfg envelopeFrom rcpts raw =
     (if rcpts = [] then ([], Inl (driverError\<lparr>de_Permanent := True, de_Message := ''upstream permanent error: at least one recipient required''\<rparr>))
      else sendBody N cfg envelopeFrom rcpts raw [])"

section \<open>Probes\<close>

text \<open>The fields of a text between spaces (\<^verbatim>\<open>strings.Fields\<close> of an EHLO line, which is ASCII).\<close>

definition ehloFields :: "string \<Rightarrow> string list" where
  "ehloFields s = filter (\<lambda>f. f \<noteq> []) (Split (map (\<lambda>c. if space_byte c then CHR '' '' else c) s) CHR '' '')"

definition authMechOffered :: "unicode_tables \<Rightarrow> string \<Rightarrow> string \<Rightarrow> bool" where
  "authMechOffered U advertised mech = list_ex (\<lambda>m. EqualFold U m mech) (ehloFields advertised)"

text \<open>The error of a probe, if there is one.\<close>

definition probeError :: "unicode_tables \<Rightarrow> (string \<Rightarrow> string) \<Rightarrow> SMTPConfig \<Rightarrow> relay \<Rightarrow> dSMTPEndpoint \<Rightarrow> string option" where
  "probeError U fmtq cfg y ep = (case firstError [ry_dial y, ry_client y, ry_hello y] of
     Some e \<Rightarrow> Some (netText e)
   | None \<Rightarrow>
      if de_TLS ep = ''starttls'' \<and> \<not> ry_STARTTLS y then Some ''server does not advertise STARTTLS''
      else case (if de_TLS ep = ''starttls'' then ry_startTLS y else None) of
        Some e \<Rightarrow> Some (netText e)
      | None \<Rightarrow>
          if needsAuth cfg \<and> (case ry_AUTH y of None \<Rightarrow> True | Some mechs \<Rightarrow> \<not> authMechOffered U mechs (sc_AuthType cfg))
          then Some (''relay does not offer AUTH '' @ sc_AuthType cfg @ '' (offers '' @
            fmtq (case ry_AUTH y of None \<Rightarrow> [] | Some mechs \<Rightarrow> mechs) @ '')'') else None)"

definition probeEndpoint :: "smtp_env \<Rightarrow> SMTPConfig \<Rightarrow> dSMTPEndpoint \<Rightarrow> EndpointHealth" where
  "probeEndpoint N cfg ep = (case probeError (en_unicode N) (en_quote N) cfg (en_relay N ep) ep of
     Some msg \<Rightarrow> \<lparr>eh_Host = de_Host ep, eh_Port = de_Port ep, eh_Ready = False, eh_Message = msg\<rparr>
   | None \<Rightarrow> \<lparr>eh_Host = de_Host ep, eh_Port = de_Port ep, eh_Ready = True, eh_Message = []\<rparr>)"

definition endpointKey :: "string \<Rightarrow> int \<Rightarrow> string" where
  "endpointKey host port = host @ '':'' @ Itoa port"

text \<open>The probes of all endpoints, and the driver's map \<^verbatim>\<open>health\<close> afterwards.\<close>

definition HealthCheck :: "smtp_env \<Rightarrow> SMTPConfig \<Rightarrow> (string \<rightharpoonup> EndpointHealth) \<Rightarrow> EndpointHealth list \<times> (string \<rightharpoonup> EndpointHealth)" where
  "HealthCheck N cfg health =
     (let out = map (probeEndpoint N cfg) (sc_Endpoints cfg) in
      (out, foldl (\<lambda>m h. m(endpointKey (eh_Host h) (eh_Port h) \<mapsto> h)) health out))"

section \<open>The LOGIN mechanism\<close>

definition isLocalhost :: "string \<Rightarrow> bool" where
  "isLocalhost name \<longleftrightarrow> name = ''localhost'' \<or> name = ''127.0.0.1'' \<or> name = ''::1''"

text \<open>The server is known by whether it uses TLS and its name; \<^term>\<open>None\<close> is an unknown server.\<close>

definition loginAuth_Start :: "(bool \<times> string) option \<Rightarrow> string + string" where
  "loginAuth_Start server = (case server of
     Some (tls, name) \<Rightarrow> if \<not> tls \<and> \<not> isLocalhost name then Inl ''unencrypted connection'' else Inr ''LOGIN''
   | None \<Rightarrow> Inr ''LOGIN'')"

definition loginAuth_Next :: "(string \<Rightarrow> string) \<Rightarrow> string \<Rightarrow> string \<Rightarrow> string \<Rightarrow> bool \<Rightarrow> string + string option" where
  "loginAuth_Next fmtq username password fromServer again =
     (if \<not> again then Inr None
      else if fromServer = ''Username:'' then Inr (Some username)
      else if fromServer = ''Password:'' then Inr (Some password)
      else Inl (''unexpected server challenge: '' @ fmtq fromServer))"

section \<open>What goes over the wire\<close>

lemma thenDo_simps:
  "thenDo (w, Some e) b = (w, Some e)" "thenDo (w, None) b = (w @ fst b, snd b)"
  by (simp_all add: thenDo_def)

lemma thenDo_None: "snd (thenDo a b) = None \<longleftrightarrow> snd a = None \<and> snd b = None"
  by (simp add: thenDo_def split: option.split)

lemma thenDo_fst: "fst (thenDo a b) = (if snd a = None then fst a @ fst b else fst a)"
  by (simp add: thenDo_def split: option.split)

definition isMail :: "wire \<Rightarrow> bool" where
  "isMail w \<longleftrightarrow> (case w of MailFrom _ \<Rightarrow> True | _ \<Rightarrow> False)"

definition handed :: "string \<Rightarrow> string list \<Rightarrow> bytes \<Rightarrow> wire list" where
  "handed sender rcpts body = MailFrom sender # map RcptTo rcpts @ [DataCmd, Content body, Dot]"

lemma sendRcpts_wire:
  "\<exists>n. fst (sendRcpts y rs) = map RcptTo (take n rs)" "snd (sendRcpts y rs) = None \<Longrightarrow> fst (sendRcpts y rs) = map RcptTo rs"
  "\<And>e. snd (sendRcpts y rs) = Some e \<Longrightarrow> \<exists>x. e = deliveryError x"
proof (induction rs)
  case (Cons r rs)
  {
    case 1
    show ?case
    proof (cases "ry_rcpt y r")
      case None
      then show ?thesis using Cons(1) by (auto simp: thenDo_simps intro: exI [of _ "Suc _"])
    next
      case (Some e)
      then show ?thesis by (auto simp: thenDo_simps intro!: exI [of _ 1])
    qed
  next
    case 2
    then show ?case using Cons(2) by (cases "ry_rcpt y r") (simp_all add: thenDo_simps)
  next
    case (3 e)
    then show ?case using Cons(3) by (cases "ry_rcpt y r") (auto simp: thenDo_simps)
  }
qed simp_all

text \<open>The relay answered every step of a delivery with success, the final dot included.\<close>

definition tookAll :: "relay \<Rightarrow> string list \<Rightarrow> bool" where
  "tookAll y rcpts \<longleftrightarrow> ry_mail y = None \<and> list_all (\<lambda>r. ry_rcpt y r = None) rcpts \<and> ry_data y = None \<and>
     ry_body y = None \<and> ry_dot y = None"

lemma sendRcpts_took: "snd (sendRcpts y rs) = None \<longleftrightarrow> list_all (\<lambda>r. ry_rcpt y r = None) rs"
  by (induction rs) (auto simp: thenDo_None)

lemma deliver_took: "snd (deliver y s rs b) = None \<longleftrightarrow> tookAll y rs"
  by (auto simp: deliver_def thenDo_None sendRcpts_took tookAll_def)

lemma deliver_wire:
  "snd (deliver y s rs b) = None \<Longrightarrow> fst (deliver y s rs b) = handed s rs b"
  by (auto simp: deliver_def thenDo_None thenDo_fst handed_def sendRcpts_wire(2))

lemma deliver_error: "snd (deliver y s rs b) = Some e \<Longrightarrow> \<exists>x. e = deliveryError x"
  by (auto simp: deliver_def thenDo_def dest: sendRcpts_wire(3) split: option.splits)

lemma deliver_shape: "\<exists>ws. fst (deliver y s rs b) = MailFrom s # ws \<and> list_all (\<lambda>w. \<not> isMail w \<and> (\<forall>ep. w \<noteq> Connect ep) \<and> (\<forall>m. w \<noteq> Login m)) ws"
proof -
  obtain n where "fst (sendRcpts y rs) = map RcptTo (take n rs)" using sendRcpts_wire(1) by blast
  then show ?thesis by (auto simp: deliver_def thenDo_fst isMail_def list_all_iff)
qed

lemma handshake_error: "snd (handshake fmtq cfg y ep) = Some e \<Longrightarrow> \<not> (\<exists>x. e = deliveryError x)"
  by (auto simp: handshake_def handshakeTLS_def handshakeAuth_def thenDo_def split: option.splits if_splits)

lemma handshakeTLS_wire:
  "fst (handshakeTLS y ep) = [] \<or> fst (handshakeTLS y ep) = [StartTLS]"
  "snd (handshakeTLS y ep) = None \<Longrightarrow> fst (handshakeTLS y ep) = (if de_TLS ep = ''starttls'' then [StartTLS] else []) \<and>
     (de_TLS ep = ''starttls'' \<longrightarrow> ry_STARTTLS y \<and> ry_startTLS y = None)"
  by (auto simp: handshakeTLS_def split: if_splits)

lemma handshakeAuth_wire:
  "fst (handshakeAuth fmtq cfg y ep) = [] \<or> fst (handshakeAuth fmtq cfg y ep) = [Login (sc_AuthType cfg)] \<and> de_TLS ep \<noteq> ''none''"
  by (auto simp: handshakeAuth_def split: if_splits option.splits)

lemma firstError_None: "firstError es = None \<longleftrightarrow> list_all (\<lambda>e. e = None) es"
  by (induction es rule: firstError.induct) auto

text \<open>A handshake connects, may start TLS and may log in, the latter only where the connection stands and TLS was
  established on it.\<close>

lemma handshake_wire:
  "\<exists>ws. fst (handshake fmtq cfg y ep) = Connect ep # ws \<and>
     (ws = [] \<or> ws = [StartTLS] \<or>
      (ws = (if de_TLS ep = ''starttls'' then [StartTLS] else []) @ [Login (sc_AuthType cfg)] \<and> de_TLS ep \<noteq> ''none'' \<and>
       ry_dial y = None \<and> (de_TLS ep = ''starttls'' \<longrightarrow> ry_STARTTLS y \<and> ry_startTLS y = None)))"
  unfolding handshake_def thenDo_fst using handshakeTLS_wire [of y ep] handshakeAuth_wire [of fmtq cfg y ep]
  by (auto simp: thenDo_fst firstError_None)

lemma handshake_no_mail: "list_all (\<lambda>w. \<not> isMail w) (fst (handshake fmtq cfg y ep))"
  using handshake_wire [of fmtq cfg y ep] by (auto simp: isMail_def)

text \<open>The last connection on a wire is one to \<open>ep\<close>.\<close>

definition onConnection :: "dSMTPEndpoint \<Rightarrow> wire list \<Rightarrow> bool" where
  "onConnection ep w \<longleftrightarrow> (\<exists>before hs. w = before @ Connect ep # hs \<and> list_all (\<lambda>x. case x of Connect _ \<Rightarrow> False | _ \<Rightarrow> True) hs)"

lemma handshake_connection: "onConnection ep (before @ fst (handshake fmtq cfg y ep))"
proof -
  obtain ws where "fst (handshake fmtq cfg y ep) = Connect ep # ws"
      "list_all (\<lambda>x. case x of Connect _ \<Rightarrow> False | _ \<Rightarrow> True) ws"
    using handshake_wire [of fmtq cfg y ep] by (auto split: if_splits)
  then show ?thesis unfolding onConnection_def by blast
qed

lemma onConnection_append: "onConnection ep w \<Longrightarrow> onConnection ep (before @ w)"
  unfolding onConnection_def by (metis append.assoc)

lemma sendVia_cases:
  obtains (handshake) e where "sendVia N cfg ep s rs b = (fst (handshake (en_quote N) cfg (en_relay N ep) ep), Some e)" "\<And>x. e \<noteq> deliveryError x"
  | (judged) e where "sendVia N cfg ep s rs b = (fst (handshake (en_quote N) cfg (en_relay N ep) ep) @ fst (deliver (en_relay N ep) s rs b), Some (deliveryError e))"
      "\<not> tookAll (en_relay N ep) rs"
  | (taken) "sendVia N cfg ep s rs b = (fst (handshake (en_quote N) cfg (en_relay N ep) ep) @ handed s rs b, None)"
      "tookAll (en_relay N ep) rs"
proof (cases "snd (handshake (en_quote N) cfg (en_relay N ep) ep)")
  case None
  show ?thesis
  proof (cases "snd (deliver (en_relay N ep) s rs b)")
    case None2: None
    then show ?thesis using None taken deliver_wire [OF None2] deliver_took [of "en_relay N ep" s rs b] by (simp add: sendVia_def Let_def thenDo_def)
  next
    case (Some e)
    then obtain x where "e = deliveryError x" using deliver_error by blast
    then show ?thesis using None Some judged [of x] deliver_took [of "en_relay N ep" s rs b] by (simp add: sendVia_def Let_def thenDo_def)
  qed
next
  case (Some e)
  then show ?thesis using handshake [of e] handshake_error [OF Some] by (cases "handshake (en_quote N) cfg (en_relay N ep) ep") (auto simp: sendVia_def Let_def thenDo_def)
qed

text \<open>The wire of a send: handshakes without a message, then at most one delivery, which is the last thing on it.\<close>

definition lastDelivery :: "smtp_env \<Rightarrow> dSMTPEndpoint list \<Rightarrow> string \<Rightarrow> string list \<Rightarrow> bytes \<Rightarrow> wire list \<Rightarrow> wire list \<Rightarrow> bool \<Rightarrow> bool" where
  "lastDelivery N eps s rs b pre post sent \<longleftrightarrow> list_all (\<lambda>x. \<not> isMail x) pre \<and>
     (post = [] \<and> \<not> sent \<or> (\<exists>ep. ep \<in> set eps \<and> onConnection ep pre \<and> post = fst (deliver (en_relay N ep) s rs b) \<and>
        (sent \<longleftrightarrow> tookAll (en_relay N ep) rs)))"

lemma tryEndpoints_wire:
  assumes "tryEndpoints N cfg s rs b eps le t = (w, sent, le', t')"
  shows "\<exists>pre post. w = pre @ post \<and> lastDelivery N eps s rs b pre post sent"
  using assms
proof (induction eps arbitrary: le t w)
  case (Cons ep eps)
  let ?h = "fst (handshake (en_quote N) cfg (en_relay N ep) ep)"
  have h: "onConnection ep ?h" using handshake_connection [of ep "[]"] by simp
  note nm = handshake_no_mail [of "en_quote N" cfg "en_relay N ep" ep]
  show ?case
  proof (cases rule: sendVia_cases [of N cfg ep s rs b])
    case (handshake e)
    obtain w2 where "tryEndpoints N cfg s rs b eps (Some e) (t \<and> isTransient (en_unicode N) e) = (w2, sent, le', t')" "w = ?h @ w2"
      using Cons.prems handshake by (cases e) (auto simp: Let_def split: prod.splits)
    from Cons.IH [OF this(1)] obtain pre post where "w2 = pre @ post" "lastDelivery N eps s rs b pre post sent" by blast
    then show ?thesis using \<open>w = ?h @ w2\<close> nm onConnection_append [of _ pre ?h]
      unfolding lastDelivery_def by (intro exI [of _ "?h @ pre"] exI [of _ post]) auto
  next
    case (judged e)
    then show ?thesis using Cons.prems nm h unfolding lastDelivery_def
      by (intro exI [of _ ?h] exI [of _ "fst (deliver (en_relay N ep) s rs b)"]) (auto simp: Let_def)
  next
    case taken
    then have "handed s rs b = fst (deliver (en_relay N ep) s rs b)" using deliver_wire deliver_took by metis
    then show ?thesis using taken Cons.prems nm h unfolding lastDelivery_def
      by (intro exI [of _ ?h] exI [of _ "handed s rs b"]) auto
  qed
qed (simp add: lastDelivery_def)

text \<open>
  Whether every login on the wire is on an encrypted connection, read from what the relays answered: a connection
  is encrypted from the start when it was dialled with TLS, and later when its relay offers STARTTLS and the TLS
  handshake on it succeeded.  \<open>cur\<close> is the relay of the current connection and \<open>enc\<close> tells whether it is encrypted.
\<close>

primrec loginsSafe :: "(dSMTPEndpoint \<Rightarrow> relay) \<Rightarrow> relay option \<Rightarrow> bool \<Rightarrow> wire list \<Rightarrow> bool" where
  "loginsSafe R cur enc [] = True"
| "loginsSafe R cur enc (w # ws) = (case w of
     Connect ep \<Rightarrow> loginsSafe R (Some (R ep)) (de_TLS ep = ''tls'' \<and> ry_dial (R ep) = None) ws
   | StartTLS \<Rightarrow> loginsSafe R cur (case cur of None \<Rightarrow> False | Some y \<Rightarrow> ry_STARTTLS y \<and> ry_startTLS y = None) ws
   | Login _ \<Rightarrow> enc \<and> loginsSafe R cur enc ws
   | _ \<Rightarrow> loginsSafe R cur enc ws)"

lemma loginsSafe_append: "loginsSafe R cur enc v \<Longrightarrow> (\<And>cur enc. loginsSafe R cur enc w) \<Longrightarrow> loginsSafe R cur enc (v @ w)"
  by (induction v arbitrary: cur enc) (auto split: wire.splits)

lemma loginsSafe_none: "list_all (\<lambda>w. \<forall>m. w \<noteq> Login m) ws \<Longrightarrow> loginsSafe R cur enc ws"
  by (induction ws arbitrary: cur enc) (auto split: wire.split)

definition knownTLS :: "dSMTPEndpoint \<Rightarrow> bool" where
  "knownTLS ep \<longleftrightarrow> de_TLS ep \<in> set [''starttls'', ''tls'', ''none'']"

lemma loginsSafe_handshake: "knownTLS ep \<Longrightarrow> loginsSafe R cur enc (fst (handshake fmtq cfg (R ep) ep))"
  using handshake_wire [of fmtq cfg "R ep" ep] by (auto simp: knownTLS_def)

lemma loginsSafe_deliver: "loginsSafe R cur enc (fst (deliver y s rs b))"
proof -
  obtain ws where "fst (deliver y s rs b) = MailFrom s # ws" "list_all (\<lambda>w. \<forall>m. w \<noteq> Login m) ws"
    using deliver_shape [of y s rs b] by (auto simp: list_all_iff)
  then show ?thesis by (simp add: loginsSafe_none)
qed

lemma loginsSafe_sendVia: "knownTLS ep \<Longrightarrow> loginsSafe (en_relay N) cur enc (fst (sendVia N cfg ep s rs b))"
  unfolding sendVia_def Let_def thenDo_fst by (simp add: loginsSafe_handshake loginsSafe_append loginsSafe_deliver)

lemma loginsSafe_tryEndpoints:
  "list_all knownTLS eps \<Longrightarrow> loginsSafe (en_relay N) cur enc (fst (tryEndpoints N cfg s rs b eps le t))"
proof (induction eps arbitrary: cur enc le t)
  case (Cons ep eps)
  obtain w r where v: "sendVia N cfg ep s rs b = (w, r)" by force
  have w: "loginsSafe (en_relay N) cur enc w" using loginsSafe_sendVia [of ep N cur enc cfg s rs b] Cons.prems v by simp
  have ws: "loginsSafe (en_relay N) cur enc (w @ fst (tryEndpoints N cfg s rs b eps le' t'))" for le' t'
    by (rule loginsSafe_append [OF w]) (use Cons in simp)
  show ?case
  proof (cases r)
    case None
    then show ?thesis using v w by simp
  next
    case (Some e)
    then show ?thesis using v w ws by (cases e) (simp_all add: Let_def split_beta)
  qed
qed simp

text \<open>The flag \<^verbatim>\<open>transient\<close> is only lost to an endpoint whose error is not transient.\<close>

lemma tryEndpoints_flag:
  "tryEndpoints N cfg s rs b eps le t = (w, False, le', t') \<Longrightarrow>
   \<not> t' \<Longrightarrow> t \<Longrightarrow> \<exists>ep\<in>set eps. \<exists>e. snd (sendVia N cfg ep s rs b) = Some e \<and> \<not> isTransient (en_unicode N) e"
proof (induction eps arbitrary: le t w)
  case (Cons ep eps)
  obtain v r where v: "sendVia N cfg ep s rs b = (v, r)" by force
  show ?case
  proof (cases r)
    case None
    then show ?thesis using v Cons.prems(1) by simp
  next
    case (Some e)
    show ?thesis
    proof (cases "isTransient (en_unicode N) e")
      case True
      then have "\<not> (\<exists>x. e = deliveryError x)" using v Some Cons.prems by (auto simp: Let_def)
      then obtain w2 where "tryEndpoints N cfg s rs b eps (Some e) True = (w2, False, le', t')"
        using v Some Cons.prems True by (cases e) (auto simp: Let_def split: prod.splits)
      from Cons.IH [OF this] Cons.prems(2) show ?thesis by auto
    next
      case False
      then show ?thesis using v Some by auto
    qed
  qed
qed simp

section \<open>Properties\<close>

text \<open>C16. A message is handed to at most one relay: on the wire of a send there is at most one MAIL command and nothing
  but its dialogue follows on that connection.  The send succeeds exactly when the relay of that connection, a
  configured endpoint, answered MAIL, every recipient, DATA, the body and the final dot with success, and then all of
  them went to it; it fails when no relay was given the message or the one that was refused a step.\<close>

theorem smtp_delivers_once:
  "\<exists>pre post. fst (sendBody N cfg sender rcpts body msgID) = pre @ post \<and> length (filter isMail pre) = 0 \<and>
     length (filter isMail post) \<le> 1 \<and>
     list_all (\<lambda>w. case w of Connect _ \<Rightarrow> False | Login _ \<Rightarrow> False | _ \<Rightarrow> True) post \<and>
     (case snd (sendBody N cfg sender rcpts body msgID) of
        Inr _ \<Rightarrow> post = handed sender rcpts body \<and>
          (\<exists>ep. ep \<in> set (sc_Endpoints cfg) \<and> onConnection ep pre \<and> tookAll (en_relay N ep) rcpts)
      | Inl _ \<Rightarrow> post = [] \<or>
          (\<exists>ep. ep \<in> set (sc_Endpoints cfg) \<and> onConnection ep pre \<and> \<not> tookAll (en_relay N ep) rcpts))"
proof -
  obtain w sent le t where r: "tryEndpoints N cfg sender rcpts body (sc_Endpoints cfg) None True = (w, sent, le, t)"
    by (metis prod_cases4)
  from tryEndpoints_wire [OF r] obtain pre post where p: "w = pre @ post"
    and l: "lastDelivery N (sc_Endpoints cfg) sender rcpts body pre post sent" by blast
  have pre: "filter isMail pre = []" using l by (auto simp: lastDelivery_def filter_empty_conv list_all_iff)
  have "length (filter isMail (fst (deliver y sender rcpts body))) \<le> 1 \<and>
      list_all (\<lambda>w. case w of Connect _ \<Rightarrow> False | Login _ \<Rightarrow> False | _ \<Rightarrow> True) (fst (deliver y sender rcpts body))" for y
    using deliver_shape [of y sender rcpts body] by (auto simp: isMail_def list_all_iff filter_empty_conv split: wire.splits)
  then have post: "length (filter isMail post) \<le> 1 \<and>
      list_all (\<lambda>w. case w of Connect _ \<Rightarrow> False | Login _ \<Rightarrow> False | _ \<Rightarrow> True) post"
    using l by (auto simp: lastDelivery_def)
  have "if sent then post = handed sender rcpts body \<and>
          (\<exists>ep. ep \<in> set (sc_Endpoints cfg) \<and> onConnection ep pre \<and> tookAll (en_relay N ep) rcpts)
        else post = [] \<or> (\<exists>ep. ep \<in> set (sc_Endpoints cfg) \<and> onConnection ep pre \<and> \<not> tookAll (en_relay N ep) rcpts)"
    using l deliver_wire deliver_took by (auto simp: lastDelivery_def)
  then show ?thesis using r p pre post
    by (intro exI [of _ pre] exI [of _ post]) (simp add: sendBody_def split: if_splits)
qed

text \<open>C17. The relay password goes over TLS only: with the endpoint modes that the API allows, every login on the wire of a
  send is on a connection on which TLS was established by then: one dialled with TLS, or one whose relay offers
  STARTTLS and on which starting TLS succeeded.\<close>

theorem smtp_password_needs_TLS:
  assumes "list_all knownTLS (sc_Endpoints cfg)"
  shows "loginsSafe (en_relay N) None False (fst (sendBody N cfg sender rcpts body msgID))"
  using loginsSafe_tryEndpoints [OF assms, of N None False cfg sender rcpts body None True]
  by (simp add: sendBody_def split_beta)

text \<open>A failed send is permanent only because of an endpoint whose error no retry can change.\<close>

lemma smtp_permanent_reason:
  assumes "snd (sendBody N cfg sender rcpts body msgID) = Inl e" "de_Permanent e"
  shows "\<exists>ep\<in>set (sc_Endpoints cfg). \<exists>err. snd (sendVia N cfg ep sender rcpts body) = Some err \<and> \<not> isTransient (en_unicode N) err"
proof -
  obtain w sent le t where r: "tryEndpoints N cfg sender rcpts body (sc_Endpoints cfg) None True = (w, sent, le, t)"
    by (metis prod_cases4)
  have "\<not> de_Permanent (transientError N le)"
    by (simp add: transientError_def WithRetryAfter_def driverError_def split: option.split)
  then have "\<not> sent" "\<not> t" using assms r by (auto simp: sendBody_def split: if_splits)
  then show ?thesis using tryEndpoints_flag [of N cfg sender rcpts body "sc_Endpoints cfg" None True w le t] r by simp
qed

section \<open>A send, evaluated\<close>

definition sample_relay :: relay where
  "sample_relay = \<lparr>ry_dial = None, ry_deadline = None, ry_client = None, ry_hello = None, ry_STARTTLS = True, ry_startTLS = None,
     ry_AUTH = Some ''PLAIN LOGIN'', ry_auth = None, ry_sendDeadline = None, ry_ctx = None, ry_mail = None, ry_rcpt = (\<lambda>_. None),
     ry_data = None, ry_body = None, ry_dot = None\<rparr>"

definition sample_smtp_env :: smtp_env where
  "sample_smtp_env = \<lparr>en_unicode = sample_tables, en_relay = (\<lambda>_. sample_relay), en_retryDelay = (\<lambda>_. None), en_quote = (\<lambda>s. s),
     en_mimeText = (\<lambda>_. []), en_now = 0\<rparr>"

definition sample_smtp_config :: SMTPConfig where
  "sample_smtp_config = \<lparr>sc_Endpoints = [\<lparr>de_Host = ''r'', de_Port = 587, de_TLS = ''starttls'', de_InsecureSkipVerify = False\<rparr>],
     sc_AuthType = ''PLAIN'', sc_Username = ''u'', sc_Password = ''p'', sc_Timeout = 0, sc_Helo = [], sc_RootCAs = None\<rparr>"

theorem smtp_password_needs_TLS_witness:
  "loginsSafe (en_relay sample_smtp_env) None False (fst (sendBody sample_smtp_env sample_smtp_config ''a@b'' [''c@d''] ''x'' [])) \<and>
   Login ''PLAIN'' \<in> set (fst (sendBody sample_smtp_env sample_smtp_config ''a@b'' [''c@d''] ''x'' []))"
proof -
  have "list_all knownTLS (sc_Endpoints sample_smtp_config)" by (simp add: sample_smtp_config_def knownTLS_def)
  moreover have "Login ''PLAIN'' \<in> set (fst (sendBody sample_smtp_env sample_smtp_config ''a@b'' [''c@d''] ''x'' []))" by code_simp
  ultimately show ?thesis using smtp_password_needs_TLS by blast
qed

end
