(* ===== verification/Login_Limiter.thy ===== *)
theory Login_Limiter
  imports Smtp_Session "HOL-Library.Multiset"
begin

text \<open>
  The failed-login limiter of the SMTP proxy and the logins it throttles: \<^verbatim>\<open>FailureLimiter\<close>, \<^verbatim>\<open>credentialAuth\<close> and
  the first half of \<^verbatim>\<open>credentialLogin\<close> in \<^verbatim>\<open>internal/smtpproxy/credential.go\<close>.  The sections of \<^verbatim>\<open>Begin\<close> under the lock are one
  operation each, and \<open>limiter_step\<close> interleaves them for any number of attempts.  \<^verbatim>\<open>golang-lru\<close> is the record
  \<open>hit_lru\<close>, of which \<open>hit_lru_ok\<close> states that nothing is evicted below its capacity.  Shown: attempts of a
  key run one at a time, and no window holds more failures of a key than the limit.
\<close>

section \<open>The limiter\<close>

record 'h hit_lru =
  hl_Get :: "'h \<Rightarrow> string \<Rightarrow> 'h \<times> time list option"
  hl_Add :: "'h \<Rightarrow> string \<Rightarrow> time list \<Rightarrow> 'h"
  hl_Remove :: "'h \<Rightarrow> string \<Rightarrow> 'h"
  hl_New :: 'h

definition maxFailureKeys :: nat where "maxFailureKeys = 100000"

definition held :: "'h hit_lru \<Rightarrow> 'h \<Rightarrow> string \<rightharpoonup> time list" where
  "held L h k = snd (hl_Get L h k)"

definition hit_lru_ok :: "'h hit_lru \<Rightarrow> bool" where
  "hit_lru_ok L \<longleftrightarrow> held L (hl_New L) = Map.empty \<and>
     (\<forall>h k. held L (fst (hl_Get L h k)) = held L h) \<and>
     (\<forall>h k. held L (hl_Remove L h k) = (held L h)(k := None)) \<and>
     (\<forall>h k ts. finite (dom (held L h)) \<longrightarrow> card (insert k (dom (held L h))) \<le> maxFailureKeys \<longrightarrow>
        held L (hl_Add L h k ts) = (held L h)(k \<mapsto> ts))"

record keyTurn =
  kt_ch :: bool
  kt_waiters :: nat

record FailureLimiter =
  fl_Window :: duration
  fl_PerUserIP :: int

record 'h limiter =
  li_hits :: 'h
  li_busy :: "string \<rightharpoonup> keyTurn"

definition userIPKey :: "string \<Rightarrow> string \<Rightarrow> string" where
  "userIPKey username ip = ip @ NUL # username"

definition countLocked :: "'h hit_lru \<Rightarrow> FailureLimiter \<Rightarrow> time \<Rightarrow> string \<Rightarrow> 'h \<Rightarrow> 'h \<times> nat" where
  "countLocked L F now key h = (case hl_Get L h key of
     (h, None) \<Rightarrow> (h, 0)
   | (h, Some ts) \<Rightarrow>
       let cut = now - fl_Window F; rest = dropWhile (\<lambda>t. \<not> cut < t) ts in
       if rest = [] then (hl_Remove L h key, 0)
       else ((if length rest < length ts then hl_Add L h key rest else h), length rest))"

text \<open>The sections of \<^verbatim>\<open>Begin\<close>: joining the turn of a key, taking its channel, the count, and giving the turn up.\<close>

definition init_limiter :: "'h hit_lru \<Rightarrow> 'h limiter" where
  "init_limiter L = \<lparr>li_hits = hl_New L, li_busy = Map.empty\<rparr>"

definition join :: "string \<Rightarrow> 'h limiter \<Rightarrow> 'h limiter" where
  "join k l = (let turn = (case li_busy l k of None \<Rightarrow> \<lparr>kt_ch = False, kt_waiters = 0\<rparr> | Some t \<Rightarrow> t) in
     l\<lparr>li_busy := (li_busy l)(k \<mapsto> turn\<lparr>kt_waiters := kt_waiters turn + 1\<rparr>)\<rparr>)"

definition leave :: "string \<Rightarrow> 'h limiter \<Rightarrow> 'h limiter" where
  "leave k l = (case li_busy l k of None \<Rightarrow> l
     | Some turn \<Rightarrow> if kt_waiters turn - 1 = 0 then l\<lparr>li_busy := (li_busy l)(k := None)\<rparr>
         else l\<lparr>li_busy := (li_busy l)(k \<mapsto> turn\<lparr>kt_waiters := kt_waiters turn - 1\<rparr>)\<rparr>)"

text \<open>Sending to the channel of capacity one, \<^term>\<open>None\<close> while it is full, and receiving from it.\<close>

definition take_turn :: "string \<Rightarrow> 'h limiter \<Rightarrow> 'h limiter option" where
  "take_turn k l = (case li_busy l k of None \<Rightarrow> None
     | Some turn \<Rightarrow> if kt_ch turn then None else Some (l\<lparr>li_busy := (li_busy l)(k \<mapsto> turn\<lparr>kt_ch := True\<rparr>)\<rparr>))"

definition free_turn :: "string \<Rightarrow> 'h limiter \<Rightarrow> 'h limiter" where
  "free_turn k l = (case li_busy l k of None \<Rightarrow> l | Some turn \<Rightarrow> l\<lparr>li_busy := (li_busy l)(k \<mapsto> turn\<lparr>kt_ch := False\<rparr>)\<rparr>)"

definition blocked :: "'h hit_lru \<Rightarrow> FailureLimiter \<Rightarrow> time \<Rightarrow> string \<Rightarrow> 'h limiter \<Rightarrow> 'h limiter \<times> bool" where
  "blocked L F now k l = (case countLocked L F now k (li_hits l) of (h, n) \<Rightarrow> (l\<lparr>li_hits := h\<rparr>, fl_PerUserIP F \<le> int n))"

definition record_failure :: "'h hit_lru \<Rightarrow> time \<Rightarrow> string \<Rightarrow> 'h limiter \<Rightarrow> 'h limiter" where
  "record_failure L now k l = (case hl_Get L (li_hits l) k of
     (h, ts) \<Rightarrow> l\<lparr>li_hits := hl_Add L h k ((case ts of None \<Rightarrow> [] | Some ts \<Rightarrow> ts) @ [now])\<rparr>)"

text \<open>
  Where an attempt is: before its turn, with the turn, checking the password, or about to leave.  A world has the
  limiter, the attempts with their keys, the clock and, newest first, the failures so far.
\<close>

datatype phase = Waiting | Turn | Checking | Leaving

record 'h attempts =
  at_limiter :: "'h limiter"
  at_all :: "(string \<times> phase) multiset"
  at_now :: time
  at_failures :: "(string \<times> time) list"

inductive limiter_step :: "'h hit_lru \<Rightarrow> FailureLimiter \<Rightarrow> string set \<Rightarrow> 'h attempts \<Rightarrow> 'h attempts \<Rightarrow> bool"
  for L :: "'h hit_lru" and F :: FailureLimiter and K :: "string set" where
  begins: "k \<in> K \<Longrightarrow> limiter_step L F K w (w\<lparr>at_limiter := join k (at_limiter w), at_all := add_mset (k, Waiting) (at_all w)\<rparr>)"
| takes: "at_all w = add_mset (k, Waiting) A \<Longrightarrow> take_turn k (at_limiter w) = Some l \<Longrightarrow>
    limiter_step L F K w (w\<lparr>at_limiter := l, at_all := add_mset (k, Turn) A\<rparr>)"
| gives_up: "at_all w = add_mset (k, Waiting) A \<Longrightarrow>
    limiter_step L F K w (w\<lparr>at_limiter := leave k (at_limiter w), at_all := A\<rparr>)"
| throttled: "at_all w = add_mset (k, Turn) A \<Longrightarrow> blocked L F (at_now w) k (at_limiter w) = (l, True) \<Longrightarrow>
    limiter_step L F K w (w\<lparr>at_limiter := free_turn k l, at_all := add_mset (k, Leaving) A\<rparr>)"
| granted: "at_all w = add_mset (k, Turn) A \<Longrightarrow> blocked L F (at_now w) k (at_limiter w) = (l, False) \<Longrightarrow>
    limiter_step L F K w (w\<lparr>at_limiter := l, at_all := add_mset (k, Checking) A\<rparr>)"
| failed: "at_all w = add_mset (k, Checking) A \<Longrightarrow>
    limiter_step L F K w (w\<lparr>at_limiter := free_turn k (record_failure L (at_now w) k (at_limiter w)),
      at_all := add_mset (k, Leaving) A, at_failures := (k, at_now w) # at_failures w\<rparr>)"
| passed: "at_all w = add_mset (k, Checking) A \<Longrightarrow>
    limiter_step L F K w (w\<lparr>at_limiter := free_turn k (at_limiter w), at_all := add_mset (k, Leaving) A\<rparr>)"
| leaves: "at_all w = add_mset (k, Leaving) A \<Longrightarrow>
    limiter_step L F K w (w\<lparr>at_limiter := leave k (at_limiter w), at_all := A\<rparr>)"
| tick: "at_now w \<le> t \<Longrightarrow> limiter_step L F K w (w\<lparr>at_now := t\<rparr>)"

definition start_attempts :: "'h hit_lru \<Rightarrow> 'h attempts" where
  "start_attempts L = \<lparr>at_limiter = init_limiter L, at_all = {#}, at_now = 0, at_failures = []\<rparr>"

section \<open>Logins\<close>

definition errEncryptionRequired :: SMTPError where
  "errEncryptionRequired = smtpError 538 (5, 7, 11) ''Encryption required for requested authentication mechanism (use STARTTLS)''"

definition errAuthThrottled :: SMTPError where
  "errAuthThrottled = smtpError 454 (4, 7, 0) ''Too many failed authentication attempts, try again later''"

definition credentialAuthAllowed :: "bool \<Rightarrow> bool \<Rightarrow> bool \<Rightarrow> bool" where
  "credentialAuthAllowed credentials isTLS allowInsecure \<longleftrightarrow> credentials \<and> (isTLS \<or> allowInsecure)"

text \<open>Why PLAIN or LOGIN is refused, if it is; \<open>unknown\<close> is \<^verbatim>\<open>ErrAuthUnknownMechanism\<close> of \<^verbatim>\<open>go-smtp\<close>.\<close>

definition credentialAuth :: "SMTPError \<Rightarrow> bool \<Rightarrow> bool \<Rightarrow> bool \<Rightarrow> SMTPError option" where
  "credentialAuth unknown credentials isTLS allowInsecure =
     (if \<not> credentials then Some unknown
      else if \<not> credentialAuthAllowed credentials isTLS allowInsecure then Some errEncryptionRequired
      else None)"

text \<open>What \<^verbatim>\<open>Begin\<close> answers; the limiter may be absent or off.\<close>

datatype begin_answer = Granted | Throttled | BeginError

definition limiterOn :: "FailureLimiter option \<Rightarrow> bool" where
  "limiterOn f \<longleftrightarrow> (case f of None \<Rightarrow> False | Some F \<Rightarrow> 0 < fl_PerUserIP F)"

definition authFailed :: "string \<Rightarrow> string \<Rightarrow> string \<Rightarrow> 'l gateway \<Rightarrow> 'l gateway" where
  "authFailed msgID username reason g =
     Reject g ((blankEvent msgID)\<lparr>ev_AuthMethod := AuthSMTPCredential, ev_Credential := auditUsername username\<rparr>) reason"

text \<open>The whole of \<^verbatim>\<open>credentialLogin\<close>: with its reply, what the attempt reports to the limiter, if it was let in.\<close>

definition passwordLogin :: "FailureLimiter option \<Rightarrow> begin_answer \<Rightarrow> string \<Rightarrow> verify_error + MailCredential \<Rightarrow>
    (MailCredential \<Rightarrow> string \<Rightarrow> verify_error + Credential_Verifier.Result) \<Rightarrow> string \<Rightarrow> string \<Rightarrow> session \<Rightarrow> 'l gateway \<Rightarrow>
    bool option \<times> 'l reply" where
  "passwordLogin f ans msgID lookup chk username password s g = (case lookup of
     Inl e \<Rightarrow> (None, credentialLogin msgID username (Inl e) s g)
   | Inr mc \<Rightarrow>
       if Generated mc \<or> \<not> limiterOn f then (None, credentialLogin msgID username (chk mc password) s g)
       else (case ans of
         Throttled \<Rightarrow> (None, (s, authFailed msgID username ''auth_rate_limited'' g, Some errAuthThrottled))
       | BeginError \<Rightarrow> (None, credentialLogin msgID username (Inl ErrContext) s g)
       | Granted \<Rightarrow> (Some (chk mc password = Inl ErrInvalid), credentialLogin msgID username (chk mc password) s g)))"

text \<open>The callback of AUTH PLAIN: \<open>login\<close> is \<open>passwordLogin\<close> of this attempt.\<close>

definition plainLogin :: "string \<Rightarrow> string \<Rightarrow> string \<Rightarrow> string \<Rightarrow> (string \<Rightarrow> string \<Rightarrow> session \<Rightarrow> 'l gateway \<Rightarrow> bool option \<times> 'l reply) \<Rightarrow>
    session \<Rightarrow> 'l gateway \<Rightarrow> bool option \<times> 'l reply" where
  "plainLogin msgID identity username password login s g =
     (if identity \<noteq> [] \<and> identity \<noteq> username
      then (None, (s, authFailed msgID username ''invalid_credentials'' g, Some errInvalidCredentials))
      else login username password s g)"

section \<open>One attempt at a time\<close>

text \<open>The attempts of a key in some phases, and what the turn of the key has to say about them.\<close>

definition numAt :: "string \<Rightarrow> phase list \<Rightarrow> (string \<times> phase) multiset \<Rightarrow> nat" where
  "numAt k ps A = size (filter_mset (\<lambda>a. fst a = k \<and> snd a \<in> set ps) A)"

lemma numAt_simps [simp]:
  "numAt k ps {#} = 0" "numAt k ps (add_mset (k', p) A) = (if k' = k \<and> p \<in> set ps then Suc (numAt k ps A) else numAt k ps A)"
  by (simp_all add: numAt_def)

abbreviation anyPhase :: "phase list" where "anyPhase \<equiv> [Waiting, Turn, Checking, Leaving]"

definition turnOK :: "(string \<times> phase) multiset \<Rightarrow> string \<Rightarrow> keyTurn option \<Rightarrow> bool" where
  "turnOK A k turn \<longleftrightarrow> (case turn of None \<Rightarrow> numAt k anyPhase A = 0 \<and> numAt k [Turn, Checking] A = 0
     | Some t \<Rightarrow> kt_waiters t = numAt k anyPhase A \<and> 0 < numAt k anyPhase A \<and> numAt k [Turn, Checking] A = (if kt_ch t then 1 else 0))"

lemma numAt_mono: "numAt k [Checking] A \<le> numAt k [Turn, Checking] A" "numAt k [Turn, Checking] A \<le> numAt k anyPhase A"
  by (induction A) auto

definition turnsOK :: "'h attempts \<Rightarrow> bool" where
  "turnsOK w \<longleftrightarrow> (\<forall>k. turnOK (at_all w) k (li_busy (at_limiter w) k))"

lemma busy_hits [simp]:
  "li_busy (record_failure L now k l) = li_busy l"
  "li_hits (join k l) = li_hits l" "li_hits (leave k l) = li_hits l" "li_hits (free_turn k l) = li_hits l"
  by (auto simp: record_failure_def join_def leave_def free_turn_def Let_def split: prod.splits option.splits)

lemma blocked_busy: "blocked L F now k l = (l', b) \<Longrightarrow> li_busy l' = li_busy l"
  by (auto simp: blocked_def split: prod.splits)

lemma take_turn_hits: "take_turn k l = Some l' \<Longrightarrow> li_hits l' = li_hits l"
  by (auto simp: take_turn_def split: option.splits if_splits)

lemma busy_simps [simp]:
  "li_busy (free_turn k l) k' = (if k' = k then map_option (\<lambda>t. t\<lparr>kt_ch := False\<rparr>) (li_busy l k) else li_busy l k')"
  "li_busy (leave k l) k' = (if k' = k then (case li_busy l k of None \<Rightarrow> None | Some t \<Rightarrow>
      if kt_waiters t - 1 = 0 then None else Some (t\<lparr>kt_waiters := kt_waiters t - 1\<rparr>)) else li_busy l k')"
  by (auto simp: free_turn_def leave_def split: option.splits)

lemma turnsOK_upd:
  assumes "turnsOK w" "turnOK (at_all w) k (li_busy (at_limiter w) k) \<Longrightarrow> turnOK (at_all w') k (li_busy (at_limiter w') k)"
    "\<And>k'. k' \<noteq> k \<Longrightarrow> li_busy (at_limiter w') k' = li_busy (at_limiter w) k'"
    "\<And>k' ps. k' \<noteq> k \<Longrightarrow> numAt k' ps (at_all w') = numAt k' ps (at_all w)"
  shows "turnsOK w'"
proof -
  have "turnOK (at_all w') k' (li_busy (at_limiter w') k')" for k'
  proof (cases "k' = k")
    case False
    have "turnOK (at_all w) k' (li_busy (at_limiter w) k')" using assms(1) by (simp add: turnsOK_def)
    then show ?thesis unfolding turnOK_def assms(3,4) [OF False] .
  qed (use assms(1,2) in \<open>simp add: turnsOK_def\<close>)
  then show ?thesis by (simp add: turnsOK_def)
qed

lemma limiter_step_turns: "limiter_step L F K w w' \<Longrightarrow> turnsOK w \<Longrightarrow> turnsOK w'"
proof (induction rule: limiter_step.induct)
  case (begins k w)
  show ?case by (rule turnsOK_upd [OF begins(2), of k]) (auto simp: turnOK_def join_def Let_def split: option.splits)
next
  case (takes w k A l)
  show ?case by (rule turnsOK_upd [OF takes(3), of k])
    (use takes(1,2) in \<open>auto simp: turnOK_def take_turn_def split: option.splits if_splits\<close>)
next
  case (gives_up w k A)
  show ?case by (rule turnsOK_upd [OF gives_up(2), of k])
    (use gives_up(1) numAt_mono(2) [of k A] in \<open>auto simp: turnOK_def split: option.splits if_splits\<close>)
next
  case (throttled w k A l)
  show ?case by (rule turnsOK_upd [OF throttled(3), of k])
    (use throttled(1) blocked_busy [OF throttled(2)] in \<open>auto simp: turnOK_def split: option.splits if_splits\<close>)
next
  case (granted w k A l)
  show ?case by (rule turnsOK_upd [OF granted(3), of k])
    (use granted(1) blocked_busy [OF granted(2)] in \<open>auto simp: turnOK_def split: option.splits if_splits\<close>)
next
  case (failed w k A)
  show ?case by (rule turnsOK_upd [OF failed(2), of k])
    (use failed(1) in \<open>auto simp: turnOK_def split: option.splits if_splits\<close>)
next
  case (passed w k A)
  show ?case by (rule turnsOK_upd [OF passed(2), of k])
    (use passed(1) in \<open>auto simp: turnOK_def split: option.splits if_splits\<close>)
next
  case (leaves w k A)
  show ?case by (rule turnsOK_upd [OF leaves(2), of k])
    (use leaves(1) numAt_mono(2) [of k A] in \<open>auto simp: turnOK_def split: option.splits if_splits\<close>)
qed (simp add: turnsOK_def)

lemma turnsOK_one: "turnsOK w \<Longrightarrow> numAt k [Turn, Checking] (at_all w) \<le> 1"
  by (auto simp: turnsOK_def turnOK_def dest!: spec [of _ k] split: option.splits)

section \<open>Failures in a window\<close>

definition stored :: "'h hit_lru \<Rightarrow> 'h \<Rightarrow> string \<Rightarrow> time list" where
  "stored L h k = (case held L h k of None \<Rightarrow> [] | Some ts \<Rightarrow> ts)"

definition failuresOf :: "string \<Rightarrow> 'h attempts \<Rightarrow> time list" where
  "failuresOf k w = rev (map snd (filter (\<lambda>f. fst f = k) (at_failures w)))"

text \<open>A set of keys that fits into the tracker.\<close>

definition fits :: "'h hit_lru \<Rightarrow> string set \<Rightarrow> 'h \<Rightarrow> bool" where
  "fits L K h \<longleftrightarrow> finite K \<and> card K \<le> maxFailureKeys \<and> dom (held L h) \<subseteq> K"

lemma held_Add:
  assumes "hit_lru_ok L" "fits L K h" "k \<in> K"
  shows "held L (hl_Add L h k ts) = (held L h)(k \<mapsto> ts)"
proof -
  have d: "insert k (dom (held L h)) \<subseteq> K" "finite K" "card K \<le> maxFailureKeys" using assms(2,3) by (auto simp: fits_def)
  then have "card (insert k (dom (held L h))) \<le> maxFailureKeys" "finite (dom (held L h))"
    using card_mono [OF d(2,1)] finite_subset [OF d(1,2)] by auto
  then show ?thesis using assms(1) by (simp add: hit_lru_ok_def)
qed

lemma Get_held: "hit_lru_ok L \<Longrightarrow> hl_Get L h k = (h', ts) \<Longrightarrow> held L h' = held L h \<and> ts = held L h k"
  unfolding hit_lru_ok_def held_def by (metis fst_conv snd_conv)

lemma held_Remove: "hit_lru_ok L \<Longrightarrow> held L (hl_Remove L h k) = (held L h)(k := None)"
  by (simp add: hit_lru_ok_def)

lemma countLocked_stored:
  assumes "hit_lru_ok L" "fits L K h" "k \<in> K" "countLocked L F now k h = (h', n)"
  shows "fits L K h' \<and> n = length (stored L h' k) \<and> stored L h' k = dropWhile (\<lambda>t. \<not> now - fl_Window F < t) (stored L h k) \<and>
    (\<forall>k'. k' \<noteq> k \<longrightarrow> stored L h' k' = stored L h k')"
proof -
  obtain h1 r where g: "hl_Get L h k = (h1, r)" by force
  note e = Get_held [OF assms(1) g]
  have f1: "fits L K h1" using assms(2) e by (simp add: fits_def)
  show ?thesis
  proof (cases r)
    case None
    then show ?thesis using assms(2,4) g e by (auto simp: countLocked_def stored_def fits_def)
  next
    case (Some ts)
    let ?rest = "dropWhile (\<lambda>t. \<not> now - fl_Window F < t) ts"
    have s: "stored L h k = ts" using e [THEN conjunct2, symmetric] Some by (simp add: stored_def)
    have same: "?rest = ts" if "\<not> length ?rest < length ts"
    proof -
      have "length (takeWhile (\<lambda>t. \<not> now - fl_Window F < t) ts) + length ?rest = length ts"
        by (metis length_append takeWhile_dropWhile_id)
      then have "length (takeWhile (\<lambda>t. \<not> now - fl_Window F < t) ts) = 0" using that by linarith
      then have "takeWhile (\<lambda>t. \<not> now - fl_Window F < t) ts = []" by (simp only: length_0_conv)
      then show ?thesis by (metis append_Nil takeWhile_dropWhile_id)
    qed
    have h': "held L h' = (held L h)(k := if ?rest = [] then None else Some ?rest)" "n = length ?rest"
      using assms(4) g Some e held_Remove [OF assms(1), of h1 k] held_Add [OF assms(1) f1 assms(3), of ?rest] same
      by (auto simp: countLocked_def Let_def split: if_splits)
    have "fits L K h'" using assms(2,3) unfolding fits_def h'(1) by (auto split: if_splits)
    moreover have "stored L h' k = ?rest" unfolding stored_def h'(1) by (cases "?rest = []") (simp_all del: dropWhile_eq_Nil_conv)
    moreover have "stored L h' k' = stored L h k'" if "k' \<noteq> k" for k' unfolding stored_def h'(1) using that by simp
    ultimately show ?thesis using s h'(2) by simp
  qed
qed

lemma record_failure_stored:
  assumes "hit_lru_ok L" "fits L K (li_hits l)" "k \<in> K"
  shows "fits L K (li_hits (record_failure L now k l))"
    "stored L (li_hits (record_failure L now k l)) k' = stored L (li_hits l) k' @ (if k' = k then [now] else [])"
proof -
  obtain h r where g: "hl_Get L (li_hits l) k = (h, r)" by force
  note e = Get_held [OF assms(1) g]
  have "fits L K h" using assms(2) e by (simp add: fits_def)
  note a = held_Add [OF assms(1) this assms(3)]
  show "fits L K (li_hits (record_failure L now k l))"
    using assms(2,3) e by (auto simp: record_failure_def g fits_def a split: if_splits)
  show "stored L (li_hits (record_failure L now k l)) k' = stored L (li_hits l) k' @ (if k' = k then [now] else [])"
    using e by (auto simp: record_failure_def g stored_def a split: option.splits)
qed

text \<open>What the tracker forgot of a key is out of the window; what it has, with a check that runs, is within the limit.\<close>

definition trackOK :: "'h hit_lru \<Rightarrow> FailureLimiter \<Rightarrow> 'h attempts \<Rightarrow> string \<Rightarrow> bool" where
  "trackOK L F w k \<longleftrightarrow>
     (\<exists>old. failuresOf k w = old @ stored L (li_hits (at_limiter w)) k \<and> (\<forall>t\<in>set old. t \<le> at_now w - fl_Window F)) \<and>
     (\<forall>t\<in>set (failuresOf k w). t \<le> at_now w) \<and>
     int (length (stored L (li_hits (at_limiter w)) k) + numAt k [Checking] (at_all w)) \<le> fl_PerUserIP F \<and>
     (\<forall>e. int (length (filter (\<lambda>t. e - fl_Window F < t \<and> t \<le> e) (failuresOf k w))) \<le> fl_PerUserIP F)"

definition limiterOK :: "'h hit_lru \<Rightarrow> FailureLimiter \<Rightarrow> string set \<Rightarrow> 'h attempts \<Rightarrow> bool" where
  "limiterOK L F K w \<longleftrightarrow> turnsOK w \<and> fits L K (li_hits (at_limiter w)) \<and> (\<forall>a\<in>#at_all w. fst a \<in> K) \<and> (\<forall>k. trackOK L F w k)"

lemma trackOK_same:
  assumes "trackOK L F w k" "stored L (li_hits (at_limiter w')) k = stored L (li_hits (at_limiter w)) k"
    "failuresOf k w' = failuresOf k w" "numAt k [Checking] (at_all w') \<le> numAt k [Checking] (at_all w)" "at_now w \<le> at_now w'"
  shows "trackOK L F w' k"
proof -
  note t = assms(1) [unfolded trackOK_def]
  from t obtain old where o: "failuresOf k w = old @ stored L (li_hits (at_limiter w)) k" "\<forall>t\<in>set old. t \<le> at_now w - fl_Window F" by blast
  have "\<forall>t\<in>set old. t \<le> at_now w' - fl_Window F"
    using o(2) diff_right_mono [OF assms(5), of "fl_Window F"] order_trans by blast
  then have "\<exists>old. failuresOf k w' = old @ stored L (li_hits (at_limiter w')) k \<and> (\<forall>t\<in>set old. t \<le> at_now w' - fl_Window F)"
    using o(1) assms(2,3) by (intro exI [of _ old]) simp
  moreover have "\<forall>t\<in>set (failuresOf k w'). t \<le> at_now w'" using t assms(3,5) order_trans by auto
  moreover have "int (length (stored L (li_hits (at_limiter w')) k) + numAt k [Checking] (at_all w')) \<le> fl_PerUserIP F"
    using t assms(2,4) by simp
  ultimately show ?thesis unfolding trackOK_def using t assms(3) by simp
qed

lemma failuresOf_simps [simp]:
  "failuresOf k (w\<lparr>at_limiter := l\<rparr>) = failuresOf k w" "failuresOf k (w\<lparr>at_all := A\<rparr>) = failuresOf k w"
  "failuresOf k (w\<lparr>at_now := t\<rparr>) = failuresOf k w"
  by (simp_all add: failuresOf_def)

text \<open>The count forgets what is out of the window.\<close>

lemma trackOK_count:
  assumes t: "trackOK L F w k" and s: "stored L (li_hits l) k = dropWhile (\<lambda>t. \<not> at_now w - fl_Window F < t) (stored L (li_hits (at_limiter w)) k)"
    and n: "int (length (stored L (li_hits l) k) + numAt k [Checking] A) \<le> fl_PerUserIP F"
  shows "trackOK L F (w\<lparr>at_limiter := l, at_all := A\<rparr>) k"
proof -
  let ?s = "stored L (li_hits (at_limiter w)) k" and ?P = "\<lambda>t. \<not> at_now w - fl_Window F < t"
  from t obtain old where o: "failuresOf k w = old @ ?s" "\<forall>t\<in>set old. t \<le> at_now w - fl_Window F" by (auto simp: trackOK_def)
  have "failuresOf k w = (old @ takeWhile ?P ?s) @ stored L (li_hits l) k" using o(1) s by simp
  moreover have "\<forall>t\<in>set (old @ takeWhile ?P ?s). t \<le> at_now w - fl_Window F" using o(2) by (auto dest: set_takeWhileD)
  ultimately show ?thesis using t n unfolding trackOK_def by auto
qed

text \<open>A failure is within the limit of every window: what was forgotten is in none with it.\<close>

lemma trackOK_failure:
  assumes t: "trackOK L F w k" and A: "at_all w = add_mset (k, Checking) A"
    and s: "stored L (li_hits l) k = stored L (li_hits (at_limiter w)) k @ [at_now w]"
  shows "trackOK L F (w\<lparr>at_limiter := l, at_all := add_mset (k, Leaving) A, at_failures := (k, at_now w) # at_failures w\<rparr>) k"
proof -
  let ?s = "stored L (li_hits (at_limiter w)) k" and ?W = "fl_Window F" and ?now = "at_now w"
  let ?w = "w\<lparr>at_limiter := l, at_all := add_mset (k, Leaving) A, at_failures := (k, at_now w) # at_failures w\<rparr>"
  from t obtain old where o: "failuresOf k w = old @ ?s" "\<forall>t\<in>set old. t \<le> ?now - ?W" by (auto simp: trackOK_def)
  have f: "failuresOf k ?w = failuresOf k w @ [?now]" by (simp add: failuresOf_def)
  have len: "int (length ?s + 1 + numAt k [Checking] A) \<le> fl_PerUserIP F" using t A by (simp add: trackOK_def)
  have "int (length (filter (\<lambda>t. e - ?W < t \<and> t \<le> e) (failuresOf k ?w))) \<le> fl_PerUserIP F" for e
  proof (cases "?now \<le> e")
    case True
    have "filter (\<lambda>t. e - ?W < t \<and> t \<le> e) old = []" using o(2) True by (force simp: filter_empty_conv)
    then have "length (filter (\<lambda>t. e - ?W < t \<and> t \<le> e) (failuresOf k ?w)) \<le> length ?s + 1"
      by (auto simp: f o(1) intro: le_SucI length_filter_le)
    then show ?thesis using len by linarith
  next
    case False
    then show ?thesis using t by (simp add: f trackOK_def)
  qed
  moreover have "\<exists>old. failuresOf k ?w = old @ stored L (li_hits l) k \<and> (\<forall>t\<in>set old. t \<le> ?now - ?W)"
    using o s f by auto
  ultimately show ?thesis using t len s f unfolding trackOK_def by auto
qed

lemma limiterOK_start: "hit_lru_ok L \<Longrightarrow> finite K \<Longrightarrow> card K \<le> maxFailureKeys \<Longrightarrow> 0 < fl_PerUserIP F \<Longrightarrow> limiterOK L F K (start_attempts L)"
  by (simp add: limiterOK_def start_attempts_def init_limiter_def turnsOK_def turnOK_def fits_def trackOK_def failuresOf_def
      stored_def hit_lru_ok_def)

lemma blocked_stored:
  assumes "hit_lru_ok L" "fits L K (li_hits l)" "k \<in> K" "blocked L F now k l = (l', b)"
  shows "fits L K (li_hits l')" "b \<longleftrightarrow> fl_PerUserIP F \<le> int (length (stored L (li_hits l') k))"
    "stored L (li_hits l') k = dropWhile (\<lambda>t. \<not> now - fl_Window F < t) (stored L (li_hits l) k)"
    "k' \<noteq> k \<Longrightarrow> stored L (li_hits l') k' = stored L (li_hits l) k'"
proof -
  obtain h n where c: "countLocked L F now k (li_hits l) = (h, n)" by force
  then have l': "l' = l\<lparr>li_hits := h\<rparr>" "b = (fl_PerUserIP F \<le> int n)" using assms(4) by (auto simp: blocked_def)
  note s = countLocked_stored [OF assms(1-3) c]
  show "fits L K (li_hits l')" "b \<longleftrightarrow> fl_PerUserIP F \<le> int (length (stored L (li_hits l') k))"
    "stored L (li_hits l') k = dropWhile (\<lambda>t. \<not> now - fl_Window F < t) (stored L (li_hits l) k)"
    using s l' by auto
  show "k' \<noteq> k \<Longrightarrow> stored L (li_hits l') k' = stored L (li_hits l) k'" using s l' by auto
qed

lemma limiter_step_ok:
  assumes "hit_lru_ok L" "limiter_step L F K w w'" "limiterOK L F K w"
  shows "limiterOK L F K w'"
proof -
  have i: "turnsOK w" "fits L K (li_hits (at_limiter w))" "\<forall>a\<in>#at_all w. fst a \<in> K" "\<And>k. trackOK L F w k"
    using assms(3) by (auto simp: limiterOK_def)
  note t' = limiter_step_turns [OF assms(2) i(1)]
  note same = trackOK_same [OF i(4)]
  from assms(2) show ?thesis
  proof (cases rule: limiter_step.cases)
    case (begins k)
    then show ?thesis using t' i by (auto simp: limiterOK_def intro!: same)
  next
    case (takes k A l)
    then show ?thesis using t' i take_turn_hits [OF takes(3)] by (auto simp: limiterOK_def intro!: same)
  next
    case (gives_up k A)
    then show ?thesis using t' i by (auto simp: limiterOK_def intro!: same)
  next
    case (throttled k A l)
    have k: "k \<in> K" using i(3) throttled(2) by simp
    note b = blocked_stored [OF assms(1) i(2) k throttled(3)]
    have "trackOK L F w' k'" for k'
    proof (cases "k' = k")
      case True
      have "length (stored L (li_hits l) k) \<le> length (stored L (li_hits (at_limiter w)) k)"
        unfolding b(3) by (rule length_dropWhile_le)
      then have "int (length (stored L (li_hits l) k) + numAt k [Checking] (add_mset (k, Leaving) A)) \<le> fl_PerUserIP F"
        using i(4) [of k] throttled(2) by (simp add: trackOK_def)
      then show ?thesis unfolding throttled(1) True by (intro trackOK_count [OF i(4)]) (simp_all add: b(3))
    next
      case False
      then show ?thesis unfolding throttled(1) by (intro same) (simp_all add: throttled(2) b(4))
    qed
    then show ?thesis using t' i(3) b(1) throttled by (auto simp: limiterOK_def)
  next
    case (granted k A l)
    have k: "k \<in> K" using i(3) granted(2) by simp
    note b = blocked_stored [OF assms(1) i(2) k granted(3)]
    have "trackOK L F w' k'" for k'
    proof (cases "k' = k")
      case True
      have "numAt k [Checking] A = 0"
        using turnsOK_one [OF i(1), of k] numAt_mono(1) [of k A] granted(2) by simp
      then have "int (length (stored L (li_hits l) k) + numAt k [Checking] (add_mset (k, Checking) A)) \<le> fl_PerUserIP F"
        using b(2) by simp
      then show ?thesis unfolding granted(1) True by (intro trackOK_count [OF i(4)]) (simp_all add: b(3))
    next
      case False
      then show ?thesis unfolding granted(1) by (intro same) (simp_all add: granted(2) b(4))
    qed
    then show ?thesis using t' i(3) b(1) granted by (auto simp: limiterOK_def)
  next
    case (failed k A)
    have k: "k \<in> K" using i(3) failed(2) by simp
    note r = record_failure_stored [OF assms(1) i(2) k]
    have "trackOK L F w' k'" for k'
    proof (cases "k' = k")
      case True
      then show ?thesis unfolding failed(1) by (simp add: trackOK_failure [OF i(4) failed(2)] r)
    next
      case False
      then show ?thesis unfolding failed(1) by (intro same) (simp_all add: failed(2) r failuresOf_def)
    qed
    then show ?thesis using t' i(3) r(1) failed by (auto simp: limiterOK_def)
  next
    case (passed k A)
    then show ?thesis using t' i by (auto simp: limiterOK_def intro!: same)
  next
    case (leaves k A)
    then show ?thesis using t' i by (auto simp: limiterOK_def intro!: same)
  next
    case (tick t)
    then show ?thesis using t' i by (auto simp: limiterOK_def intro!: same)
  qed
qed

lemma limiter_reachable:
  assumes "hit_lru_ok L" "finite K" "card K \<le> maxFailureKeys" "0 < fl_PerUserIP F" "(limiter_step L F K)\<^sup>*\<^sup>* (start_attempts L) w"
  shows "limiterOK L F K w"
  using assms(5) by induction (use limiterOK_start [OF assms(1-4)] limiter_step_ok [OF assms(1)] in auto)

section \<open>Properties\<close>

text \<open>C18. However the logins of an address and a user interleave, at most one of them checks its password at a
  time, and no window holds more failed checks of that pair than the limit, while the tracker has room for the pairs that log in.\<close>

theorem failures_limited:
  assumes "hit_lru_ok L" "finite K" "card K \<le> maxFailureKeys" "0 < fl_PerUserIP F" "(limiter_step L F K)\<^sup>*\<^sup>* (start_attempts L) w"
  shows "numAt k [Checking] (at_all w) \<le> 1 \<and>
    int (length (filter (\<lambda>t. e - fl_Window F < t \<and> t \<le> e) (failuresOf k w))) \<le> fl_PerUserIP F"
proof -
  have ok: "turnsOK w" "trackOK L F w k" using limiter_reachable [OF assms] by (auto simp: limiterOK_def)
  then show ?thesis using turnsOK_one [OF ok(1), of k] numAt_mono(1) [of k "at_all w"] by (simp add: trackOK_def)
qed

section \<open>An attempt, evaluated\<close>

definition map_lru :: "(string \<rightharpoonup> time list) hit_lru" where
  "map_lru = \<lparr>hl_Get = (\<lambda>h k. (h, h k)), hl_Add = (\<lambda>h k ts. h(k \<mapsto> ts)), hl_Remove = (\<lambda>h k. h(k := None)), hl_New = Map.empty\<rparr>"

definition sample_limiter :: FailureLimiter where
  "sample_limiter = \<lparr>fl_Window = 60, fl_PerUserIP = 1\<rparr>"

definition sample_failed :: "(string \<rightharpoonup> time list) attempts" where
  "sample_failed = \<lparr>at_limiter = \<lparr>li_hits = [''k'' \<mapsto> [0]], li_busy = [''k'' \<mapsto> \<lparr>kt_ch = False, kt_waiters = 1\<rparr>]\<rparr>,
     at_all = {#(''k'', Leaving)#}, at_now = 0, at_failures = [(''k'', 0)]\<rparr>"

lemma map_lru_ok: "hit_lru_ok map_lru"
  by (auto simp: hit_lru_ok_def held_def map_lru_def fun_eq_iff)

lemma sample_failed_reachable: "(limiter_step map_lru sample_limiter {''k''})\<^sup>*\<^sup>* (start_attempts map_lru) sample_failed"
proof -
  let ?s = "limiter_step map_lru sample_limiter {''k''}" and ?w0 = "start_attempts map_lru"
  let ?w1 = "?w0\<lparr>at_limiter := join ''k'' (at_limiter ?w0), at_all := add_mset (''k'', Waiting) (at_all ?w0)\<rparr>"
  let ?l2 = "\<lparr>li_hits = Map.empty, li_busy = [''k'' \<mapsto> \<lparr>kt_ch = True, kt_waiters = 1\<rparr>]\<rparr>"
  let ?w2 = "?w1\<lparr>at_limiter := ?l2, at_all := add_mset (''k'', Turn) {#}\<rparr>"
  let ?w3 = "?w2\<lparr>at_limiter := ?l2, at_all := add_mset (''k'', Checking) {#}\<rparr>"
  note d = start_attempts_def init_limiter_def join_def map_lru_def take_turn_def
  have 1: "?s ?w0 ?w1" by (rule limiter_step.begins) simp
  have 2: "?s ?w1 ?w2" by (rule limiter_step.takes) (simp_all add: d)
  have 3: "?s ?w2 ?w3"
    by (rule limiter_step.granted) (simp_all add: d blocked_def countLocked_def sample_limiter_def)
  have "?s ?w3 (?w3\<lparr>at_limiter := free_turn ''k'' (record_failure map_lru (at_now ?w3) ''k'' (at_limiter ?w3)),
      at_all := add_mset (''k'', Leaving) {#}, at_failures := (''k'', at_now ?w3) # at_failures ?w3\<rparr>)"
    by (rule limiter_step.failed) simp
  then have "?s ?w3 sample_failed" by (simp add: d sample_failed_def free_turn_def record_failure_def)
  then show ?thesis using 1 2 3 by (meson converse_rtranclp_into_rtranclp rtranclp.rtrancl_refl)
qed

theorem failures_limited_witness:
  "length (filter (\<lambda>t. 0 - 60 < t \<and> t \<le> 0) (failuresOf ''k'' sample_failed)) = 1 \<and>
   int (length (filter (\<lambda>t. 0 - 60 < t \<and> t \<le> 0) (failuresOf ''k'' sample_failed))) \<le> 1"
proof -
  have "card {''k''} \<le> maxFailureKeys" "0 < fl_PerUserIP sample_limiter" by (simp_all add: maxFailureKeys_def sample_limiter_def)
  from failures_limited [OF map_lru_ok _ this sample_failed_reachable, of "''k''" 0]
  show ?thesis by (simp add: sample_limiter_def failuresOf_def sample_failed_def)
qed

end
