(* ===== verification/Spec2Isabelle.thy ===== *)
theory Spec2Isabelle
  imports Sig_Prelude Go_Strings Go_Path Go_Encoding Api_Types Policy_Address Policy_Engine Rate_Limit Rate_Window
    Backend_Config Credential Credential_Verifier Credential_Guard Webhook Gateway Smtp_Parts Smtp_Session
    Driver_Encoding Driver_Mime Credential_Controller Rest_Api Rest_Auth
    OAuth_Tokens Backend_Controller Smtp_Driver Login_Limiter
begin

text \<open>
  Sigillum is a mail gateway for Kubernetes workloads (\<^verbatim>\<open>github.com/se-wo/sigillum\<close>).  A workload
  hands in a message over REST or SMTP, as a ServiceAccount; a MailPolicy of its namespace decides
  whether the message may be sent and through which backend, a rate limit is charged, and a
  driver relays it.  Custom resources describe policies, backends and credentials; admission
  webhooks validate them and controllers keep their status.  This library models the decisions of
  that program as HOL functions and proves what makes them correct.

  \<^bold>\<open>Conventions.\<close>  A Go string or byte slice is a \<^typ>\<open>string\<close> whose characters are bytes; times and
  durations are nanoseconds in \<^typ>\<open>int\<close>, with conversions to 32 and 64 bits written where the code
  converts; structs are records whose fields carry a prefix; an error is \<open>Some\<close> or \<open>Inl\<close> of a
  datatype with one constructor per error; loops are recursive functions with termination proofs.
  Functions of the Go standard library that the code computes with (strings, path, utf8, strconv,
  base64, hex, sort) are defined in the \<open>Go_\<close> theories.  Code outside the repository is a
  parameter: the Unicode tables (\<open>unicode_tables\<close>), Kubernetes' selectors, DNS and label checks,
  UUIDs and \<^verbatim>\<open>net/mail\<close> (\<open>externals\<close>, \<open>mail_lib\<close>), the LRU cache (\<open>lru\<close>), SHA-256, argon2, x509, JSON,
  the objects of the cluster and the Redis script; what a theorem needs of one of them is a
  named hypothesis (\<open>dns_names\<close>, \<open>lru_ok\<close>, \<open>keyed\<close>), and its witness instantiates it.  Of SHA-256 no more is assumed than that it
  has no collision among the finitely many texts a theorem speaks of (\<open>logins_ok\<close>, \<open>inj_on\<close>).

  \<^bold>\<open>Theories.\<close>
  \<^item> \<open>Sig_Prelude\<close>: shared types, integer widths, list lemmas.
  \<^item> \<open>Go_Strings\<close>, \<open>Go_Path\<close>, \<open>Go_Encoding\<close>: the standard library.  \<open>Go_Path\<close> has \<^verbatim>\<open>path.Match\<close> and shows
    that a pattern with a literal end matches only names with that end.
  \<^item> \<open>Api_Types\<close>: \<^verbatim>\<open>api/v1alpha1\<close>, one record per struct.
  \<^item> \<open>Policy_Address\<close>, \<open>Policy_Engine\<close>: \<^verbatim>\<open>internal/policy\<close>.  Which addresses are accepted; which policy
    \<^verbatim>\<open>Match\<close> selects; exactly which messages \<^verbatim>\<open>Evaluate\<close> admits; blocked domains.
  \<^item> \<open>Rate_Limit\<close>, \<open>Rate_Window\<close>: \<^verbatim>\<open>internal/policy/ratelimit\<close>.  The locale \<open>limiter\<close> is the contract of a
    limiter, interpreted by all three; for the in-memory one, how far a window can be exceeded (against the hits
    admitted and not refunded): by the number of refunds that dropped a newer hit than their own, else not at
    all; and that a caller who waits as told is admitted.
  \<^item> \<open>Backend_Config\<close>: \<^verbatim>\<open>internal/driver\<close> (messages, errors, registry), \<^verbatim>\<open>internal/kubecache\<close> and
    \<^verbatim>\<open>internal/controller/backend_resolver.go\<close>.  Secrets of other namespaces cannot reach a backend.
  \<^item> \<open>Credential\<close>, \<open>Credential_Verifier\<close>, \<open>Credential_Guard\<close>: \<^verbatim>\<open>internal/credential\<close>.  Usernames, hashes with
    cost bounds, rotation, exclusions; exactly which logins succeed and sessions stay open, with the argon2id
    cache shown to be transparent; the admission policy that confines the controller's Secret writes, its CEL as
    predicates, with exactly which writes it admits, and that it agrees with the controller's own check.
  \<^item> \<open>Credential_Controller\<close>: \<^verbatim>\<open>mailcredential_controller.go\<close>, \<^verbatim>\<open>credential_guard.go\<close> and \<^verbatim>\<open>conditions.go\<close> of
    \<^verbatim>\<open>internal/controller\<close>: \<open>Reconcile\<close> in stages over its local variables, with the API server's answers as
    arguments and the rules of its Secret store as \<open>secret_api_ok\<close>.  Only own Secrets are written, an
    issued password logs in, the old one lives through its grace period, rotation settles, and the
    guard admits exactly the controller's writes.
  \<^item> \<open>Webhook\<close>: \<^verbatim>\<open>internal/webhook\<close>.  What admission accepts, and what that gives the other parts: allow
    lists anchored on domains, whatever characters their entries use, backends that resolve unless a Secret is wrong.
  \<^item> \<open>Gateway\<close>: \<^verbatim>\<open>internal/gateway\<close> and \<^verbatim>\<open>internal/audit\<close>.  \<open>Send\<close> is the pipeline with its effects as a
    trace; the inductive \<open>outcome\<close> is its specification, in terms of the checks and of the driver's answer, and \<open>Send\<close> refines it.  From the refinement
    follow: checks before delivery, one audit record per send, charging and refunding.  The
    validity cache is transparent.
  \<^item> \<open>Smtp_Parts\<close>, \<open>Smtp_Session\<close>: \<^verbatim>\<open>internal/smtpproxy\<close>.  In-place Bcc removal on the shared buffer, and the header-only message it leaves alone, the
    per-namespace cap under every interleaving, closing after a reply, pod identities, LOGIN; the
    commands of a session and the runs the server allows (\<open>smtp_step\<close>), which end in \<open>Send\<close>.
    \<open>Login_Limiter\<close> is the failed-login limiter of \<^verbatim>\<open>credential.go\<close> under every interleaving of logins: one check of
    a key at a time, and no window with more failures than the limit.

  \<^item> \<open>Driver_Encoding\<close>, \<open>Driver_Mime\<close>, \<open>Smtp_Driver\<close>: the encoders of \<^verbatim>\<open>internal/driver/smtp/mime.go\<close>, with a receiver's decoder for each:
    round trips, line lengths, and the long lines that \<^verbatim>\<open>lineBreakWriter\<close> leaves in base64.
    \<open>Driver_Mime\<close> is \<^verbatim>\<open>AssembleMessage\<close> on top of them: a receiver reads back the fields of the message and of the caller,
    and the body carries every text and attachment.
    \<open>Smtp_Driver\<close> is \<^verbatim>\<open>smtp.go\<close>, with the answers of the relays as a parameter: a message is handed to at most one
    endpoint and counts as sent exactly if that one took it, and a password goes over established TLS only.

  \<^item> \<open>Rest_Api\<close>, \<open>Rest_Auth\<close>: \<^verbatim>\<open>messages.go\<close>, \<^verbatim>\<open>problem\<close>, \<^verbatim>\<open>bodybudget.go\<close>, \<^verbatim>\<open>auth/tokenreview.go\<close> and the middleware of
    \<^verbatim>\<open>server.go\<close> of \<^verbatim>\<open>internal/apiserver\<close>.  \<open>handleSendMessage\<close> ends in \<open>Send\<close>: one audit record per request, what
    a relayed message satisfies, header fields that are the checked ones in every order of the map, answers
    that agree with SMTP's, and what the size estimate omits.  \<open>Authenticate\<close> accepts a token only on a review of it.

  \<^item> \<open>Backend_Controller\<close>: the MailBackend, ClusterMailBackend and MailPolicy reconcilers and \<^verbatim>\<open>probe.go\<close> of
    \<^verbatim>\<open>internal/controller\<close>.  When a backend becomes Ready, and how a policy's Ready condition relates to the
    gateway's decision: they differ only for a backend that became invalid since.
  \<^item> \<open>OAuth_Tokens\<close>: \<^verbatim>\<open>internal/oauth\<close> and \<^verbatim>\<open>internal/driver/graph/tokens.go\<close>.  Answers of token endpoints; the token cache as a
    step relation over callers, fetches and invalidations: one fetch at a time, no forgotten waiter, valid
    tokens from memory, and that a waiter gets its fetch's answer unchecked.

  \<^bold>\<open>How the parts meet.\<close>  A session's \<open>Data\<close> and the REST handler call \<open>Send\<close> of \<open>Gateway\<close>; \<open>Send\<close> calls \<open>Match\<close> and \<open>Evaluate\<close>, the
  validation of \<open>Webhook\<close> through the cache \<open>check\<close>, \<open>ResolveBackendConfig\<close>, and a limiter that satisfies the
  contract; \<open>Webhook\<close> uses the address and credential rules.  The theorems follow these calls.

  \<^bold>\<open>Bounds.\<close>  No function of the model uses fuel to be total: every loop has a measure.  The only
  counted recursion is that of \<open>encodingSavings\<close>, whose bound is the code's own \<^verbatim>\<open>maxMIMEDepth\<close>.

  \<^bold>\<open>Not modelled.\<close>  Logs, metrics and traces (\<^verbatim>\<open>internal/telemetry\<close>), which no decision reads; sockets, TLS
  reloading and server start-up (\<^verbatim>\<open>cmd\<close>, \<^verbatim>\<open>internal/tlsreload\<close>, \<^verbatim>\<open>internal/cliflags\<close>, \<^verbatim>\<open>run.go\<close>, \<^verbatim>\<open>server.go\<close>), which
  are calls into libraries; generated deep copies.  Also left out: the OAuth broker's
  loop and the controller's set-up in \<^verbatim>\<open>internal/controller\<close> and the Graph driver's requests.
\<close>

end
